(* ===== verification/Prelude.thy ===== *)
theory Prelude
  imports Main "HOL-Library.Word"
begin

text \<open>
  Shared vocabulary of the development: C++ exceptions and undefined behaviour as values,
  the narrowing conversions of the C integer types, the iteration orders of
  \<^verbatim>\<open>std::unordered_map\<close>, and the generic interface of a transition system with an invariant.
\<close>

named_theorems cint_simps
  "conversions between C integer widths, on values that fit"

section \<open>Exceptions and results\<close>

text \<open>
  What a C++ function of the program may end with besides a value: one of the standard
  exceptions it throws, or undefined behaviour it runs into. A fallible function returns
  \<^typ>\<open>'e + 'a\<close> with \<open>Inl\<close> for these.
\<close>

datatype exn =
    RuntimeError string
  | SystemError int string
  | InvalidArgument string
  | OutOfRange string
  | UndefinedBehaviour string

definition res_bind :: "'e + 'a \<Rightarrow> ('a \<Rightarrow> 'e + 'b) \<Rightarrow> 'e + 'b" where
  "res_bind r f = (case r of Inl e \<Rightarrow> Inl e | Inr x \<Rightarrow> f x)"

lemma res_bind_simps [simp]:
  "res_bind (Inl e) f = Inl e"
  "res_bind (Inr x) f = f x"
  by (simp_all add: res_bind_def)

lemma res_bind_eq_Inr [simp]:
  "res_bind r f = Inr y \<longleftrightarrow> (\<exists>x. r = Inr x \<and> f x = Inr y)"
  by (cases r) simp_all

lemma res_bind_eq_Inl:
  "res_bind r f = Inl e \<longleftrightarrow> r = Inl e \<or> (\<exists>x. r = Inr x \<and> f x = Inl e)"
  by (cases r) auto

section \<open>C integer types\<close>

text \<open>
  Values of C integer types are mathematical integers here; the conversion to a narrower
  type is written out where the program converts. \<open>int32\<close> is the range of \<^verbatim>\<open>int\<close>.
\<close>

definition int32 :: "int \<Rightarrow> bool" where
  "int32 x \<longleftrightarrow> - (2 ^ 31) \<le> x \<and> x < 2 ^ 31"

definition to_int32 :: "int \<Rightarrow> int" where
  "to_int32 x = sint (word_of_int x :: 32 word)"

definition to_u16 :: "int \<Rightarrow> int" where
  "to_u16 x = uint (word_of_int x :: 16 word)"

lemma to_int32_id [cint_simps]: "int32 x \<Longrightarrow> to_int32 x = x"
  by (simp add: int32_def to_int32_def signed_take_bit_int_eq_self sint_sbintrunc')

lemma to_u16_id [cint_simps]: "0 \<le> x \<Longrightarrow> x < 2 ^ 16 \<Longrightarrow> to_u16 x = x"
  by (simp add: to_u16_def uint_word_of_int)

lemma to_u16_bounds: "0 \<le> to_u16 x" "to_u16 x < 2 ^ 16"
  using uint_lt2p [of "word_of_int x :: 16 word"] by (simp_all add: to_u16_def)

lemma to_int32_range: "int32 (to_int32 x)"
proof -
  have "sint (word_of_int x :: 32 word) < 2 ^ (LENGTH(32) - 1)" by (rule sint_lt)
  moreover have "- (2 ^ (LENGTH(32) - 1)) \<le> sint (word_of_int x :: 32 word)" by (rule sint_ge)
  ultimately show ?thesis by (simp add: int32_def to_int32_def)
qed

text \<open>C++ integer division truncates towards zero.\<close>

definition c_quot :: "int \<Rightarrow> int \<Rightarrow> int" where
  "c_quot n d = (if (n < 0) = (d < 0) then \<bar>n\<bar> div \<bar>d\<bar> else - (\<bar>n\<bar> div \<bar>d\<bar>))"

lemma c_quot_pos: "0 < b \<Longrightarrow>
    c_quot a b = (if 0 \<le> a then a div b else - ((- a) div b))"
  by (auto simp: c_quot_def)

text \<open>The remainder is smaller than the divisor, on both sides of zero.\<close>

lemma c_quot_bounds:
  assumes "0 < b"
  shows "a - b < c_quot a b * b" and "c_quot a b * b < a + b"
proof -
  have eq: "x div b * b = x - x mod b" for x :: int
    by (simp add: minus_mod_eq_div_mult)
  have lo: "0 \<le> x mod b" and hi: "x mod b < b" for x :: int
    using assms by simp_all
  have pos: "c_quot a b * b = a - a mod b" if "0 \<le> a"
    using eq [of a] that assms by (simp add: c_quot_pos)
  have neg: "c_quot a b * b = a + (- a) mod b" if "\<not> 0 \<le> a"
    using eq [of "- a"] that assms by (simp add: c_quot_pos)
  show "a - b < c_quot a b * b"
    using pos neg hi [of a] lo [of "- a"] assms by linarith
  show "c_quot a b * b < a + b"
    using pos neg lo [of a] hi [of "- a"] assms by linarith
qed

section \<open>Iteration orders\<close>

text \<open>
  The program iterates over \<^verbatim>\<open>std::unordered_map\<close>s. The standard leaves the order open, so
  each loop takes the order as an argument, and the properties hold for every order that
  visits each key of the map exactly once.
\<close>

definition enumerates :: "'a list \<Rightarrow> 'a set \<Rightarrow> bool" where
  "enumerates xs A \<longleftrightarrow> distinct xs \<and> set xs = A"

lemma enumeratesD: "enumerates xs A \<Longrightarrow> distinct xs" "enumerates xs A \<Longrightarrow> set xs = A"
  by (simp_all add: enumerates_def)

lemma enumerates_finite: "enumerates xs A \<Longrightarrow> finite A"
  by (auto simp: enumerates_def)

lemma enumerates_exists: "finite A \<Longrightarrow> \<exists>xs. enumerates xs A"
  using finite_distinct_list by (auto simp: enumerates_def)

section \<open>Transition systems with an invariant\<close>

text \<open>
  The contract of every stateful component: a set of initial states, a step relation, and an
  invariant that holds initially and that every step keeps. The components prove the two laws
  for their own model; what follows for whole runs is proved once.
\<close>

locale invariant_system =
  fixes initial :: "'s \<Rightarrow> bool"
    and step :: "'s \<Rightarrow> 's \<Rightarrow> bool"
    and inv :: "'s \<Rightarrow> bool"
  assumes inv_initial: "initial s \<Longrightarrow> inv s"
    and inv_step: "inv s \<Longrightarrow> step s t \<Longrightarrow> inv t"
begin

lemma inv_run: "step\<^sup>*\<^sup>* s t \<Longrightarrow> inv s \<Longrightarrow> inv t"
  by (induction rule: rtranclp_induct) (auto intro: inv_step)

lemma inv_reachable: "initial s \<Longrightarrow> step\<^sup>*\<^sup>* s t \<Longrightarrow> inv t"
  by (blast intro: inv_run inv_initial)

end

section \<open>Lists\<close>

text \<open>The last element with a property, by its position.\<close>

lemma last_filter_nth:
  "filter P xs \<noteq> [] \<Longrightarrow>
     \<exists>i < length xs. last (filter P xs) = xs ! i \<and> P (xs ! i) \<and>
       (\<forall>j. i < j \<and> j < length xs \<longrightarrow> \<not> P (xs ! j))"
proof (induction xs rule: rev_induct)
  case Nil
  then show ?case by simp
next
  case (snoc x xs)
  show ?case
  proof (cases "P x")
    case True
    then show ?thesis by (intro exI [of _ "length xs"]) auto
  next
    case False
    with snoc obtain i where "i < length xs" "last (filter P xs) = xs ! i" "P (xs ! i)"
      "\<forall>j. i < j \<and> j < length xs \<longrightarrow> \<not> P (xs ! j)" by auto
    with False show ?thesis
      by (intro exI [of _ i]) (auto simp: nth_append less_Suc_eq)
  qed
qed

lemma last_filter_nthI:
  assumes "i < length xs" and "P (xs ! i)" and "\<forall>j. i < j \<and> j < length xs \<longrightarrow> \<not> P (xs ! j)"
  shows "filter P xs \<noteq> []" and "last (filter P xs) = xs ! i"
proof -
  have "filter P (drop (Suc i) xs) = []"
    using assms(3) by (auto simp: filter_empty_conv in_set_conv_nth)
  then have "filter P xs = filter P (take i xs) @ [xs ! i]"
    using assms(1,2) by (subst id_take_nth_drop [OF assms(1)]) simp
  then show "filter P xs \<noteq> []" "last (filter P xs) = xs ! i" by simp_all
qed

lemma distinct_map_filter_other:
  assumes "distinct (map f (filter P (p @ e # s)))" and "P e" and "P x" and "x \<in> set p \<union> set s"
  shows "f x \<noteq> f e"
proof
  assume "f x = f e"
  with assms(3,4) have "f e \<in> f ` set (filter P p) \<union> f ` set (filter P s)"
    by (auto intro: rev_image_eqI)
  with assms(1,2) show False by auto
qed

end
