(* ===== verification/Linux_Input.thy ===== *)
theory Linux_Input
  imports Prelude
begin

text \<open>
  The constants of the Linux input ABI (\<^verbatim>\<open>linux/input-event-codes.h\<close>) that the program
  mentions, and \<^verbatim>\<open>struct input_event\<close>. The kernel headers are not part of the repository;
  their numeric values are the documented, fixed ABI. The time stamp of an event is left
  out: the program neither reads it nor sets it.
\<close>

abbreviation (input) EV_SYN :: int where "EV_SYN \<equiv> 0"
abbreviation (input) EV_KEY :: int where "EV_KEY \<equiv> 1"
abbreviation (input) EV_ABS :: int where "EV_ABS \<equiv> 3"
abbreviation (input) EV_FF :: int where "EV_FF \<equiv> 21"

abbreviation (input) SYN_REPORT :: int where "SYN_REPORT \<equiv> 0"
abbreviation (input) SYN_DROPPED :: int where "SYN_DROPPED \<equiv> 3"

abbreviation (input) ABS_X :: int where "ABS_X \<equiv> 0"
abbreviation (input) ABS_Y :: int where "ABS_Y \<equiv> 1"
abbreviation (input) ABS_MT_SLOT :: int where "ABS_MT_SLOT \<equiv> 47"
abbreviation (input) ABS_MT_TOUCH_MAJOR :: int where "ABS_MT_TOUCH_MAJOR \<equiv> 48"
abbreviation (input) ABS_MT_TOUCH_MINOR :: int where "ABS_MT_TOUCH_MINOR \<equiv> 49"
abbreviation (input) ABS_MT_POSITION_X :: int where "ABS_MT_POSITION_X \<equiv> 53"
abbreviation (input) ABS_MT_POSITION_Y :: int where "ABS_MT_POSITION_Y \<equiv> 54"
abbreviation (input) ABS_MT_TRACKING_ID :: int where "ABS_MT_TRACKING_ID \<equiv> 57"
abbreviation (input) ABS_MT_PRESSURE :: int where "ABS_MT_PRESSURE \<equiv> 58"
abbreviation (input) ABS_CNT :: int where "ABS_CNT \<equiv> 64"
abbreviation (input) EV_CNT :: int where "EV_CNT \<equiv> 32"

abbreviation (input) KEY_SPACE :: int where "KEY_SPACE \<equiv> 57"
abbreviation (input) KEY_FN :: int where "KEY_FN \<equiv> 464"
abbreviation (input) KEY_MAX :: int where "KEY_MAX \<equiv> 767"

abbreviation (input) BTN_TOOL_FINGER :: int where "BTN_TOOL_FINGER \<equiv> 325"
abbreviation (input) BTN_TOUCH :: int where "BTN_TOUCH \<equiv> 330"
abbreviation (input) BTN_TOOL_DOUBLETAP :: int where "BTN_TOOL_DOUBLETAP \<equiv> 333"
abbreviation (input) BTN_TOOL_TRIPLETAP :: int where "BTN_TOOL_TRIPLETAP \<equiv> 334"
abbreviation (input) BTN_TOOL_QUADTAP :: int where "BTN_TOOL_QUADTAP \<equiv> 335"

abbreviation (input) FF_RUMBLE :: int where "FF_RUMBLE \<equiv> 80"
abbreviation (input) FF_GAIN :: int where "FF_GAIN \<equiv> 96"

abbreviation (input) BUS_VIRTUAL :: int where "BUS_VIRTUAL \<equiv> 6"

record input_event =
  ev_type :: int
  ev_code :: int
  ev_value :: int

text \<open>An event with the given fields, as the kernel delivers them.\<close>

definition input_ev :: "int \<Rightarrow> int \<Rightarrow> int \<Rightarrow> input_event" where
  "input_ev t c v = \<lparr>ev_type = t, ev_code = c, ev_value = v\<rparr>"

lemma input_ev_sel [simp]:
  "ev_type (input_ev t c v) = t"
  "ev_code (input_ev t c v) = c"
  "ev_value (input_ev t c v) = v"
  by (simp_all add: input_ev_def)

lemma input_ev_inject [simp]:
  "input_ev t c v = input_ev t' c' v' \<longleftrightarrow> t = t' \<and> c = c' \<and> v = v'"
  by (simp add: input_ev_def)

definition is_report :: "input_event \<Rightarrow> bool" where
  "is_report e \<longleftrightarrow> ev_type e = EV_SYN \<and> ev_code e = SYN_REPORT"

definition is_dropped :: "input_event \<Rightarrow> bool" where
  "is_dropped e \<longleftrightarrow> ev_type e = EV_SYN \<and> ev_code e = SYN_DROPPED"

end
