(* ===== verification/Multitouch.thy ===== *)
theory Multitouch
  imports Linux_Input
begin

text \<open>
  \<^verbatim>\<open>src/multitouch\<close>: \<open>EventKey\<close>, \<open>Slot\<close> and \<open>MtStateMachine\<close>. A slot is a map from event
  keys to values; the machine holds ten of them, the index of the slot that incoming events
  go to (\<open>-1\<close> after an index out of range), and whether it is discarding events after a
  buffer overrun of the kernel.
\<close>

section \<open>Event keys\<close>

datatype event_key = EventKey (key_type: int) (key_code: int)

definition event_key_of :: "input_event \<Rightarrow> event_key" where
  "event_key_of ev = EventKey (ev_type ev) (ev_code ev)"

definition IsSyn :: "event_key \<Rightarrow> bool" where
  "IsSyn k \<longleftrightarrow> key_type k = EV_SYN \<and> key_code k = SYN_REPORT"

definition IsSlot :: "event_key \<Rightarrow> bool" where
  "IsSlot k \<longleftrightarrow> key_type k = EV_ABS \<and> key_code k = ABS_MT_SLOT"

definition IsTrackingID :: "event_key \<Rightarrow> bool" where
  "IsTrackingID k \<longleftrightarrow> key_type k = EV_ABS \<and> key_code k = ABS_MT_TRACKING_ID"

definition IsX :: "event_key \<Rightarrow> bool" where
  "IsX k \<longleftrightarrow> key_type k = EV_ABS \<and> key_code k = ABS_MT_POSITION_X"

definition IsY :: "event_key \<Rightarrow> bool" where
  "IsY k \<longleftrightarrow> key_type k = EV_ABS \<and> key_code k = ABS_MT_POSITION_Y"

definition IsSupportedForTouchpads :: "event_key \<Rightarrow> bool" where
  "IsSupportedForTouchpads k \<longleftrightarrow>
     (if key_type k \<noteq> EV_ABS then False
      else key_code k = ABS_MT_TRACKING_ID \<or>
           key_code k = ABS_MT_PRESSURE \<or>
           key_code k = ABS_MT_POSITION_X \<or>
           key_code k = ABS_MT_POSITION_Y \<or>
           key_code k = ABS_MT_TOUCH_MAJOR \<or>
           key_code k = ABS_MT_TOUCH_MINOR)"

lemmas event_key_class_defs = IsSyn_def IsSlot_def IsTrackingID_def IsX_def IsY_def

text \<open>
  Slots are hash tables over event keys. The hash of an \<^verbatim>\<open>int\<close> is the standard library's, here the
  argument \<open>hash\<close>; \<^verbatim>\<open>>>\<close> binds tighter than \<^verbatim>\<open>^\<close>, so that the code is shifted left and right again and
  only loses its highest bit.
\<close>

definition EventKey_equal :: "event_key \<Rightarrow> event_key \<Rightarrow> bool" where
  "EventKey_equal a b \<longleftrightarrow> key_type a = key_type b \<and> key_code a = key_code b"

definition EventKeyHasher :: "(int \<Rightarrow> 64 word) \<Rightarrow> event_key \<Rightarrow> 64 word" where
  "EventKeyHasher hash k = xor (hash (key_type k)) (drop_bit 1 (push_bit 1 (hash (key_code k))))"

text \<open>
  What makes a slot a map on \<open>event_key\<close>: the equality of the table is that of the type. And with
  a standard library that hashes an \<^verbatim>\<open>int\<close> to itself the keys of one event type do not collide.
\<close>

lemma EventKey_equal_eq: "EventKey_equal a b \<longleftrightarrow> a = b"
  by (cases a; cases b) (simp add: EventKey_equal_def)

lemma shift_there_and_back: "\<not> bit w 63 \<Longrightarrow> drop_bit 1 (push_bit 1 w) = (w :: 64 word)"
proof (rule bit_word_eqI)
  fix n assume "\<not> bit w 63" "n < LENGTH(64)"
  then show "bit (drop_bit 1 (push_bit 1 w)) n = bit w n"
    unfolding bit_drop_bit_eq o_def bit_push_bit_iff by (cases "n = 63") auto
qed

lemma xor_cancel: "xor a b = xor a c \<longleftrightarrow> b = (c :: 64 word)"
proof
  assume "xor a b = xor a c"
  then have "xor a (xor a b) = xor a (xor a c)" by (rule arg_cong)
  then show "b = c" by (simp add: xor.assoc [symmetric])
qed simp

lemma hash_separates_codes:
  assumes "hash = word_of_int" and "0 \<le> c" "c < 2 ^ 63" and "0 \<le> d" "d < 2 ^ 63"
    and "EventKeyHasher hash (EventKey t c) = EventKeyHasher hash (EventKey t d)"
  shows "c = d"
proof -
  have high: "\<not> bit (word_of_int i :: 64 word) 63" if "0 \<le> i" "i < 2 ^ 63" for i :: int
    using that unfolding bit_word_of_int_iff by (simp add: bit_iff_odd)
  have "(word_of_int c :: 64 word) = word_of_int d"
    using assms(6) unfolding EventKeyHasher_def assms(1) event_key.sel xor_cancel
      shift_there_and_back [OF high [OF assms(2,3)]] shift_there_and_back [OF high [OF assms(4,5)]] .
  then have "take_bit 64 c = take_bit 64 d" by (simp add: word_of_int_eq_iff)
  with assms(2-5) show ?thesis by (simp add: take_bit_int_eq_self)
qed

section \<open>Slots\<close>

type_synonym slot = "event_key \<rightharpoonup> int"

definition kSlotMissingValue :: int where
  "kSlotMissingValue = -1"

definition FindValueByEvent :: "slot \<Rightarrow> int \<Rightarrow> int \<Rightarrow> int" where
  "FindValueByEvent s t c =
     (case s (EventKey t c) of Some v \<Rightarrow> v | None \<Rightarrow> kSlotMissingValue)"

section \<open>The state machine\<close>

definition kNumSlots :: nat where
  "kNumSlots = 10"

record mt_finger =
  finger_x :: int
  finger_y :: int
  finger_p :: int
  finger_touch_major :: int

type_synonym snapshot = "int \<rightharpoonup> mt_finger"

record mt_state =
  current_slot :: int
  dropping_events :: bool
  slots :: "slot list"

definition mt_initial :: mt_state where
  "mt_initial = \<lparr>current_slot = 0, dropping_events = False,
                 slots = replicate kNumSlots Map.empty\<rparr>"

definition Reset :: "mt_state \<Rightarrow> mt_state" where
  "Reset sm = sm\<lparr>slots := map (\<lambda>_. Map.empty) (slots sm), current_slot := 0,
                 dropping_events := False\<rparr>"

definition slot_finger :: "slot \<Rightarrow> mt_finger" where
  "slot_finger s = \<lparr>finger_x = FindValueByEvent s EV_ABS ABS_MT_POSITION_X,
                    finger_y = FindValueByEvent s EV_ABS ABS_MT_POSITION_Y,
                    finger_p = FindValueByEvent s EV_ABS ABS_MT_PRESSURE,
                    finger_touch_major = FindValueByEvent s EV_ABS ABS_MT_TOUCH_MAJOR\<rparr>"

fun fill_from_slots :: "slot list \<Rightarrow> snapshot \<Rightarrow> snapshot" where
  "fill_from_slots [] out = out"
| "fill_from_slots (s # ss) out =
     (let tid = FindValueByEvent s EV_ABS ABS_MT_TRACKING_ID
      in if tid = -1 then fill_from_slots ss out
         else fill_from_slots ss (out(tid \<mapsto> slot_finger s)))"

definition FillSnapshot :: "mt_state \<Rightarrow> snapshot" where
  "FillSnapshot sm = fill_from_slots (slots sm) Map.empty"

text \<open>
  \<open>out\<close> is the snapshot the caller passes by pointer, \<open>None\<close> for a null pointer; the result is
  the returned truth value, the snapshot as left behind, and the new state.
\<close>

definition AddEvent ::
  "input_event \<Rightarrow> snapshot option \<Rightarrow> mt_state \<Rightarrow> bool \<times> snapshot option \<times> mt_state" where
  "AddEvent ev out sm =
     (if ev_type ev = EV_SYN \<and> ev_code ev = SYN_DROPPED
      then (False, out, (Reset sm)\<lparr>dropping_events := True\<rparr>)
      else if dropping_events sm
      then (False, out,
            if ev_type ev = EV_SYN \<and> ev_code ev = SYN_REPORT
            then sm\<lparr>dropping_events := False\<rparr> else sm)
      else let key = event_key_of ev in
        if IsSlot key
        then (False, out,
              sm\<lparr>current_slot :=
                   (if 0 \<le> ev_value ev \<and> ev_value ev < int kNumSlots then ev_value ev else -1)\<rparr>)
        else if IsSyn key
        then (True, map_option (\<lambda>_. FillSnapshot sm) out, sm)
        else if ev_type ev = EV_ABS \<and> 0 \<le> current_slot sm
        then (False, out,
              sm\<lparr>slots := (slots sm)[nat (current_slot sm) :=
                            (slots sm ! nat (current_slot sm))(key \<mapsto> ev_value ev)]\<rparr>)
        else (False, out, sm))"

text \<open>The accessor \<open>slot(index)\<close> throws on an index out of range.\<close>

definition slot_at :: "mt_state \<Rightarrow> nat \<Rightarrow> exn + slot" where
  "slot_at sm i =
     (if length (slots sm) \<le> i
      then Inl (OutOfRange ''multitouch slot index is out of range'')
      else Inr (slots sm ! i))"

section \<open>Runs\<close>

definition mt_step :: "input_event \<Rightarrow> mt_state \<Rightarrow> mt_state" where
  "mt_step ev sm = snd (snd (AddEvent ev None sm))"

definition mt_run :: "input_event list \<Rightarrow> mt_state \<Rightarrow> mt_state" where
  "mt_run evs sm = fold mt_step evs sm"

lemma mt_run_simps [simp]:
  "mt_run [] sm = sm"
  "mt_run (e # es) sm = mt_run es (mt_step e sm)"
  "mt_run (es @ es') sm = mt_run es' (mt_run es sm)"
  by (simp_all add: mt_run_def)

text \<open>The state does not depend on whether the caller wants a snapshot.\<close>

lemma AddEvent_state [simp]: "snd (snd (AddEvent ev out sm)) = mt_step ev sm"
  by (simp add: mt_step_def AddEvent_def Let_def)

lemma mt_step_dropped: "is_dropped e \<Longrightarrow> mt_step e sm = (Reset sm)\<lparr>dropping_events := True\<rparr>"
  by (simp add: mt_step_def AddEvent_def is_dropped_def)

lemma mt_step_dropping:
  "dropping_events sm \<Longrightarrow> \<not> is_dropped e \<Longrightarrow>
     mt_step e sm = (if is_report e then sm\<lparr>dropping_events := False\<rparr> else sm)"
  by (auto simp: mt_step_def AddEvent_def is_dropped_def is_report_def)

text \<open>The index a slot event selects: \<open>-1\<close>, that is no slot, when it is out of range.\<close>

definition chosen_slot :: "int \<Rightarrow> int" where
  "chosen_slot v = (if 0 \<le> v \<and> v < int kNumSlots then v else -1)"

lemma chosen_slot_range: "-1 \<le> chosen_slot v" "chosen_slot v < int kNumSlots"
  by (simp_all add: chosen_slot_def kNumSlots_def)

lemma mt_step_synced:
  assumes "\<not> dropping_events sm" and "\<not> is_dropped e"
  shows "mt_step e sm =
    (if IsSlot (event_key_of e) then sm\<lparr>current_slot := chosen_slot (ev_value e)\<rparr>
     else if ev_type e = EV_ABS \<and> 0 \<le> current_slot sm
     then sm\<lparr>slots := (slots sm)[nat (current_slot sm) :=
                 (slots sm ! nat (current_slot sm))(event_key_of e \<mapsto> ev_value e)]\<rparr>
     else sm)"
  using assms
  by (auto simp: mt_step_def AddEvent_def is_dropped_def Let_def chosen_slot_def
      event_key_class_defs event_key_of_def)

lemmas mt_step_cases = mt_step_dropped mt_step_dropping mt_step_synced

lemma Reset_sel [simp]:
  "current_slot (Reset sm) = 0"
  "dropping_events (Reset sm) = False"
  "slots (Reset sm) = replicate (length (slots sm)) Map.empty"
  by (simp_all add: Reset_def map_replicate_const)

section \<open>Well-formed states\<close>

text \<open>
  Ten slots, a current slot that is an index of one of them or \<open>-1\<close>, and only values of
  absolute axes, never of the slot selector itself, in the slots.
\<close>

definition slot_ok :: "slot \<Rightarrow> bool" where
  "slot_ok s \<longleftrightarrow> (\<forall>k \<in> dom s. key_type k = EV_ABS \<and> \<not> IsSlot k) \<and> finite (dom s)"

definition wf_mt :: "mt_state \<Rightarrow> bool" where
  "wf_mt sm \<longleftrightarrow> length (slots sm) = kNumSlots \<and>
     -1 \<le> current_slot sm \<and> current_slot sm < int kNumSlots \<and>
     (\<forall>s \<in> set (slots sm). slot_ok s)"

lemma slot_ok_empty [simp]: "slot_ok Map.empty"
  by (simp add: slot_ok_def)

lemma slot_ok_update:
  "slot_ok s \<Longrightarrow> key_type k = EV_ABS \<Longrightarrow> \<not> IsSlot k \<Longrightarrow> slot_ok (s(k \<mapsto> v))"
  by (auto simp: slot_ok_def)

lemma wf_mt_initial [simp]: "wf_mt mt_initial"
  by (simp add: wf_mt_def mt_initial_def kNumSlots_def)

lemma wf_mt_Reset: "wf_mt sm \<Longrightarrow> wf_mt (Reset sm)"
  by (auto simp: wf_mt_def kNumSlots_def)

lemma wf_mt_step: 
  assumes "wf_mt sm" shows "wf_mt (mt_step e sm)"
proof -
  have upd: "wf_mt (sm\<lparr>slots := (slots sm)[nat (current_slot sm) :=
      (slots sm ! nat (current_slot sm))(event_key_of e \<mapsto> ev_value e)]\<rparr>)"
    if "ev_type e = EV_ABS" "0 \<le> current_slot sm" "\<not> IsSlot (event_key_of e)"
    using assms that
    by (auto simp: wf_mt_def event_key_of_def intro!: slot_ok_update
        dest!: set_update_subset_insert [THEN subsetD])
  consider (dropped) "is_dropped e" | (dropping) "\<not> is_dropped e" "dropping_events sm"
    | (synced) "\<not> is_dropped e" "\<not> dropping_events sm" by blast
  then show ?thesis
  proof cases
    case dropped
    with wf_mt_Reset [OF assms] show ?thesis by (simp add: mt_step_dropped wf_mt_def)
  next
    case dropping
    with assms show ?thesis by (simp add: mt_step_dropping wf_mt_def)
  next
    case synced
    with assms chosen_slot_range [of "ev_value e"] upd show ?thesis
      by (simp add: mt_step_synced) (simp add: wf_mt_def)
  qed
qed

text \<open>The machine as a transition system: any event may come next.\<close>

interpretation mt_sys: invariant_system
  "\<lambda>sm. sm = mt_initial" "\<lambda>sm sm'. \<exists>e. sm' = mt_step e sm" wf_mt
  by unfold_locales (auto intro: wf_mt_step)

lemma mt_run_steps: "(\<lambda>sm sm'. \<exists>e. sm' = mt_step e sm)\<^sup>*\<^sup>* sm (mt_run es sm)"
  by (induction es arbitrary: sm)
    (auto intro: converse_rtranclp_into_rtranclp)

lemma wf_mt_run: "wf_mt sm \<Longrightarrow> wf_mt (mt_run es sm)"
  by (rule mt_sys.inv_run [OF mt_run_steps])

end
