(* ===== verification/Multitouch_Spec.thy ===== *)
theory Multitouch_Spec
  imports Multitouch
begin

text \<open>
  What the multitouch state machine promises, stated over the history of events it has been
  fed rather than over its fields, and the contents of the snapshots it hands out.
\<close>

section \<open>The protocol, over event histories\<close>

text \<open>
  A history is a list of events, oldest first. After a kernel buffer overrun
  (\<^verbatim>\<open>SYN_DROPPED\<close>) everything up to and including the next report is void; the events that
  still count are the visible ones.
\<close>

definition has_drop :: "input_event list \<Rightarrow> bool" where
  "has_drop h \<longleftrightarrow> (\<exists>e \<in> set h. is_dropped e)"

definition after_last_drop :: "input_event list \<Rightarrow> input_event list" where
  "after_last_drop h = rev (takeWhile (\<lambda>e. \<not> is_dropped e) (rev h))"

definition in_sync :: "input_event list \<Rightarrow> bool" where
  "in_sync h \<longleftrightarrow> \<not> has_drop h \<or> (\<exists>e \<in> set (after_last_drop h). is_report e)"

definition visible :: "input_event list \<Rightarrow> input_event list" where
  "visible h = (if has_drop h then tl (dropWhile (\<lambda>e. \<not> is_report e) (after_last_drop h)) else h)"

text \<open>The slot selected after the visible events \<open>v\<close>: the last slot event decides.\<close>

definition selected :: "input_event list \<Rightarrow> int" where
  "selected v =
     (let ss = filter (\<lambda>e. IsSlot (event_key_of e)) v
      in if ss = [] then 0 else chosen_slot (ev_value (last ss)))"

text \<open>The positions in \<open>v\<close> of the events that report key \<open>k\<close> for slot \<open>i\<close>.\<close>

definition reports_at :: "input_event list \<Rightarrow> nat \<Rightarrow> event_key \<Rightarrow> nat list" where
  "reports_at v i k =
     filter (\<lambda>j. event_key_of (v ! j) = k \<and> key_type k = EV_ABS \<and> \<not> IsSlot k \<and>
                 selected (take j v) = int i) [0..<length v]"

definition reported :: "input_event list \<Rightarrow> nat \<Rightarrow> event_key \<Rightarrow> int option" where
  "reported v i k =
     (if reports_at v i k = [] then None else Some (ev_value (v ! last (reports_at v i k))))"

lemma has_drop_snoc [simp]: "has_drop (h @ [e]) \<longleftrightarrow> has_drop h \<or> is_dropped e"
  by (auto simp: has_drop_def)

lemma has_drop_Nil [simp]: "\<not> has_drop []"
  by (simp add: has_drop_def)

lemma after_last_drop_snoc [simp]:
  "after_last_drop (h @ [e]) = (if is_dropped e then [] else after_last_drop h @ [e])"
  by (simp add: after_last_drop_def)

lemma in_sync_snoc:
  "in_sync (h @ [e]) \<longleftrightarrow> \<not> is_dropped e \<and> (in_sync h \<or> is_report e)"
  by (auto simp: in_sync_def)

lemma tl_dropWhile_snoc:
  "tl (dropWhile P (xs @ [x])) =
     (if \<exists>y \<in> set xs. \<not> P y then tl (dropWhile P xs) @ [x] else [])"
  by (induction xs) auto

lemma visible_snoc:
  "visible (h @ [e]) = (if in_sync h \<and> \<not> is_dropped e then visible h @ [e] else [])"
  by (auto simp: visible_def in_sync_def tl_dropWhile_snoc)

lemma selected_snoc:
  "selected (v @ [e]) = (if IsSlot (event_key_of e) then chosen_slot (ev_value e) else selected v)"
  by (simp add: selected_def)

lemma reports_at_snoc:
  "reports_at (v @ [e]) i k =
     reports_at v i k @
     (if event_key_of e = k \<and> key_type k = EV_ABS \<and> \<not> IsSlot k \<and> selected v = int i
      then [length v] else [])"
proof -
  have "filter (\<lambda>j. event_key_of ((v @ [e]) ! j) = k \<and> key_type k = EV_ABS \<and> \<not> IsSlot k \<and>
          selected (take j (v @ [e])) = int i) [0..<length v] = reports_at v i k"
    unfolding reports_at_def by (rule filter_cong) (auto simp: nth_append)
  then show ?thesis by (simp add: reports_at_def)
qed

lemma reports_at_bound: "j \<in> set (reports_at v i k) \<Longrightarrow> j < length v"
  by (simp add: reports_at_def)

lemma reported_snoc:
  "reported (v @ [e]) i k =
     (if event_key_of e = k \<and> key_type k = EV_ABS \<and> \<not> IsSlot k \<and> selected v = int i
      then Some (ev_value e) else reported v i k)"
proof -
  have "last (reports_at v i k) < length v" if "reports_at v i k \<noteq> []"
    using that by (rule reports_at_bound [OF last_in_set])
  then show ?thesis by (simp add: reported_def reports_at_snoc nth_append)
qed

lemma reported_Nil [simp]: "reported [] i k = None"
  by (simp add: reported_def reports_at_def)

section \<open>The machine implements the protocol\<close>

text \<open>The state the protocol prescribes after a history.\<close>

definition mt_matches :: "input_event list \<Rightarrow> mt_state \<Rightarrow> bool" where
  "mt_matches h sm \<longleftrightarrow>
     (dropping_events sm \<longleftrightarrow> \<not> in_sync h) \<and>
     current_slot sm = selected (visible h) \<and>
     (\<forall>i < kNumSlots. slots sm ! i = reported (visible h) i)"

lemma selected_range: "-1 \<le> selected v" "selected v < int kNumSlots"
  using chosen_slot_range by (auto simp: selected_def Let_def kNumSlots_def)

lemma mt_matches_step:
  assumes "wf_mt sm" and m: "mt_matches h sm"
  shows "mt_matches (h @ [e]) (mt_step e sm)"
proof -
  from assms(1) have len: "length (slots sm) = kNumSlots" by (simp add: wf_mt_def)
  consider (dropped) "is_dropped e" | (dropping) "\<not> is_dropped e" "dropping_events sm"
    | (synced) "\<not> is_dropped e" "\<not> dropping_events sm" by blast
  then show ?thesis
  proof cases
    case dropped
    then show ?thesis using len
      by (auto simp: mt_matches_def mt_step_dropped in_sync_snoc visible_snoc selected_def)
  next
    case dropping
    with m have ns: "\<not> in_sync h" by (simp add: mt_matches_def)
    then have "visible h = []"
      by (simp add: in_sync_def visible_def dropWhile_eq_Nil_conv [THEN iffD2])
    with dropping m ns show ?thesis
      by (auto simp: mt_matches_def mt_step_dropping in_sync_snoc visible_snoc)
  next
    case synced
    with m have s: "in_sync h" and cur: "current_slot sm = selected (visible h)"
      by (auto simp: mt_matches_def)
    have "nat (current_slot sm) = i \<longleftrightarrow> selected (visible h) = int i"
      if "0 \<le> current_slot sm" for i using that cur by auto
    with synced m s len cur selected_range [of "visible h"] show ?thesis
      by (auto simp: mt_matches_def mt_step_synced in_sync_snoc visible_snoc selected_snoc
          reported_snoc fun_eq_iff nth_list_update event_key_of_def)
  qed
qed

lemma mt_matches_initial: "mt_matches [] mt_initial"
  by (auto simp: mt_matches_def mt_initial_def in_sync_def visible_def selected_def kNumSlots_def)

lemma mt_matches_run: "mt_matches h (mt_run h mt_initial)"
proof (induction h rule: rev_induct)
  case Nil
  show ?case by (simp add: mt_matches_initial)
next
  case (snoc e h)
  then show ?case by (simp add: mt_matches_step wf_mt_run)
qed

section \<open>Snapshots\<close>

definition slot_tid :: "slot \<Rightarrow> int" where
  "slot_tid s = FindValueByEvent s EV_ABS ABS_MT_TRACKING_ID"

lemma fill_from_slots_Cons:
  "fill_from_slots (s # ss) out =
     fill_from_slots ss (if slot_tid s = -1 then out else out(slot_tid s \<mapsto> slot_finger s))"
  by (simp add: slot_tid_def Let_def)

text \<open>A later slot with the same tracking id wins; a slot with tracking id \<open>-1\<close> is skipped.\<close>

lemma fill_from_slots_lookup:
  "fill_from_slots ss out tid =
     (let ms = filter (\<lambda>s. slot_tid s = tid) ss
      in if tid = -1 \<or> ms = [] then out tid else Some (slot_finger (last ms)))"
proof (induction ss arbitrary: out)
  case Nil
  then show ?case by simp
next
  case (Cons s ss)
  then show ?case
    by (simp add: fill_from_slots_Cons Let_def del: fill_from_slots.simps)
qed

lemma FillSnapshot_lookup:
  "FillSnapshot sm tid =
     (let ms = filter (\<lambda>s. slot_tid s = tid) (slots sm)
      in if tid = -1 \<or> ms = [] then None else Some (slot_finger (last ms)))"
  by (simp add: FillSnapshot_def fill_from_slots_lookup Let_def)

lemma dom_FillSnapshot: "dom (FillSnapshot sm) = slot_tid ` set (slots sm) - {-1}"
  by (auto simp: dom_def FillSnapshot_lookup Let_def filter_empty_conv)

lemma finite_dom_FillSnapshot [simp]: "finite (dom (FillSnapshot sm))"
  by (simp add: dom_FillSnapshot)

lemma card_dom_FillSnapshot: "wf_mt sm \<Longrightarrow> card (dom (FillSnapshot sm)) \<le> kNumSlots"
proof -
  assume "wf_mt sm"
  have "card (dom (FillSnapshot sm)) \<le> card (slot_tid ` set (slots sm))"
    by (auto simp: dom_FillSnapshot intro: card_mono)
  also have "\<dots> \<le> length (slots sm)"
    using card_image_le [of "set (slots sm)" slot_tid] card_length [of "slots sm"] by simp
  finally show ?thesis using \<open>wf_mt sm\<close> by (simp add: wf_mt_def)
qed

lemma AddEvent_result:
  "AddEvent ev out sm =
     (let frame = is_report ev \<and> \<not> dropping_events sm
      in (frame, if frame then map_option (\<lambda>_. FillSnapshot sm) out else out, mt_step ev sm))"
  by (auto simp: AddEvent_def mt_step_def is_report_def Let_def event_key_class_defs
      event_key_of_def)

section \<open>Frames\<close>

text \<open>The snapshots a caller receives while it feeds a list of events to the machine.\<close>

fun mt_frames :: "input_event list \<Rightarrow> mt_state \<Rightarrow> snapshot list" where
  "mt_frames [] sm = []"
| "mt_frames (e # es) sm =
     (case AddEvent e (Some Map.empty) sm of
        (True, Some snap, sm') \<Rightarrow> snap # mt_frames es sm'
      | (_, _, sm') \<Rightarrow> mt_frames es sm')"

lemma mt_frames_Cons:
  "mt_frames (e # es) sm =
     (if is_report e \<and> \<not> dropping_events sm then [FillSnapshot sm] else [])
     @ mt_frames es (mt_step e sm)"
  by (simp add: AddEvent_result Let_def split: bool.split)

declare mt_frames.simps(2) [simp del]

lemma mt_frames_append:
  "mt_frames (es @ es') sm = mt_frames es sm @ mt_frames es' (mt_run es sm)"
  by (induction es arbitrary: sm) (simp_all add: mt_frames_Cons)

lemma dropping_run:
  assumes "dropping_events sm" and "slots sm = replicate n Map.empty" and "current_slot sm = 0"
    and "\<forall>e \<in> set es. \<not> is_report e"
  shows "mt_frames es sm = [] \<and> mt_run es sm = sm"
  using assms
proof (induction es)
  case Nil
  then show ?case by simp
next
  case (Cons e es)
  then have "mt_step e sm = sm"
    by (cases "is_dropped e") (auto simp: mt_step_dropped mt_step_dropping Reset_def
        map_replicate_const)
  with Cons show ?case by (simp add: mt_frames_Cons)
qed

section \<open>Properties\<close>

text \<open>
  The snapshot the protocol prescribes after the visible events \<open>v\<close>: the fingers are those of the
  slots that carry a tracking id other than \<open>-1\<close>, each with the coordinates, pressure and
  diameter reported last for its slot, \<open>-1\<close> for what was never reported; where two slots carry
  the same id the later slot counts.
\<close>

definition protocol_value :: "input_event list \<Rightarrow> nat \<Rightarrow> int \<Rightarrow> int" where
  "protocol_value v i code =
     (case reported v i (EventKey EV_ABS code) of Some x \<Rightarrow> x | None \<Rightarrow> -1)"

definition protocol_snapshot :: "input_event list \<Rightarrow> snapshot" where
  "protocol_snapshot v tid =
     (let slots = filter (\<lambda>i. protocol_value v i ABS_MT_TRACKING_ID = tid) [0..<10]
      in if tid = -1 \<or> slots = [] then None
         else Some \<lparr>finger_x = protocol_value v (last slots) ABS_MT_POSITION_X,
                    finger_y = protocol_value v (last slots) ABS_MT_POSITION_Y,
                    finger_p = protocol_value v (last slots) ABS_MT_PRESSURE,
                    finger_touch_major = protocol_value v (last slots) ABS_MT_TOUCH_MAJOR\<rparr>)"

lemma FindValueByEvent_reported:
  "FindValueByEvent (reported v i) EV_ABS code = protocol_value v i code"
  by (simp add: FindValueByEvent_def protocol_value_def kSlotMissingValue_def split: option.split)

lemma FillSnapshot_protocol:
  assumes "slots sm = map (reported v) [0..<kNumSlots]"
  shows "FillSnapshot sm = protocol_snapshot v"
proof
  fix tid
  have "filter (\<lambda>s. slot_tid s = tid) (slots sm) =
      map (reported v) (filter (\<lambda>i. protocol_value v i ABS_MT_TRACKING_ID = tid) [0..<10])"
    by (simp add: assms kNumSlots_def filter_map o_def slot_tid_def FindValueByEvent_reported)
  then show "FillSnapshot sm tid = protocol_snapshot v tid"
    by (simp add: FillSnapshot_lookup protocol_snapshot_def Let_def last_map slot_finger_def
        FindValueByEvent_reported)
qed

lemma slots_reported:
  "slots (mt_run h mt_initial) = map (reported (visible h)) [0..<kNumSlots]"
proof -
  have "length (slots (mt_run h mt_initial)) = kNumSlots"
    using wf_mt_run [OF wf_mt_initial, of h] by (simp add: wf_mt_def)
  with mt_matches_run [of h] show ?thesis by (auto simp: mt_matches_def list_eq_iff_nth_eq)
qed

text \<open>
  C17: after any history of events, the machine's fields are the ones the multitouch protocol
  prescribes: it discards events exactly from a kernel buffer overrun to the next report, its
  current slot is the one selected last (none, if that index is out of range), and the value
  of every key in every slot is the last one reported while that slot was selected and
  events were not being discarded. Whatever event comes next, \<open>AddEvent\<close> returns true exactly
  for a report that is not discarded, and hands out the protocol's snapshot with it, and
  nothing otherwise.
\<close>

theorem state_machine_implements_protocol:
  "let sm = mt_run h mt_initial in
     (dropping_events sm \<longleftrightarrow> \<not> in_sync h) \<and>
     current_slot sm = selected (visible h) \<and>
     slots sm = map (reported (visible h)) [0..<kNumSlots] \<and>
     (\<forall>ev out. AddEvent ev out sm =
        (is_report ev \<and> in_sync h,
         if is_report ev \<and> in_sync h then map_option (\<lambda>_. protocol_snapshot (visible h)) out else out,
         mt_run (h @ [ev]) mt_initial))"
  using mt_matches_run [of h] slots_reported [of h] FillSnapshot_protocol [OF slots_reported, of h]
  by (auto simp: mt_matches_def AddEvent_result Let_def)

text \<open>
  After a buffer overrun, whatever arrives up to and including the next report is void: no
  frame reaches the caller, and afterwards the machine is the reset one, with empty slots and
  slot 0 selected, whatever it held before.
\<close>

theorem overrun_resynchronises:
  assumes "is_dropped d" and "is_report r" and "\<forall>e \<in> set es. \<not> is_report e"
  shows "mt_frames (d # es @ [r]) sm = [] \<and> mt_run (d # es @ [r]) sm = Reset sm"
proof -
  let ?d = "(Reset sm)\<lparr>dropping_events := True\<rparr>"
  have d: "mt_step d sm = ?d" "\<not> is_report d" "\<not> is_dropped r"
    using assms(1,2) by (auto simp: mt_step_dropped is_dropped_def is_report_def)
  have "mt_frames es ?d = [] \<and> mt_run es ?d = ?d"
    using assms(3) by (intro dropping_run) simp_all
  moreover have "mt_step r ?d = Reset sm"
    using assms(2) d(3) by (simp add: mt_step_dropping Reset_def)
  ultimately show ?thesis
    using d by (simp add: mt_frames_Cons mt_frames_append)
qed

theorem overrun_resynchronises_witness:
  "mt_frames [input_ev EV_SYN SYN_DROPPED 0, input_ev EV_ABS ABS_MT_TRACKING_ID 77,
              input_ev EV_SYN SYN_REPORT 0] (mt_run [input_ev EV_ABS ABS_MT_POSITION_X 5] mt_initial)
     = []"
proof -
  have "mt_frames (input_ev EV_SYN SYN_DROPPED 0 # [input_ev EV_ABS ABS_MT_TRACKING_ID 77]
            @ [input_ev EV_SYN SYN_REPORT 0]) sm = []" for sm
    using overrun_resynchronises [of "input_ev EV_SYN SYN_DROPPED 0" "input_ev EV_SYN SYN_REPORT 0"
        "[input_ev EV_ABS ABS_MT_TRACKING_ID 77]" sm]
    by (simp add: is_dropped_def is_report_def)
  then show ?thesis by simp
qed

text \<open>
  A snapshot holds a finger for a tracking id exactly if that id is not \<open>-1\<close> and some slot
  carries it; the finger's coordinates, pressure and diameter are those of the last such slot,
  with \<open>-1\<close> for what the slot has not reported. A well-formed machine never hands out more
  than ten fingers.
\<close>

theorem snapshot_contents:
  assumes "wf_mt sm"
  shows "card (dom (FillSnapshot sm)) \<le> kNumSlots \<and>
    (FillSnapshot sm tid = Some f \<longleftrightarrow>
      tid \<noteq> -1 \<and>
      (\<exists>i < kNumSlots. slot_tid (slots sm ! i) = tid \<and> f = slot_finger (slots sm ! i) \<and>
         (\<forall>j. i < j \<and> j < kNumSlots \<longrightarrow> slot_tid (slots sm ! j) \<noteq> tid)))"
proof -
  have len: "length (slots sm) = kNumSlots" using assms by (simp add: wf_mt_def)
  let ?P = "\<lambda>s. slot_tid s = tid"
  have "FillSnapshot sm tid = Some f \<longleftrightarrow>
      tid \<noteq> -1 \<and> filter ?P (slots sm) \<noteq> [] \<and> f = slot_finger (last (filter ?P (slots sm)))"
    by (auto simp: FillSnapshot_lookup Let_def)
  moreover have "filter ?P (slots sm) \<noteq> [] \<and> f = slot_finger (last (filter ?P (slots sm))) \<longleftrightarrow>
      (\<exists>i < kNumSlots. ?P (slots sm ! i) \<and> f = slot_finger (slots sm ! i) \<and>
         (\<forall>j. i < j \<and> j < kNumSlots \<longrightarrow> \<not> ?P (slots sm ! j)))" (is "?L \<longleftrightarrow> ?R")
  proof
    assume ?L
    with last_filter_nth [of ?P "slots sm"] show ?R by (auto simp: len)
  next
    assume ?R
    then obtain i where "i < kNumSlots" "?P (slots sm ! i)" "f = slot_finger (slots sm ! i)"
      "\<forall>j. i < j \<and> j < kNumSlots \<longrightarrow> \<not> ?P (slots sm ! j)" by blast
    with last_filter_nthI [of i "slots sm" ?P] show ?L by (simp add: len)
  qed
  ultimately show ?thesis using card_dom_FillSnapshot [OF assms] by simp
qed

theorem snapshot_contents_witness:
  "FillSnapshot (mt_run [input_ev EV_ABS ABS_MT_SLOT 2, input_ev EV_ABS ABS_MT_TRACKING_ID 42,
                         input_ev EV_ABS ABS_MT_POSITION_X 120] mt_initial) 42
     = Some \<lparr>finger_x = 120, finger_y = -1, finger_p = -1, finger_touch_major = -1\<rparr>"
proof -
  define sm where "sm = mt_run [input_ev EV_ABS ABS_MT_SLOT 2, input_ev EV_ABS ABS_MT_TRACKING_ID 42,
                                input_ev EV_ABS ABS_MT_POSITION_X 120] mt_initial"
  have wf: "wf_mt sm" unfolding sm_def by (rule wf_mt_run [OF wf_mt_initial])
  have st: "slots sm = (replicate 10 Map.empty)
      [2 := [EventKey EV_ABS ABS_MT_TRACKING_ID \<mapsto> 42, EventKey EV_ABS ABS_MT_POSITION_X \<mapsto> 120]]"
    by (simp add: sm_def mt_step_def AddEvent_def mt_initial_def event_key_class_defs
        event_key_of_def kNumSlots_def)
  have "FillSnapshot sm 42 =
      Some \<lparr>finger_x = 120, finger_y = -1, finger_p = -1, finger_touch_major = -1\<rparr>"
    unfolding snapshot_contents [OF wf, THEN conjunct2]
    by (auto simp: st kNumSlots_def nth_list_update slot_tid_def slot_finger_def
        FindValueByEvent_def kSlotMissingValue_def intro!: exI [of _ 2])
  then show ?thesis by (simp add: sm_def)
qed

end
