(* ===== verification/Timespec.thy ===== *)
theory Timespec
  imports Prelude
begin

text \<open>
  \<^verbatim>\<open>struct timespec\<close> and the two helpers of \<^verbatim>\<open>FakeKeyboard\<close> on it. The ordering the program
  compares with is made the library's \<open>linorder\<close> of the type, so that sorted lists of
  deadlines are the library's.
\<close>

datatype timespec = Timespec (tv_sec: int) (tv_nsec: int)

text \<open>The carry loop of \<open>AddMsToTimespec\<close>.\<close>

function carry_nsec :: "int \<Rightarrow> int \<Rightarrow> timespec" where
  "carry_nsec sec nsec =
     (if 1000000000 \<le> nsec then carry_nsec (sec + 1) (nsec - 1000000000)
      else Timespec sec nsec)"
  by pat_completeness auto
termination
  by (relation "measure (\<lambda>(sec, nsec). nat nsec)") auto

declare carry_nsec.simps [simp del]

definition AddMsToTimespec :: "timespec \<Rightarrow> int \<Rightarrow> timespec" where
  "AddMsToTimespec orig additional_ms =
     carry_nsec (tv_sec orig) (tv_nsec orig + additional_ms * 1000000)"

definition TimespecIsLater :: "timespec \<Rightarrow> timespec \<Rightarrow> bool" where
  "TimespecIsLater t1 t2 \<longleftrightarrow>
     tv_sec t1 > tv_sec t2 \<or> (tv_sec t1 = tv_sec t2 \<and> tv_nsec t1 > tv_nsec t2)"

instantiation timespec :: linorder
begin

definition less_timespec :: "timespec \<Rightarrow> timespec \<Rightarrow> bool" where
  "less_timespec s t \<longleftrightarrow> TimespecIsLater t s"

definition less_eq_timespec :: "timespec \<Rightarrow> timespec \<Rightarrow> bool" where
  "less_eq_timespec s t \<longleftrightarrow> \<not> TimespecIsLater s t"

instance
  by standard
    (auto simp: less_timespec_def less_eq_timespec_def TimespecIsLater_def timespec.expand)

end

lemma TimespecIsLater_less [simp]: "TimespecIsLater t1 t2 \<longleftrightarrow> t2 < t1"
  by (simp add: less_timespec_def)

section \<open>Meaning in nanoseconds\<close>

definition to_ns :: "timespec \<Rightarrow> int" where
  "to_ns t = tv_sec t * 1000000000 + tv_nsec t"

definition normal_ts :: "timespec \<Rightarrow> bool" where
  "normal_ts t \<longleftrightarrow> 0 \<le> tv_nsec t \<and> tv_nsec t < 1000000000"

lemma to_ns_carry: "to_ns (carry_nsec s n) = s * 1000000000 + n"
  by (induction s n rule: carry_nsec.induct) (subst carry_nsec.simps, simp add: to_ns_def)

lemma normal_carry: "0 \<le> n \<Longrightarrow> normal_ts (carry_nsec s n)"
  by (induction s n rule: carry_nsec.induct) (subst carry_nsec.simps, simp add: normal_ts_def)

lemma to_ns_AddMs: "to_ns (AddMsToTimespec t ms) = to_ns t + ms * 1000000"
  by (simp add: AddMsToTimespec_def to_ns_carry) (simp add: to_ns_def)

lemma normal_AddMs: "normal_ts t \<Longrightarrow> 0 \<le> ms \<Longrightarrow> normal_ts (AddMsToTimespec t ms)"
  by (simp add: AddMsToTimespec_def normal_ts_def normal_carry [unfolded normal_ts_def])

text \<open>On normalised times the program's lexicographic comparison is comparison of instants.\<close>

lemma less_to_ns:
  assumes "normal_ts s" and "normal_ts t"
  shows "s < t \<longleftrightarrow> to_ns s < to_ns t"
proof -
  have ns: "0 \<le> tv_nsec s" "tv_nsec s < 1000000000" "0 \<le> tv_nsec t" "tv_nsec t < 1000000000"
    using assms by (simp_all add: normal_ts_def)
  have lex: "s < t \<longleftrightarrow> tv_sec s < tv_sec t \<or> (tv_sec s = tv_sec t \<and> tv_nsec s < tv_nsec t)"
    unfolding less_timespec_def TimespecIsLater_def by auto
  consider "tv_sec s + 1 \<le> tv_sec t" | "tv_sec s = tv_sec t" | "tv_sec t + 1 \<le> tv_sec s"
    by linarith
  then show ?thesis
    unfolding lex to_ns_def using ns by cases linarith+
qed

lemma le_to_ns: "normal_ts s \<Longrightarrow> normal_ts t \<Longrightarrow> s \<le> t \<longleftrightarrow> to_ns s \<le> to_ns t"
  using less_to_ns [of t s] by (simp add: not_less [symmetric])

lemma AddMs_mono:
  "normal_ts s \<Longrightarrow> normal_ts t \<Longrightarrow> s \<le> t \<Longrightarrow> 0 \<le> ms \<Longrightarrow> AddMsToTimespec s ms \<le> AddMsToTimespec t ms"
  by (simp add: le_to_ns normal_AddMs to_ns_AddMs)

lemma normal_ts_of_ns:
  "normal_ts t \<Longrightarrow> t = Timespec (to_ns t div 1000000000) (to_ns t mod 1000000000)"
  by (cases t) (simp add: normal_ts_def to_ns_def)

section \<open>Properties\<close>

text \<open>
  C27: for a normalised time and a non-negative delay, the carry loop ends in a normalised
  time that lies exactly the delay later, and the program's field-by-field comparison of
  such times agrees with the comparison of the instants they denote.
\<close>

theorem deadlines_are_exact:
  assumes "normal_ts t" and "normal_ts u" and "0 \<le> ms"
  shows "normal_ts (AddMsToTimespec t ms) \<and>
    to_ns (AddMsToTimespec t ms) = to_ns t + ms * 1000000 \<and>
    (TimespecIsLater (AddMsToTimespec t ms) u \<longleftrightarrow> to_ns t + ms * 1000000 > to_ns u)"
  using assms by (simp add: normal_AddMs to_ns_AddMs less_to_ns)

theorem deadlines_are_exact_witness:
  "AddMsToTimespec (Timespec 7 980000000) 50 = Timespec 8 30000000 \<and>
   TimespecIsLater (AddMsToTimespec (Timespec 7 980000000) 50) (Timespec 8 29999999)"
proof -
  let ?t = "AddMsToTimespec (Timespec 7 980000000) 50"
  have ns: "to_ns ?t = 8030000000" and n: "normal_ts ?t"
    and later: "TimespecIsLater ?t (Timespec 8 29999999)"
    using deadlines_are_exact [of "Timespec 7 980000000" "Timespec 8 29999999" 50]
    by (simp_all add: normal_ts_def to_ns_def)
  from normal_ts_of_ns [OF n] have "?t = Timespec 8 30000000" by (simp add: ns)
  with later show ?thesis by simp
qed

end
