(* ===== verification/Key_Queue.thy ===== *)
theory Key_Queue
  imports Timespec "HOL-Library.Multiset"
begin

text \<open>
  The queue of pending keyboard events of \<^verbatim>\<open>FakeKeyboard\<close>: \<open>struct Event\<close>, \<open>EnqueueEvent\<close>,
  and the two scans over the queue that \<open>HandleLeavingFinger\<close> and \<open>RejectFinger\<close> do. The
  interface other components rely on is the locale \<open>deadline_queue\<close>.
\<close>

section \<open>Queues ordered by deadline\<close>

text \<open>
  The contract of insertion: the new element goes in after everything that is due no later
  and before something that is due later. Membership, order and stability follow from it.
\<close>

locale deadline_queue =
  fixes due :: "'e \<Rightarrow> 'd::linorder"
    and enq :: "'e \<Rightarrow> 'e list \<Rightarrow> 'e list"
  assumes enq_split:
    "\<exists>p s. q = p @ s \<and> enq e q = p @ e # s \<and> (\<forall>x \<in> set p. due x \<le> due e) \<and>
           (s = [] \<or> due e < due (hd s))"
begin

lemma enq_cases:
  obtains p s where "q = p @ s" "enq e q = p @ e # s" "\<forall>x \<in> set p. due x \<le> due e"
    "s = [] \<or> due e < due (hd s)"
  using enq_split [of q e] by blast

lemma mset_enq: "mset (enq e q) = add_mset e (mset q)"
  by (rule enq_cases [of q e]) simp

lemma set_enq: "set (enq e q) = insert e (set q)"
  by (rule enq_cases [of q e]) auto

lemma length_enq: "length (enq e q) = Suc (length q)"
  by (rule enq_cases [of q e]) simp

lemma filter_enq: "\<not> P e \<Longrightarrow> filter P (enq e q) = filter P q"
  by (rule enq_cases [of q e]) simp

lemma sorted_enq_cases:
  assumes "sorted (map due q)"
  obtains p s where "q = p @ s" "enq e q = p @ e # s" "\<forall>x \<in> set p. due x \<le> due e"
    "\<forall>x \<in> set s. due e < due x"
proof (rule enq_cases [of q e])
  fix p s
  assume ps: "q = p @ s" "enq e q = p @ e # s" "\<forall>x \<in> set p. due x \<le> due e"
    "s = [] \<or> due e < due (hd s)"
  have "\<forall>x \<in> set s. due e < due x"
    using assms ps by (cases s) (auto simp: sorted_append intro: less_le_trans)
  with ps that show ?thesis by blast
qed

lemma sorted_enq:
  assumes "sorted (map due q)"
  shows "sorted (map due (enq e q))"
  by (rule sorted_enq_cases [OF assms, of e]) (use assms in \<open>auto simp: sorted_append less_imp_le\<close>)

lemma enq_not_Nil: "enq e q \<noteq> []"
  using length_enq [of e q] by auto

end

section \<open>Pending events\<close>

record pending_event =
  pe_guaranteed :: bool
  pe_code :: int
  pe_down :: bool
  pe_tid :: int
  pe_deadline :: timespec

text \<open>The constructor of \<^verbatim>\<open>struct Event\<close>: a fresh event is not guaranteed.\<close>

definition new_event :: "int \<Rightarrow> bool \<Rightarrow> timespec \<Rightarrow> int \<Rightarrow> pending_event" where
  "new_event code down deadline tid =
     \<lparr>pe_guaranteed = False, pe_code = code, pe_down = down, pe_tid = tid,
      pe_deadline = deadline\<rparr>"

definition kEventDelayMS :: int where
  "kEventDelayMS = 50"

definition kOldTID :: int where
  "kOldTID = -999"

fun EnqueueEvent :: "pending_event \<Rightarrow> pending_event list \<Rightarrow> pending_event list" where
  "EnqueueEvent ev [] = [ev]"
| "EnqueueEvent ev (it # rest) =
     (if TimespecIsLater (pe_deadline it) (pe_deadline ev) then ev # it # rest
      else it # EnqueueEvent ev rest)"

definition EnqueueKeyUpEvent :: "int \<Rightarrow> timespec \<Rightarrow> pending_event list \<Rightarrow> pending_event list" where
  "EnqueueKeyUpEvent code now q =
     (let up_event = new_event code False (AddMsToTimespec now kEventDelayMS) kOldTID
      in EnqueueEvent (up_event\<lparr>pe_guaranteed := True\<rparr>) q)"

text \<open>
  The scan of \<open>HandleLeavingFinger\<close>: the first event of the finger is marked guaranteed; the
  second result says whether that event is a key-up.
\<close>

fun guarantee_first :: "int \<Rightarrow> pending_event list \<Rightarrow> pending_event list \<times> bool" where
  "guarantee_first tid [] = ([], False)"
| "guarantee_first tid (it # rest) =
     (if pe_tid it = tid then (it\<lparr>pe_guaranteed := True\<rparr> # rest, \<not> pe_down it)
      else let (rest', up) = guarantee_first tid rest in (it # rest', up))"

text \<open>The scan of \<open>RejectFinger\<close>: every event of the finger is erased.\<close>

fun erase_tid :: "int \<Rightarrow> pending_event list \<Rightarrow> pending_event list" where
  "erase_tid tid [] = []"
| "erase_tid tid (current # rest) =
     (if pe_tid current = tid then erase_tid tid rest else current # erase_tid tid rest)"

lemma erase_tid_filter: "erase_tid tid q = filter (\<lambda>e. pe_tid e \<noteq> tid) q"
  by (induction q) auto

lemma EnqueueEvent_split:
  "\<exists>p s. q = p @ s \<and> EnqueueEvent e q = p @ e # s \<and>
     (\<forall>x \<in> set p. pe_deadline x \<le> pe_deadline e) \<and>
     (s = [] \<or> pe_deadline e < pe_deadline (hd s))"
proof (induction q)
  case Nil
  show ?case by simp
next
  case (Cons x q)
  show ?case
  proof (cases "pe_deadline e < pe_deadline x")
    case True
    then show ?thesis by (intro exI [of _ "[]"] exI [of _ "x # q"]) simp
  next
    case False
    with Cons obtain p s where "q = p @ s" "EnqueueEvent e q = p @ e # s"
      "\<forall>x \<in> set p. pe_deadline x \<le> pe_deadline e" "s = [] \<or> pe_deadline e < pe_deadline (hd s)"
      by blast
    with False show ?thesis by (intro exI [of _ "x # p"] exI [of _ s]) simp
  qed
qed

interpretation kq: deadline_queue pe_deadline EnqueueEvent
  by unfold_locales (rule EnqueueEvent_split)

text \<open>The key-up event that \<open>EnqueueKeyUpEvent\<close> builds.\<close>

definition up_event :: "int \<Rightarrow> timespec \<Rightarrow> pending_event" where
  "up_event code now = \<lparr>pe_guaranteed = True, pe_code = code, pe_down = False,
     pe_tid = kOldTID, pe_deadline = AddMsToTimespec now kEventDelayMS\<rparr>"

lemma EnqueueKeyUpEvent_eq: "EnqueueKeyUpEvent code now q = EnqueueEvent (up_event code now) q"
  by (simp add: EnqueueKeyUpEvent_def up_event_def new_event_def Let_def)

lemma up_event_sel [simp]:
  "pe_guaranteed (up_event c t)" "pe_code (up_event c t) = c" "\<not> pe_down (up_event c t)"
  "pe_tid (up_event c t) = kOldTID" "pe_deadline (up_event c t) = AddMsToTimespec t kEventDelayMS"
  by (simp_all add: up_event_def)

lemma new_event_sel [simp]:
  "\<not> pe_guaranteed (new_event c d t i)" "pe_code (new_event c d t i) = c"
  "pe_down (new_event c d t i) = d" "pe_tid (new_event c d t i) = i"
  "pe_deadline (new_event c d t i) = t"
  by (simp_all add: new_event_def)

lemma guarantee_first_none:
  "\<forall>e \<in> set q. pe_tid e \<noteq> tid \<Longrightarrow> guarantee_first tid q = (q, False)"
  by (induction q) auto

lemma guarantee_first_split:
  "\<forall>e \<in> set p. pe_tid e \<noteq> tid \<Longrightarrow> pe_tid d = tid \<Longrightarrow>
     guarantee_first tid (p @ d # s) = (p @ d\<lparr>pe_guaranteed := True\<rparr> # s, \<not> pe_down d)"
  by (induction p) auto

lemma guarantee_first_deadlines [simp]:
  "map pe_deadline (fst (guarantee_first tid q)) = map pe_deadline q"
  by (induction q) (auto split: prod.splits simp: Let_def)

lemma length_guarantee_first [simp]: "length (fst (guarantee_first tid q)) = length q"
  by (metis guarantee_first_deadlines length_map)

lemma sorted_erase_tid:
  "sorted (map pe_deadline q) \<Longrightarrow> sorted (map pe_deadline (erase_tid tid q))"
  by (simp add: erase_tid_filter sorted_filter)

text \<open>
  Inserting into a queue ordered by deadline keeps it ordered, adds exactly the new event,
  and puts it behind every event that is due at the same time or earlier, so events with
  equal deadlines leave in the order they were enqueued.
\<close>

theorem EnqueueEvent_correct:
  assumes "sorted (map pe_deadline q)"
  shows "sorted (map pe_deadline (EnqueueEvent e q)) \<and>
    mset (EnqueueEvent e q) = add_mset e (mset q) \<and>
    EnqueueEvent e q = filter (\<lambda>x. pe_deadline x \<le> pe_deadline e) q @ [e]
                       @ filter (\<lambda>x. pe_deadline e < pe_deadline x) q"
proof (rule kq.sorted_enq_cases [OF assms, of e])
  fix p s
  assume ps: "q = p @ s" "EnqueueEvent e q = p @ e # s"
    "\<forall>x \<in> set p. pe_deadline x \<le> pe_deadline e" "\<forall>x \<in> set s. pe_deadline e < pe_deadline x"
  then have "filter (\<lambda>x. pe_deadline x \<le> pe_deadline e) q = p"
    "filter (\<lambda>x. pe_deadline e < pe_deadline x) q = s"
    by (auto simp: filter_empty_conv not_le not_less)
  with ps(1,2) kq.sorted_enq [OF assms, of e] show ?thesis by simp
qed

theorem EnqueueEvent_correct_witness:
  "sorted (map pe_deadline (EnqueueEvent (new_event 30 True (Timespec 1 5) 7)
      [new_event 31 True (Timespec 1 5) 8, new_event 32 True (Timespec 2 0) 9]))"
  by (rule EnqueueEvent_correct [THEN conjunct1])
    (simp add: less_eq_timespec_def TimespecIsLater_def del: TimespecIsLater_less)

end
