(* ===== verification/Keyboard.thy ===== *)
theory Keyboard
  imports Multitouch_Spec Key_Queue
begin

text \<open>
  \<^verbatim>\<open>src/fake_keyboard.cc\<close> without its device I/O: the layout, the per-finger bookkeeping, and
  the body of the \<open>Consume\<close> loop as a function from the state, the clock and the event read
  to the new state and the outputs. An output is a haptic request or an event for the
  virtual device, in the order the code produces them. An \<open>Inl\<close> result is an exception or an
  access outside a vector.
\<close>

section \<open>Layout\<close>

record key =
  key_event_code :: int
  key_event_code_fn :: int
  key_xmin :: int
  key_xmax :: int
  key_ymin :: int
  key_ymax :: int

definition Key_Contains :: "key \<Rightarrow> int \<Rightarrow> int \<Rightarrow> bool" where
  "Key_Contains k x y \<longleftrightarrow> x < key_xmax k \<and> x \<ge> key_xmin k \<and> y < key_ymax k \<and> y \<ge> key_ymin k"

definition kNoKey :: int where "kNoKey = -1"

definition kMinTapPressure :: int where "kMinTapPressure = 50"
definition kMaxTapPressure :: int where "kMaxTapPressure = 110"
definition kMinTapTouchDiameter :: int where "kMinTapTouchDiameter = 300"
definition kMaxTapTouchDiameter :: int where "kMaxTapTouchDiameter = 3000"

section \<open>State\<close>

datatype RejectionStatus =
    kNotRejectedYet
  | kRejectTouchdownOffKey
  | kRejectMovedOffKey
  | kRejectPressure
  | kRejectTouchDiameter
  | kRejectAlreadyComplete

record finger_data =
  arrival_time :: timespec
  max_pressure :: int
  max_touch_major :: int
  starting_key_number :: int
  event_code :: int
  down_sent :: bool
  rejection_status :: RejectionStatus

record keyboard =
  layout :: "key list"
  kb_sm :: mt_state
  pending_events :: "pending_event list"
  fingers :: "int \<rightharpoonup> finger_data"
  fn_key_pressed :: bool

datatype kb_output =
    Haptic int int
  | Emit int int int

definition kb_initial :: "key list \<Rightarrow> keyboard" where
  "kb_initial ks = \<lparr>layout = ks, kb_sm = mt_initial, pending_events = [],
                    fingers = Map.empty, fn_key_pressed = False\<rparr>"

section \<open>Arriving and leaving fingers\<close>

text \<open>The search loop: the number of the first key that contains the point.\<close>

fun find_key :: "key list \<Rightarrow> nat \<Rightarrow> int \<Rightarrow> int \<Rightarrow> nat option" where
  "find_key [] key_num x y = None"
| "find_key (k # ks) key_num x y =
     (if Key_Contains k x y then Some key_num else find_key ks (Suc key_num) x y)"

text \<open>Returns the key number and the event code, which is the caller's if there is no key.\<close>

definition GenerateEventForArrivingFinger ::
  "timespec \<Rightarrow> mt_finger \<Rightarrow> int \<Rightarrow> int \<Rightarrow> keyboard \<Rightarrow> int \<times> int \<times> keyboard" where
  "GenerateEventForArrivingFinger now finger tid code kb =
     (case find_key (layout kb) 0 (finger_x finger) (finger_y finger) of
        None \<Rightarrow> (kNoKey, code, kb)
      | Some key_num \<Rightarrow>
          let k = layout kb ! key_num;
              code' = (if fn_key_pressed kb \<and> key_event_code_fn k \<noteq> 0
                       then key_event_code_fn k else key_event_code k);
              ev = new_event code' True (AddMsToTimespec now kEventDelayMS) tid
          in (int key_num, code', kb\<lparr>pending_events := EnqueueEvent ev (pending_events kb)\<rparr>))"

definition HandleLeavingFinger :: "int \<Rightarrow> finger_data \<Rightarrow> timespec \<Rightarrow> keyboard \<Rightarrow> keyboard" where
  "HandleLeavingFinger tid finger now kb =
     (if rejection_status finger \<noteq> kNotRejectedYet then kb
      else
        let (q, up_event_guaranteed) =
              (if \<not> down_sent finger then guarantee_first tid (pending_events kb)
               else (pending_events kb, False))
        in if up_event_guaranteed then kb\<lparr>pending_events := q\<rparr>
           else kb\<lparr>pending_events := EnqueueKeyUpEvent (event_code finger) now q,
                   fn_key_pressed :=
                     (if event_code finger = KEY_FN then False else fn_key_pressed kb)\<rparr>)"

definition StillOnFirstKey :: "mt_finger \<Rightarrow> finger_data \<Rightarrow> keyboard \<Rightarrow> exn + bool" where
  "StillOnFirstKey finger data kb =
     (if starting_key_number data = kNoKey then Inr False
      else if 0 \<le> starting_key_number data \<and>
              starting_key_number data < int (length (layout kb))
      then Inr (Key_Contains (layout kb ! nat (starting_key_number data))
                  (finger_x finger) (finger_y finger))
      else Inl (OutOfRange ''vector::at''))"

definition RejectFinger :: "int \<Rightarrow> RejectionStatus \<Rightarrow> keyboard \<Rightarrow> keyboard" where
  "RejectFinger tid reason kb =
     (case fingers kb tid of
        None \<Rightarrow> kb
      | Some finger \<Rightarrow>
          kb\<lparr>fingers := (fingers kb)(tid \<mapsto> finger\<lparr>rejection_status := reason\<rparr>),
             fn_key_pressed := (if event_code finger = KEY_FN then False else fn_key_pressed kb),
             pending_events := erase_tid tid (pending_events kb)\<rparr>)"

section \<open>Snapshots\<close>

text \<open>
  The body of the first loop of \<open>ProcessIncomingSnapshot\<close>, for one finger of the snapshot.
\<close>

definition arriving_finger ::
  "timespec \<Rightarrow> int \<Rightarrow> mt_finger \<Rightarrow> keyboard \<Rightarrow> kb_output list \<times> keyboard" where
  "arriving_finger now tid finger kb =
     (let (key, code, kb1) = GenerateEventForArrivingFinger now finger tid 0 kb;
          data = \<lparr>arrival_time = now, max_pressure = finger_p finger,
                  max_touch_major = finger_touch_major finger, starting_key_number = key,
                  event_code = code, down_sent = False,
                  rejection_status =
                    (if key = kNoKey then kRejectTouchdownOffKey else kNotRejectedYet)\<rparr>;
          kb2 = (if code = KEY_FN then kb1\<lparr>fn_key_pressed := True\<rparr> else kb1)
      in (if key = kNoKey then [] else [Haptic (finger_x finger) (finger_y finger)],
          kb2\<lparr>fingers := (fingers kb2)(tid \<mapsto> data)\<rparr>))"

definition known_finger ::
  "timespec \<Rightarrow> int \<Rightarrow> mt_finger \<Rightarrow> finger_data \<Rightarrow> keyboard \<Rightarrow> exn + keyboard" where
  "known_finger now tid finger data kb =
     (let data1 = data\<lparr>max_pressure := max (max_pressure data) (finger_p finger),
                       max_touch_major := max (max_touch_major data) (finger_touch_major finger)\<rparr>;
          kb1 = kb\<lparr>fingers := (fingers kb)(tid \<mapsto> data1)\<rparr>
      in case StillOnFirstKey finger data1 kb1 of
           Inl e \<Rightarrow> Inl e
         | Inr True \<Rightarrow> Inr kb1
         | Inr False \<Rightarrow>
             let kb2 = RejectFinger tid kRejectMovedOffKey kb1
             in if down_sent data1
                then Inr (kb2\<lparr>pending_events :=
                                EnqueueKeyUpEvent (event_code data1) now (pending_events kb2),
                              fn_key_pressed :=
                                (if event_code data1 = KEY_FN then False
                                 else fn_key_pressed kb2)\<rparr>)
                else Inr kb2)"

definition process_finger ::
  "timespec \<Rightarrow> int \<Rightarrow> mt_finger \<Rightarrow> keyboard \<Rightarrow> exn + kb_output list \<times> keyboard" where
  "process_finger now tid finger kb =
     (case fingers kb tid of
        None \<Rightarrow> Inr (arriving_finger now tid finger kb)
      | Some data \<Rightarrow>
          if rejection_status data = kNotRejectedYet
          then (case known_finger now tid finger data kb of
                  Inl e \<Rightarrow> Inl e
                | Inr kb' \<Rightarrow> Inr ([], kb'))
          else Inr ([], kb))"

fun process_fingers ::
  "timespec \<Rightarrow> snapshot \<Rightarrow> int list \<Rightarrow> keyboard \<Rightarrow> exn + kb_output list \<times> keyboard" where
  "process_fingers now snap [] kb = Inr ([], kb)"
| "process_fingers now snap (tid # tids) kb =
     (case snap tid of
        None \<Rightarrow> process_fingers now snap tids kb
      | Some finger \<Rightarrow>
          (case process_finger now tid finger kb of
             Inl e \<Rightarrow> Inl e
           | Inr (outs, kb1) \<Rightarrow>
               (case process_fingers now snap tids kb1 of
                  Inl e \<Rightarrow> Inl e
                | Inr (outs', kb2) \<Rightarrow> Inr (outs @ outs', kb2))))"

text \<open>The second loop: fingers that are no longer in the snapshot leave and are forgotten.\<close>

definition missing_finger :: "timespec \<Rightarrow> snapshot \<Rightarrow> int \<Rightarrow> keyboard \<Rightarrow> keyboard" where
  "missing_finger now snap tid kb =
     (case fingers kb tid of
        None \<Rightarrow> kb
      | Some data \<Rightarrow>
          if tid \<noteq> kOldTID \<and> snap tid = None
          then let kb1 = HandleLeavingFinger tid data now kb
               in kb1\<lparr>fingers := (fingers kb1)(tid := None)\<rparr>
          else kb)"

fun process_missing :: "timespec \<Rightarrow> snapshot \<Rightarrow> int list \<Rightarrow> keyboard \<Rightarrow> keyboard" where
  "process_missing now snap [] kb = kb"
| "process_missing now snap (tid # tids) kb =
     process_missing now snap tids (missing_finger now snap tid kb)"

text \<open>
  \<open>order\<close> is the order in which the first loop visits the entries of the snapshot, \<open>tids\<close> the
  order in which the second loop visits the known fingers.
\<close>

definition ProcessIncomingSnapshot ::
  "timespec \<Rightarrow> snapshot \<Rightarrow> int list \<Rightarrow> int list \<Rightarrow> keyboard \<Rightarrow>
     exn + kb_output list \<times> keyboard" where
  "ProcessIncomingSnapshot now snap order tids kb =
     (case process_fingers now snap order kb of
        Inl e \<Rightarrow> Inl e
      | Inr (outs, kb1) \<Rightarrow> Inr (outs, process_missing now snap tids kb1))"

section \<open>Firing pending events\<close>

text \<open>\<open>layout_[n]\<close>: reading outside the vector is undefined behaviour.\<close>

definition layout_code :: "keyboard \<Rightarrow> int \<Rightarrow> exn + int" where
  "layout_code kb n =
     (if 0 \<le> n \<and> n < int (length (layout kb)) then Inr (key_event_code (layout kb ! nat n))
      else Inl (UndefinedBehaviour ''layout_ index out of range''))"

definition tap_rejection :: "keyboard \<Rightarrow> finger_data \<Rightarrow> exn + RejectionStatus option" where
  "tap_rejection kb d =
     (if max_pressure d \<noteq> -1 then
        if max_pressure d < kMinTapPressure then Inr (Some kRejectPressure)
        else res_bind (layout_code kb (starting_key_number d)) (\<lambda>code.
          Inr (if code \<noteq> KEY_SPACE \<and> max_pressure d > kMaxTapPressure
               then Some kRejectPressure else None))
      else
        if max_touch_major d < kMinTapTouchDiameter then Inr (Some kRejectTouchDiameter)
        else res_bind (layout_code kb (starting_key_number d)) (\<lambda>code.
          Inr (if code \<noteq> KEY_SPACE \<and> max_touch_major d > kMaxTapTouchDiameter
               then Some kRejectTouchDiameter else None)))"

definition key_output :: "pending_event \<Rightarrow> kb_output" where
  "key_output e = Emit EV_KEY (pe_code e) (if pe_down e then 1 else 0)"

text \<open>One popped event: \<open>kb\<close> is the state after \<open>pop_front\<close>.\<close>

definition fire_event :: "pending_event \<Rightarrow> keyboard \<Rightarrow> exn + kb_output list \<times> keyboard" where
  "fire_event e kb =
     (case fingers kb (pe_tid e) of
        None \<Rightarrow> Inr ([key_output e], kb)
      | Some d \<Rightarrow>
          (case tap_rejection kb d of
             Inl x \<Rightarrow> Inl x
           | Inr (Some reason) \<Rightarrow> Inr ([], RejectFinger (pe_tid e) reason kb)
           | Inr None \<Rightarrow>
               Inr ([key_output e],
                    if pe_down e
                    then kb\<lparr>fingers := (fingers kb)(pe_tid e \<mapsto> d\<lparr>down_sent := True\<rparr>)\<rparr>
                    else kb)))"

lemma length_erase_tid: "length (erase_tid tid q) \<le> length q"
  by (simp add: erase_tid_filter)

lemma RejectFinger_pending_length:
  "length (pending_events (RejectFinger tid r kb)) \<le> length (pending_events kb)"
  by (auto simp: RejectFinger_def length_erase_tid split: option.splits)

lemma fire_event_pending_length:
  "fire_event e kb = Inr (outs, kb') \<Longrightarrow> length (pending_events kb') \<le> length (pending_events kb)"
  by (auto simp: fire_event_def RejectFinger_pending_length
      split: option.splits sum.splits if_splits)

function fire_loop :: "timespec \<Rightarrow> keyboard \<Rightarrow> exn + kb_output list \<times> keyboard" where
  "fire_loop now kb =
     (case pending_events kb of
        [] \<Rightarrow> Inr ([], kb)
      | e # rest \<Rightarrow>
          if TimespecIsLater (pe_deadline e) now then Inr ([], kb)
          else (case fire_event e (kb\<lparr>pending_events := rest\<rparr>) of
                  Inl x \<Rightarrow> Inl x
                | Inr (outs, kb1) \<Rightarrow>
                    (case fire_loop now kb1 of
                       Inl x \<Rightarrow> Inl x
                     | Inr (outs', kb2) \<Rightarrow> Inr (outs @ outs', kb2))))"
  by pat_completeness auto
termination
  by (relation "measure (\<lambda>(now, kb). length (pending_events kb))")
    (auto dest: fire_event_pending_length)

declare fire_loop.simps [simp del]

text \<open>\<open>needs_syn\<close> is set by every event sent, so it says whether there was an output.\<close>

definition fire_pending :: "timespec \<Rightarrow> keyboard \<Rightarrow> exn + kb_output list \<times> keyboard" where
  "fire_pending now kb =
     (case fire_loop now kb of
        Inl x \<Rightarrow> Inl x
      | Inr (outs, kb') \<Rightarrow>
          Inr (if outs \<noteq> [] then outs @ [Emit EV_SYN SYN_REPORT 0] else outs, kb'))"

section \<open>The loop body of Consume\<close>

text \<open>
  The conversion to \<open>int\<close> wraps as in the code; the millisecond is added to the result without
  wrapping. The two agree unless the difference is \<open>INT_MAX\<close> milliseconds, and a deadline is at
  most 50 ms ahead.
\<close>

definition consume_timeout :: "timespec \<Rightarrow> pending_event list \<Rightarrow> int" where
  "consume_timeout now q =
     (case q of
        [] \<Rightarrow> -1
      | e # _ \<Rightarrow>
          let deadline = pe_deadline e;
              timeout_ms = to_int32 ((tv_sec deadline - tv_sec now) * 1000 +
                             c_quot (tv_nsec deadline - tv_nsec now) 1000000) + 1
          in if timeout_ms < 0 then 1 else timeout_ms)"

text \<open>
  What follows \<open>GetNextEvent\<close>: \<open>ready\<close> is the event it read, \<open>None\<close> if it timed out; \<open>order\<close> and
  \<open>tids\<close> are the iteration orders for the snapshot, if the event completes one.
\<close>

definition consume_event ::
  "timespec \<Rightarrow> input_event option \<Rightarrow> int list \<Rightarrow> int list \<Rightarrow> keyboard \<Rightarrow>
     exn + kb_output list \<times> keyboard" where
  "consume_event now ready order tids kb =
     (case ready of
        None \<Rightarrow> fire_pending now kb
      | Some ev \<Rightarrow>
          (case AddEvent ev (Some Map.empty) (kb_sm kb) of
             (True, Some snapshot, sm') \<Rightarrow>
               (case ProcessIncomingSnapshot now snapshot order tids (kb\<lparr>kb_sm := sm'\<rparr>) of
                  Inl x \<Rightarrow> Inl x
                | Inr (outs, kb2) \<Rightarrow>
                    (case fire_pending now kb2 of
                       Inl x \<Rightarrow> Inl x
                     | Inr (outs', kb3) \<Rightarrow> Inr (outs @ outs', kb3)))
           | (_, _, sm') \<Rightarrow> Inr ([], kb\<lparr>kb_sm := sm'\<rparr>)))"

end
