(* ===== verification/Keyboard_Inv.thy ===== *)
theory Keyboard_Inv
  imports Keyboard
begin

text \<open>
  The invariant of the keyboard logic and its preservation by each operation. It ties the
  queue of pending events to the per-finger data, and both to what has been sent to the
  virtual device so far: the account of key-downs and key-ups per key code.
\<close>

section \<open>Accounts of key events\<close>

text \<open>Key-downs minus key-ups of a code among the outputs.\<close>

definition net :: "int \<Rightarrow> kb_output list \<Rightarrow> int" where
  "net c outs = int (count_list outs (Emit EV_KEY c 1)) - int (count_list outs (Emit EV_KEY c 0))"

lemma net_simps [simp]:
  "net c [] = 0"
  "net c (xs @ ys) = net c xs + net c ys"
  "net c (Haptic x y # xs) = net c xs"
  "net c (Emit t d v # xs) =
     (if t = EV_KEY \<and> d = c then (if v = 1 then 1 else if v = 0 then -1 else 0) else 0) + net c xs"
  by (auto simp: net_def)

text \<open>What a pending event will contribute for sure: a down only once it is guaranteed.\<close>

definition weight :: "int \<Rightarrow> pending_event \<Rightarrow> int" where
  "weight c e = (if pe_code e \<noteq> c then 0
                 else if \<not> pe_down e then -1 else if pe_guaranteed e then 1 else 0)"

definition wsum :: "int \<Rightarrow> pending_event list \<Rightarrow> int" where
  "wsum c q = sum_list (map (weight c) q)"

text \<open>
  Starting from \<open>b\<close> keys down, playing the queue never goes below zero (\<open>safe\<close>), and ends
  at zero (\<open>covered\<close>).
\<close>

fun safe :: "int \<Rightarrow> int \<Rightarrow> pending_event list \<Rightarrow> bool" where
  "safe c b [] \<longleftrightarrow> True"
| "safe c b (e # q) \<longleftrightarrow> 0 \<le> b \<and> safe c (b + weight c e) q"

definition covered :: "int \<Rightarrow> int \<Rightarrow> pending_event list \<Rightarrow> bool" where
  "covered c b q \<longleftrightarrow> safe c b q \<and> b + wsum c q = 0"

lemma wsum_simps [simp]:
  "wsum c [] = 0" "wsum c (e # q) = weight c e + wsum c q" "wsum c (p @ q) = wsum c p + wsum c q"
  by (simp_all add: wsum_def)

lemma safe_append [simp]: "safe c b (p @ q) \<longleftrightarrow> safe c b p \<and> safe c (b + wsum c p) q"
  by (induction p arbitrary: b) (auto simp: add.assoc)

lemma safe_mono: "safe c b q \<Longrightarrow> b \<le> b' \<Longrightarrow> safe c b' q"
proof (induction q arbitrary: b b')
  case (Cons e q)
  from Cons.prems Cons.IH [of "b + weight c e" "b' + weight c e"] show ?case by simp
qed simp

lemma covered_nonneg: "covered c b q \<Longrightarrow> 0 \<le> b"
  by (cases q) (auto simp: covered_def)

lemma covered_Cons: "covered c b (e # q) \<longleftrightarrow> 0 \<le> b \<and> covered c (b + weight c e) q"
  by (auto simp: covered_def)

lemma covered_append:
  "covered c b (p @ q) \<longleftrightarrow> safe c b p \<and> covered c (b + wsum c p) q"
  by (auto simp: covered_def add.assoc)

lemma covered_filter:
  "covered c b q \<Longrightarrow> (\<And>e. e \<in> set q \<Longrightarrow> \<not> P e \<Longrightarrow> weight c e = 0) \<Longrightarrow> covered c b (filter P q)"
  by (induction q arbitrary: b) (auto simp: covered_Cons)

lemma covered_enq_neutral:
  assumes "covered c b q" and "weight c e = 0"
  shows "covered c b (EnqueueEvent e q)"
proof (rule kq.enq_cases [of q e])
  fix p s
  assume "q = p @ s" "EnqueueEvent e q = p @ e # s"
  with assms show ?thesis
    by (auto simp: covered_append covered_Cons dest: covered_nonneg)
qed

text \<open>A key-up for a key that is held: the finger stops holding it, the queue gains the up.\<close>

lemma covered_enq_up:
  assumes "covered c b q" and "weight c e = - w" and "0 \<le> w"
  shows "covered c (b + w) (EnqueueEvent e q)"
proof (rule kq.enq_cases [of q e])
  fix p s
  assume eq: "q = p @ s" "EnqueueEvent e q = p @ e # s"
  have "safe c (b + w) p" and "covered c (b + wsum c p) s"
    using assms eq safe_mono [of c b p "b + w"] by (auto simp: covered_append)
  with eq assms show ?thesis
    using covered_nonneg [of c "b + wsum c p" s]
    by (simp add: covered_append covered_Cons algebra_simps)
qed

text \<open>A key-down becomes guaranteed and the matching up is enqueued behind it.\<close>

lemma covered_guarantee:
  assumes q: "q = p @ d # s" and srt: "sorted (map pe_deadline q)" and cov: "covered c b q"
    and w: "weight c d = 0" "weight c d' = v" "weight c e = - v" "0 \<le> v"
    and due: "pe_deadline d' = pe_deadline d" "pe_deadline d \<le> pe_deadline e"
  shows "covered c b (EnqueueEvent e (p @ d' # s))"
proof -
  have "sorted (map pe_deadline (p @ d' # s))" using srt q due by simp
  then obtain p2 s2 where eq: "p @ d' # s = p2 @ s2"
    "EnqueueEvent e (p @ d' # s) = p2 @ e # s2" and late: "\<forall>x \<in> set s2. pe_deadline e < pe_deadline x"
    by (rule kq.sorted_enq_cases [of _ e])
  have "d' \<notin> set s2" using late due by auto
  with eq(1) have "\<exists>p3. p2 = p @ d' # p3 \<and> s = p3 @ s2"
    by (auto simp: append_eq_append_conv2 Cons_eq_append_conv append_eq_Cons_conv)
  then obtain p3 where p3: "p2 = p @ d' # p3" "s = p3 @ s2" by blast
  from cov have c: "safe c b p" "0 \<le> b + wsum c p" "safe c (b + wsum c p) p3"
    "covered c (b + wsum c p + wsum c p3) s2"
    using w(1) unfolding q p3(2) by (auto simp: covered_append covered_Cons dest: covered_nonneg)
  moreover have "safe c (b + wsum c p + v) p3" using c(3) w(4) by (auto elim: safe_mono)
  moreover have "0 \<le> b + wsum c p + wsum c p3" using c(4) by (rule covered_nonneg)
  ultimately show ?thesis
    using w(2-4) by (simp add: eq(2) p3(1) covered_append covered_Cons algebra_simps)
qed

section \<open>Keys held down by fingers\<close>

definition holds :: "int \<Rightarrow> finger_data option \<Rightarrow> bool" where
  "holds c od \<longleftrightarrow> (case od of None \<Rightarrow> False
     | Some d \<Rightarrow> rejection_status d = kNotRejectedYet \<and> down_sent d \<and> event_code d = c)"

definition held :: "int \<Rightarrow> (int \<rightharpoonup> finger_data) \<Rightarrow> int" where
  "held c F = int (card {tid. holds c (F tid)})"

lemma finite_holds: "finite (dom F) \<Longrightarrow> finite {tid. holds c (F tid)}"
  by (rule finite_subset [of _ "dom F"]) (auto simp: holds_def split: option.splits)

lemma held_nonneg [simp]: "0 \<le> held c F"
  by (simp add: held_def)

lemma held_update:
  assumes "finite (dom F)"
  shows "held c (F(tid := v)) = held c F - of_bool (holds c (F tid)) + of_bool (holds c v)"
proof -
  define A where "A = {t. holds c (F t)} - {tid}"
  have fin: "finite A" "tid \<notin> A" using finite_holds [OF assms] by (simp_all add: A_def)
  have "held c G = int (card A) + of_bool (holds c (G tid))" if "\<And>t. t \<noteq> tid \<Longrightarrow> G t = F t" for G
  proof -
    have "x \<in> {t. holds c (G t)} \<longleftrightarrow> x \<in> (if holds c (G tid) then insert tid A else A)" for x
      by (cases "x = tid") (simp_all add: that A_def)
    then have "{t. holds c (G t)} = (if holds c (G tid) then insert tid A else A)"
      by blast
    with fin show ?thesis by (simp add: held_def)
  qed
  from this [of F] this [of "F(tid := v)"] show ?thesis by simp
qed

lemma held_empty [simp]: "held c Map.empty = 0"
  by (simp add: held_def holds_def)

section \<open>The invariant\<close>

definition enabled_codes :: "key list \<Rightarrow> int set" where
  "enabled_codes ks = key_event_code ` set ks \<union> (key_event_code_fn ` set ks - {0})"

definition event_ok :: "key list \<Rightarrow> timespec \<Rightarrow> pending_event \<Rightarrow> bool" where
  "event_ok ks t e \<longleftrightarrow> normal_ts (pe_deadline e) \<and>
     pe_deadline e \<le> AddMsToTimespec t kEventDelayMS \<and> pe_code e \<in> enabled_codes ks \<and>
     (if pe_down e then pe_tid e \<noteq> kOldTID else pe_tid e = kOldTID \<and> pe_guaranteed e)"

text \<open>
  A pending key-down belongs to a live finger that has neither been rejected nor had its
  key-down sent, or its finger is gone and it is guaranteed.
\<close>

definition linked :: "(int \<rightharpoonup> finger_data) \<Rightarrow> pending_event \<Rightarrow> bool" where
  "linked F e \<longleftrightarrow> (pe_down e \<longrightarrow>
     (case F (pe_tid e) of None \<Rightarrow> pe_guaranteed e
      | Some d \<Rightarrow> \<not> pe_guaranteed e \<and> rejection_status d = kNotRejectedYet \<and> \<not> down_sent d \<and>
                  event_code d = pe_code e))"

definition finger_ok ::
  "key list \<Rightarrow> pending_event list \<Rightarrow> int \<Rightarrow> finger_data \<Rightarrow> bool" where
  "finger_ok ks q tid d \<longleftrightarrow> rejection_status d = kNotRejectedYet \<longrightarrow>
     0 \<le> starting_key_number d \<and> starting_key_number d < int (length ks) \<and>
     event_code d \<in> enabled_codes ks \<and>
     (\<not> down_sent d \<longrightarrow> (\<exists>e \<in> set q. pe_down e \<and> pe_tid e = tid))"

definition kinv ::
  "key list \<Rightarrow> pending_event list \<Rightarrow> (int \<rightharpoonup> finger_data) \<Rightarrow> timespec \<Rightarrow> (int \<Rightarrow> int) \<Rightarrow> bool" where
  "kinv ks q F t b \<longleftrightarrow>
     normal_ts t \<and> sorted (map pe_deadline q) \<and>
     (\<forall>e \<in> set q. event_ok ks t e \<and> linked F e) \<and>
     distinct (map pe_tid (filter pe_down q)) \<and>
     finite (dom F) \<and> F kOldTID = None \<and>
     (\<forall>tid d. F tid = Some d \<longrightarrow> finger_ok ks q tid d) \<and>
     (\<forall>c. covered c (b c - held c F) q)"

lemma kinvI:
  assumes "normal_ts t" and "sorted (map pe_deadline q)"
    and "\<And>e. e \<in> set q \<Longrightarrow> event_ok ks t e" and "\<And>e. e \<in> set q \<Longrightarrow> linked F e"
    and "distinct (map pe_tid (filter pe_down q))"
    and "finite (dom F)" and "F kOldTID = None"
    and "\<And>tid d. F tid = Some d \<Longrightarrow> finger_ok ks q tid d"
    and "\<And>c. covered c (b c - held c F) q"
  shows "kinv ks q F t b"
  using assms by (simp add: kinv_def)

lemma kinvD:
  assumes "kinv ks q F t b"
  shows "normal_ts t" and "sorted (map pe_deadline q)"
    and "\<And>e. e \<in> set q \<Longrightarrow> event_ok ks t e" and "\<And>e. e \<in> set q \<Longrightarrow> linked F e"
    and "distinct (map pe_tid (filter pe_down q))"
    and "finite (dom F)" and "F kOldTID = None"
    and "\<And>tid d. F tid = Some d \<Longrightarrow> finger_ok ks q tid d"
    and "\<And>c. covered c (b c - held c F) q"
  using assms by (simp_all add: kinv_def)

lemma kinv_initial: "normal_ts t \<Longrightarrow> kinv ks [] Map.empty t (\<lambda>_. 0)"
  by (rule kinvI) (simp_all add: covered_def)

text \<open>Time passes.\<close>

lemma kinv_later:
  assumes inv: "kinv ks q F t b" and "t \<le> t'" and "normal_ts t'"
  shows "kinv ks q F t' b"
proof (rule kinvI)
  show "event_ok ks t' e" if "e \<in> set q" for e
    using kinvD(3) [OF inv that] AddMs_mono [OF kinvD(1) [OF inv] assms(3,2), of kEventDelayMS]
    by (auto simp: event_ok_def kEventDelayMS_def)
qed (use assms kinvD [OF inv] in auto)

text \<open>A finger's data changes in fields the invariant does not mention.\<close>

lemma kinv_touch:
  assumes inv: "kinv ks q F t b" and "F tid = Some d"
    and same: "rejection_status d' = rejection_status d" "down_sent d' = down_sent d"
      "event_code d' = event_code d" "starting_key_number d' = starting_key_number d"
  shows "kinv ks q (F(tid \<mapsto> d')) t b"
proof (rule kinvI)
  have "held c (F(tid \<mapsto> d')) = held c F" for c
    using assms by (simp add: held_update [OF kinvD(6) [OF inv]] holds_def)
  then show "covered c (b c - held c (F(tid \<mapsto> d'))) q" for c
    using kinvD(9) [OF inv] by simp
  show "linked (F(tid \<mapsto> d')) e" if "e \<in> set q" for e
    using kinvD(4) [OF inv that] assms(2) same by (auto simp: linked_def)
  show "finger_ok ks q i x" if "(F(tid \<mapsto> d')) i = Some x" for i x
    using that kinvD(8) [OF inv] assms(2) same
    by (auto simp: finger_ok_def split: if_splits)
qed (use assms kinvD [OF inv] in auto)

section \<open>Arriving, rejected and leaving fingers\<close>

text \<open>A finger that takes no further part: it has left, or it is marked rejected.\<close>

definition gone :: "finger_data option \<Rightarrow> bool" where
  "gone v \<longleftrightarrow> (case v of None \<Rightarrow> True | Some d \<Rightarrow> rejection_status d \<noteq> kNotRejectedYet)"

lemma gone_simps [simp]: "gone None" "gone (Some d) \<longleftrightarrow> rejection_status d \<noteq> kNotRejectedYet"
  by (simp_all add: gone_def)

lemma gone_not_holds [simp]: "gone v \<Longrightarrow> \<not> holds c v"
  by (auto simp: gone_def holds_def split: option.splits)

lemma kinv_known_tid: "kinv ks q F t b \<Longrightarrow> F tid = Some d \<Longrightarrow> tid \<noteq> kOldTID"
  using kinvD(7) by fastforce

lemma kinv_no_event:
  assumes inv: "kinv ks q F t b" and "F tid = Some d"
    and "rejection_status d \<noteq> kNotRejectedYet \<or> down_sent d" and "e \<in> set q"
  shows "pe_tid e \<noteq> tid"
  using kinvD(3) [OF inv assms(4)] kinvD(4) [OF inv assms(4)] kinv_known_tid [OF inv assms(2)] assms(2,3)
  by (auto simp: event_ok_def linked_def split: if_splits)

lemma kinv_own_event:
  assumes inv: "kinv ks q F t b" and "F tid = Some d" and "e \<in> set q" and "pe_tid e = tid"
  shows "pe_down e" and "\<not> pe_guaranteed e" and "pe_code e = event_code d"
  using kinvD(3) [OF inv assms(3)] kinvD(4) [OF inv assms(3)] kinv_known_tid [OF inv assms(2)] assms(2,4)
  by (auto simp: event_ok_def linked_def split: if_splits)

lemma finger_ok_mono:
  "finger_ok ks q tid d \<Longrightarrow> (\<And>e. e \<in> set q \<Longrightarrow> pe_tid e = tid \<Longrightarrow> e \<in> set q') \<Longrightarrow> finger_ok ks q' tid d"
  by (auto simp: finger_ok_def)

lemma finger_ok_gone: "gone (Some d) \<Longrightarrow> finger_ok ks q tid d"
  by (simp add: finger_ok_def)

lemma linked_other: "pe_tid e \<noteq> tid \<Longrightarrow> linked (F(tid := v)) e = linked F e"
  by (simp add: linked_def)

lemma up_event_ok:
  "normal_ts t \<Longrightarrow> c \<in> enabled_codes ks \<Longrightarrow> event_ok ks t (up_event c t)"
  by (simp add: event_ok_def normal_AddMs kEventDelayMS_def)

lemma linked_up [simp]: "linked F (up_event c t)"
  by (simp add: linked_def)

lemma weight_up [simp]: "weight c (up_event c' t) = (if c' = c then -1 else 0)"
  by (simp add: weight_def)

text \<open>A finger with nothing pending and nothing held comes, goes or is rejected.\<close>

lemma kinv_set_gone:
  assumes inv: "kinv ks q F t b" and v: "gone v" "tid \<noteq> kOldTID"
    and old: "gone (F tid)" and fresh: "\<And>e. e \<in> set q \<Longrightarrow> pe_tid e \<noteq> tid"
  shows "kinv ks q (F(tid := v)) t b"
proof (rule kinvI)
  have "held c (F(tid := v)) = held c F" for c
    using v old by (simp add: held_update [OF kinvD(6) [OF inv]])
  then show "covered c (b c - held c (F(tid := v))) q" for c
    using kinvD(9) [OF inv] by simp
  show "linked (F(tid := v)) e" if "e \<in> set q" for e
    using kinvD(4) [OF inv that] fresh [OF that] by (simp add: linked_other)
  show "finger_ok ks q i x" if "(F(tid := v)) i = Some x" for i x
    using that kinvD(8) [OF inv, of i x] v(1) by (auto simp: finger_ok_gone split: if_splits)
qed (use v kinvD [OF inv] in auto)

lemma kinv_arrive:
  assumes inv: "kinv ks q F t b" and new: "F tid = None" "tid \<noteq> kOldTID"
    and fresh: "\<And>e. e \<in> set q \<Longrightarrow> pe_tid e \<noteq> tid"
    and d: "rejection_status d = kNotRejectedYet" "\<not> down_sent d"
      "0 \<le> starting_key_number d" "starting_key_number d < int (length ks)"
      "event_code d \<in> enabled_codes ks"
    and e: "e = new_event (event_code d) True (AddMsToTimespec t kEventDelayMS) tid"
  shows "kinv ks (EnqueueEvent e q) (F(tid \<mapsto> d)) t b"
proof (rule kinvI)
  have "held c (F(tid \<mapsto> d)) = held c F" for c
    using new d by (simp add: held_update [OF kinvD(6) [OF inv]] holds_def)
  then show "covered c (b c - held c (F(tid \<mapsto> d))) (EnqueueEvent e q)" for c
    using covered_enq_neutral [OF kinvD(9) [OF inv], of c e] e by (simp add: weight_def)
  show "event_ok ks t x" if "x \<in> set (EnqueueEvent e q)" for x
    using that kinvD(1,3) [OF inv] new d e
    by (auto simp: kq.set_enq event_ok_def normal_AddMs kEventDelayMS_def)
  show "linked (F(tid \<mapsto> d)) x" if "x \<in> set (EnqueueEvent e q)" for x
    using that kinvD(4) [OF inv, of x] fresh [of x] d e
    by (auto simp: kq.set_enq linked_def)
  show "finger_ok ks (EnqueueEvent e q) i x" if "(F(tid \<mapsto> d)) i = Some x" for i x
    using that kinvD(8) [OF inv, of i x] d e
    by (auto simp: kq.set_enq finger_ok_def split: if_splits)
  show "distinct (map pe_tid (filter pe_down (EnqueueEvent e q)))"
  proof (rule kq.enq_cases [of q e])
    fix p s
    assume "q = p @ s" "EnqueueEvent e q = p @ e # s"
    then show ?thesis
      using kinvD(5) [OF inv] fresh e by fastforce
  qed
qed (use assms kinvD [OF inv] in \<open>auto simp: kq.sorted_enq\<close>)

lemma kinv_reject_unsent:
  assumes inv: "kinv ks q F t b" and F: "F tid = Some d"
    and d: "rejection_status d = kNotRejectedYet" "\<not> down_sent d" and v: "gone v"
  shows "kinv ks (erase_tid tid q) (F(tid := v)) t b"
proof (rule kinvI)
  have "held c (F(tid := v)) = held c F" for c
    using F d v by (simp add: held_update [OF kinvD(6) [OF inv]] holds_def [of _ "Some d"])
  moreover have "covered c (b c - held c F) (erase_tid tid q)" for c
    unfolding erase_tid_filter
    using kinvD(9) [OF inv] kinv_own_event [OF inv F]
    by (intro covered_filter) (auto simp: weight_def)
  ultimately show "covered c (b c - held c (F(tid := v))) (erase_tid tid q)" for c by simp
  show "linked (F(tid := v)) e" if "e \<in> set (erase_tid tid q)" for e
    using that kinvD(4) [OF inv] by (auto simp: erase_tid_filter linked_other)
  show "finger_ok ks (erase_tid tid q) i x" if "(F(tid := v)) i = Some x" for i x
    using that kinvD(8) [OF inv, of i x] v
    by (auto simp: erase_tid_filter finger_ok_gone split: if_splits elim: finger_ok_mono)
  show "distinct (map pe_tid (filter pe_down (erase_tid tid q)))"
    using distinct_map_filter [OF kinvD(5) [OF inv], of "\<lambda>e. pe_tid e \<noteq> tid"]
    by (simp add: erase_tid_filter filter_filter conj_commute)
qed (use assms kinvD [OF inv] kinv_known_tid [OF inv F] in
    \<open>auto simp: erase_tid_filter sorted_filter\<close>)

lemma kinv_release:
  assumes inv: "kinv ks q F t b" and F: "F tid = Some d"
    and d: "rejection_status d = kNotRejectedYet" "down_sent d" and v: "gone v"
  shows "kinv ks (EnqueueEvent (up_event (event_code d) t) q) (F(tid := v)) t b"
proof (rule kinvI)
  let ?e = "up_event (event_code d) t"
  have tid: "tid \<noteq> kOldTID" by (rule kinv_known_tid [OF inv F])
  have none: "pe_tid e \<noteq> tid" if "e \<in> set q" for e
    using kinv_no_event [OF inv F _ that] d by simp
  have held: "b c - held c (F(tid := v)) = (b c - held c F) + of_bool (event_code d = c)" for c
    using F d v by (simp add: held_update [OF kinvD(6) [OF inv]] holds_def [of _ "Some d"])
  show "covered c (b c - held c (F(tid := v))) (EnqueueEvent ?e q)" for c
    unfolding held by (rule covered_enq_up [OF kinvD(9) [OF inv]]) simp_all
  show "event_ok ks t e" if "e \<in> set (EnqueueEvent ?e q)" for e
    using that kinvD(1,3) [OF inv] kinvD(8) [OF inv F] d
    by (auto simp: kq.set_enq up_event_ok finger_ok_def)
  show "linked (F(tid := v)) e" if "e \<in> set (EnqueueEvent ?e q)" for e
    using that kinvD(4) [OF inv, of e] none [of e] by (auto simp: kq.set_enq linked_other)
  show "finger_ok ks (EnqueueEvent ?e q) i x" if "(F(tid := v)) i = Some x" for i x
    using that kinvD(8) [OF inv, of i x] v
    by (auto simp: kq.set_enq finger_ok_gone split: if_splits elim: finger_ok_mono)
  show "distinct (map pe_tid (filter pe_down (EnqueueEvent ?e q)))"
    using kinvD(5) [OF inv] by (simp add: kq.filter_enq)
qed (use assms kinvD [OF inv] kinv_known_tid [OF inv F] in \<open>auto simp: kq.sorted_enq\<close>)

lemma kinv_unsent_split:
  assumes inv: "kinv ks q F t b" and F: "F tid = Some d"
    and d: "rejection_status d = kNotRejectedYet" "\<not> down_sent d"
  obtains p e s where "q = p @ e # s" "pe_tid e = tid" "pe_down e" "\<not> pe_guaranteed e"
    "pe_code e = event_code d" "\<forall>x \<in> set p \<union> set s. pe_tid x \<noteq> tid"
proof -
  have "\<exists>e \<in> set q. pe_tid e = tid" using kinvD(8) [OF inv F] d by (auto simp: finger_ok_def)
  then obtain p e s where q: "q = p @ e # s" "pe_tid e = tid" "\<forall>x \<in> set p. pe_tid x \<noteq> tid"
    using split_list_first_prop [of q "\<lambda>x. pe_tid x = tid"] by blast
  have own: "pe_down x" if "x \<in> set q" "pe_tid x = tid" for x
    using kinv_own_event(1) [OF inv F that] .
  have "pe_tid x \<noteq> tid" if "x \<in> set s" for x
    using distinct_map_filter_other [of pe_tid pe_down p e s x] kinvD(5) [OF inv]
      own [of x] own [of e] q(1,2) that by auto
  with q kinv_own_event [OF inv F, of e] show ?thesis by (intro that [of p e s]) auto
qed

lemma kinv_leave_unsent:
  assumes inv: "kinv ks q F t b" and F: "F tid = Some d"
    and d: "rejection_status d = kNotRejectedYet" "\<not> down_sent d"
  shows "\<not> snd (guarantee_first tid q) \<and>
    kinv ks (EnqueueEvent (up_event (event_code d) t) (fst (guarantee_first tid q)))
      (F(tid := None)) t b"
proof (rule kinv_unsent_split [OF inv F d])
  fix p s :: "pending_event list" and e :: pending_event
  let ?g = "e\<lparr>pe_guaranteed := True\<rparr>" and ?u = "up_event (event_code d) t"
  assume q: "q = p @ e # s" and e: "pe_tid e = tid" "pe_down e" "\<not> pe_guaranteed e"
    "pe_code e = event_code d" and others: "\<forall>x \<in> set p \<union> set s. pe_tid x \<noteq> tid"
  have g: "guarantee_first tid q = (p @ ?g # s, False)"
    using guarantee_first_split [of p tid e s] others e q by auto
  have due: "pe_deadline e \<le> AddMsToTimespec t kEventDelayMS"
    using kinvD(3) [OF inv, of e] q by (simp add: event_ok_def)
  have ok: "event_ok ks t x" "linked F x" if "x \<in> set q" for x
    using kinvD(3,4) [OF inv that] by blast+
  have gok: "event_ok ks t ?g" using ok(1) [of e] q e(2) by (simp add: event_ok_def)
  have uok: "event_ok ks t ?u"
    using kinvD(8) [OF inv F] kinvD(1) [OF inv] d by (simp add: up_event_ok finger_ok_def)
  have "kinv ks (EnqueueEvent ?u (p @ ?g # s)) (F(tid := None)) t b"
  proof (rule kinvI)
    have "held c (F(tid := None)) = held c F" for c
      using F d by (simp add: held_update [OF kinvD(6) [OF inv]] holds_def)
    moreover have "covered c (b c - held c F) (EnqueueEvent ?u (p @ ?g # s))" for c
      by (rule covered_guarantee [OF q kinvD(2) [OF inv] kinvD(9) [OF inv],
            where v = "of_bool (event_code d = c)"]) (use e due in \<open>auto simp: weight_def\<close>)
    ultimately show "covered c (b c - held c (F(tid := None))) (EnqueueEvent ?u (p @ ?g # s))" for c
      by simp
    show "event_ok ks t x" if "x \<in> set (EnqueueEvent ?u (p @ ?g # s))" for x
      using that ok(1) [of x] gok uok by (auto simp: kq.set_enq q)
    show "linked (F(tid := None)) x" if "x \<in> set (EnqueueEvent ?u (p @ ?g # s))" for x
      using that ok(2) [of x] others e by (auto simp: kq.set_enq linked_def q)
    show "finger_ok ks (EnqueueEvent ?u (p @ ?g # s)) i x" if "(F(tid := None)) i = Some x" for i x
      using that kinvD(8) [OF inv, of i x] e
      by (auto simp: kq.set_enq q split: if_splits elim: finger_ok_mono)
    show "distinct (map pe_tid (filter pe_down (EnqueueEvent ?u (p @ ?g # s))))"
      using kinvD(5) [OF inv] e by (simp add: kq.filter_enq q)
    show "sorted (map pe_deadline (EnqueueEvent ?u (p @ ?g # s)))"
      using kinvD(2) [OF inv] by (intro kq.sorted_enq) (simp add: q)
  qed (use kinvD [OF inv] in auto)
  with g show ?thesis by simp
qed

section \<open>Firing\<close>

lemma kinv_pop_loose:
  assumes inv: "kinv ks (e # q) F t b" and none: "F (pe_tid e) = None"
  shows "kinv ks q F t (\<lambda>c. b c + net c [key_output e])"
proof (rule kinvI)
  have g: "pe_down e \<Longrightarrow> pe_guaranteed e"
    using kinvD(4) [OF inv, of e] none by (simp add: linked_def)
  show "covered c (b c + net c [key_output e] - held c F) q" for c
    using kinvD(9) [OF inv, of c] g
    by (auto simp: covered_Cons weight_def key_output_def algebra_simps split: if_splits)
  show "finger_ok ks q i x" if "F i = Some x" for i x
    using kinvD(8) [OF inv that] that none by (auto simp: finger_ok_def)
qed (use kinvD [OF inv] in \<open>auto split: if_splits\<close>)

lemma kinv_pop_send:
  assumes inv: "kinv ks (e # q) F t b" and F: "F (pe_tid e) = Some d"
  shows "pe_down e \<and>
    kinv ks q (F(pe_tid e \<mapsto> d\<lparr>down_sent := True\<rparr>)) t (\<lambda>c. b c + net c [key_output e])"
proof -
  note own = kinv_own_event [OF inv F, of e, simplified]
  have l: "rejection_status d = kNotRejectedYet" "\<not> down_sent d"
    using kinvD(4) [OF inv, of e] F own by (auto simp: linked_def)
  have others: "pe_tid x \<noteq> pe_tid e" if "x \<in> set q" for x
    using distinct_map_filter_other [of pe_tid pe_down "[]" e q x] kinvD(5) [OF inv]
      kinv_own_event(1) [OF inv F, of x] own that by auto
  let ?F = "F(pe_tid e \<mapsto> d\<lparr>down_sent := True\<rparr>)"
  have "kinv ks q ?F t (\<lambda>c. b c + net c [key_output e])"
  proof (rule kinvI)
    have "held c ?F = held c F + of_bool (event_code d = c)" for c
      using F l by (simp add: held_update [OF kinvD(6) [OF inv]] holds_def)
    then show "covered c (b c + net c [key_output e] - held c ?F) q" for c
      using kinvD(9) [OF inv, of c] own
      by (auto simp: covered_Cons weight_def key_output_def algebra_simps split: if_splits)
    show "linked ?F x" if "x \<in> set q" for x
      using kinvD(4) [OF inv, of x] others [OF that] that by (simp add: linked_other)
    show "finger_ok ks q i x" if "?F i = Some x" for i x
      using that kinvD(8) [OF inv, of i x] kinvD(8) [OF inv F] l
      by (auto simp: finger_ok_def split: if_splits)
  qed (use kinvD [OF inv] F in \<open>auto split: if_splits\<close>)
  with own show ?thesis by simp
qed

lemma kinv_pop_reject:
  assumes inv: "kinv ks (e # q) F t b" and F: "F (pe_tid e) = Some d" and "r \<noteq> kNotRejectedYet"
  shows "kinv ks (erase_tid (pe_tid e) q) (F(pe_tid e \<mapsto> d\<lparr>rejection_status := r\<rparr>)) t b"
proof -
  have "rejection_status d = kNotRejectedYet" "\<not> down_sent d"
    using kinvD(4) [OF inv, of e] F kinv_own_event [OF inv F, of e] by (auto simp: linked_def)
  from kinv_reject_unsent [OF inv F this, of "Some (d\<lparr>rejection_status := r\<rparr>)"] assms(3)
  show ?thesis by simp
qed

end
