(* ===== verification/Keyboard_Steps.thy ===== *)
theory Keyboard_Steps
  imports Keyboard_Inv
begin

text \<open>
  Every operation of the keyboard logic keeps the invariant and none of them fails: first the
  operations on one finger, then the loops over a snapshot, then the firing loop and the body
  of \<open>Consume\<close>.
\<close>

definition kb_inv :: "keyboard \<Rightarrow> timespec \<Rightarrow> (int \<Rightarrow> int) \<Rightarrow> bool" where
  "kb_inv kb t b \<longleftrightarrow> kinv (layout kb) (pending_events kb) (fingers kb) t b"

text \<open>The events of the queue that carry a tracking id.\<close>

definition pending_tids :: "keyboard \<Rightarrow> int set" where
  "pending_tids kb = pe_tid ` set (pending_events kb)"

text \<open>
  What an operation on finger \<open>tid\<close> leaves alone: the layout, the state machine, the other
  fingers, and the events of other fingers up to key-ups, which carry \<open>kOldTID\<close>.
\<close>

definition only_finger :: "int \<Rightarrow> keyboard \<Rightarrow> keyboard \<Rightarrow> bool" where
  "only_finger tid kb kb' \<longleftrightarrow>
     layout kb' = layout kb \<and> kb_sm kb' = kb_sm kb \<and>
     (\<forall>i. i \<noteq> tid \<longrightarrow> fingers kb' i = fingers kb i) \<and>
     pending_tids kb' \<subseteq> pending_tids kb \<union> {tid, kOldTID}"

lemma only_fingerI:
  assumes "layout kb' = layout kb" and "kb_sm kb' = kb_sm kb"
    and "\<And>i. i \<noteq> tid \<Longrightarrow> fingers kb' i = fingers kb i"
    and "\<And>e. e \<in> set (pending_events kb') \<Longrightarrow>
           e \<in> set (pending_events kb) \<or> pe_tid e = tid \<or> pe_tid e = kOldTID"
  shows "only_finger tid kb kb'"
  using assms by (fastforce simp: only_finger_def pending_tids_def)

lemma only_finger_refl [simp]: "only_finger tid kb kb"
  by (simp add: only_fingerI)

section \<open>One finger\<close>

lemma find_key_Some:
  "find_key ks n x y = Some m \<Longrightarrow>
     n \<le> m \<and> m < n + length ks \<and> Key_Contains (ks ! (m - n)) x y \<and>
     (\<forall>j < m - n. \<not> Key_Contains (ks ! j) x y)"
proof (induction ks arbitrary: n)
  case Nil
  then show ?case by simp
next
  case (Cons k ks)
  show ?case
  proof (cases "Key_Contains k x y")
    case True
    with Cons.prems show ?thesis by simp
  next
    case False
    with Cons.prems have "find_key ks (Suc n) x y = Some m" by simp
    from Cons.IH [OF this] have m: "Suc n \<le> m" "m < Suc n + length ks"
      "Key_Contains (ks ! (m - Suc n)) x y" "\<forall>j < m - Suc n. \<not> Key_Contains (ks ! j) x y"
      by auto
    from m(1) have "m - n = Suc (m - Suc n)" by simp
    with m False show ?thesis by (auto simp: less_Suc_eq_0_disj)
  qed
qed

lemma find_key_None: "find_key ks n x y = None \<longleftrightarrow> (\<forall>k \<in> set ks. \<not> Key_Contains k x y)"
  by (induction ks arbitrary: n) auto

lemma enabled_codes_pressed:
  assumes "k \<in> set ks"
  shows "(if fn \<and> key_event_code_fn k \<noteq> 0 then key_event_code_fn k else key_event_code k)
         \<in> enabled_codes ks"
  using assms by (auto simp: enabled_codes_def)

lemma arriving_finger_inv:
  assumes inv: "kb_inv kb t b" and new: "fingers kb tid = None" "tid \<noteq> kOldTID"
    and fresh: "tid \<notin> pending_tids kb" and run: "arriving_finger t tid f kb = (outs, kb')"
  shows "kb_inv kb' t b \<and> only_finger tid kb kb' \<and> fingers kb' tid \<noteq> None \<and>
         (\<forall>out \<in> set outs. \<exists>x y. out = Haptic x y)"
proof (cases "find_key (layout kb) 0 (finger_x f) (finger_y f)")
  case None
  have "kinv (layout kb) (pending_events kb) ((fingers kb)(tid \<mapsto> d)) t b"
    if "rejection_status d = kRejectTouchdownOffKey" for d
    using kinv_set_gone [of "layout kb" "pending_events kb" "fingers kb" t b "Some d" tid]
      inv new fresh that
    by (auto simp: kb_inv_def pending_tids_def)
  with None run show ?thesis
    by (auto simp: arriving_finger_def GenerateEventForArrivingFinger_def Let_def kb_inv_def
        intro!: only_fingerI)
next
  case (Some m)
  then have m: "m < length (layout kb)" using find_key_Some by fastforce
  define code where "code = (if fn_key_pressed kb \<and> key_event_code_fn (layout kb ! m) \<noteq> 0
      then key_event_code_fn (layout kb ! m) else key_event_code (layout kb ! m))"
  define ev where "ev = new_event code True (AddMsToTimespec t kEventDelayMS) tid"
  define d where "d = \<lparr>arrival_time = t, max_pressure = finger_p f,
      max_touch_major = finger_touch_major f, starting_key_number = int m, event_code = code,
      down_sent = False, rejection_status = kNotRejectedYet\<rparr>"
  have "code \<in> enabled_codes (layout kb)"
    unfolding code_def by (rule enabled_codes_pressed) (simp add: m)
  then have k: "kinv (layout kb) (EnqueueEvent ev (pending_events kb)) ((fingers kb)(tid \<mapsto> d)) t b"
    using inv new fresh m
    by (intro kinv_arrive) (auto simp: kb_inv_def d_def ev_def pending_tids_def)
  from Some run have res: "outs = [Haptic (finger_x f) (finger_y f)]"
    "layout kb' = layout kb" "kb_sm kb' = kb_sm kb" "fingers kb' = (fingers kb)(tid \<mapsto> d)"
    "pending_events kb' = EnqueueEvent ev (pending_events kb)"
    unfolding arriving_finger_def GenerateEventForArrivingFinger_def Let_def
    by (auto simp: code_def ev_def d_def kNoKey_def)
  with k show ?thesis
    by (auto simp: kb_inv_def kq.set_enq ev_def intro!: only_fingerI)
qed

lemma StillOnFirstKey_ok:
  "finger_ok (layout kb) q tid d \<Longrightarrow> rejection_status d = kNotRejectedYet \<Longrightarrow>
     StillOnFirstKey f d kb =
       Inr (Key_Contains (layout kb ! nat (starting_key_number d)) (finger_x f) (finger_y f))"
  by (auto simp: StillOnFirstKey_def finger_ok_def kNoKey_def)

lemma RejectFinger_sel:
  assumes "fingers kb tid = Some d"
  shows "layout (RejectFinger tid r kb) = layout kb"
    and "kb_sm (RejectFinger tid r kb) = kb_sm kb"
    and "fingers (RejectFinger tid r kb) = (fingers kb)(tid \<mapsto> d\<lparr>rejection_status := r\<rparr>)"
    and "pending_events (RejectFinger tid r kb) = erase_tid tid (pending_events kb)"
  using assms by (simp_all add: RejectFinger_def)

lemma known_finger_inv:
  assumes inv: "kb_inv kb t b" and F: "fingers kb tid = Some d"
    and d: "rejection_status d = kNotRejectedYet"
  shows "\<exists>kb'. known_finger t tid f d kb = Inr kb' \<and> kb_inv kb' t b \<and> only_finger tid kb kb' \<and>
               fingers kb' tid \<noteq> None"
proof -
  define d1 where "d1 = d\<lparr>max_pressure := max (max_pressure d) (finger_p f),
      max_touch_major := max (max_touch_major d) (finger_touch_major f)\<rparr>"
  define kb1 where "kb1 = kb\<lparr>fingers := (fingers kb)(tid \<mapsto> d1)\<rparr>"
  have d1: "rejection_status d1 = kNotRejectedYet" "down_sent d1 = down_sent d"
    "event_code d1 = event_code d" "starting_key_number d1 = starting_key_number d"
    using d by (simp_all add: d1_def)
  have F1: "fingers kb1 tid = Some d1" by (simp add: kb1_def)
  have k1: "kinv (layout kb1) (pending_events kb1) (fingers kb1) t b"
    using inv kinv_touch [of "layout kb" "pending_events kb" "fingers kb" t b tid d d1] F d d1
    by (simp add: kb_inv_def kb1_def)
  have o1: "only_finger tid kb kb1" by (rule only_fingerI) (simp_all add: kb1_def)
  have still: "StillOnFirstKey f d1 kb1 =
      Inr (Key_Contains (layout kb1 ! nat (starting_key_number d1)) (finger_x f) (finger_y f))"
    by (rule StillOnFirstKey_ok [OF kinvD(8) [OF k1 F1] d1(1)])
  note run = known_finger_def Let_def d1_def [symmetric] kb1_def [symmetric] still
  show ?thesis
  proof (cases "Key_Contains (layout kb1 ! nat (starting_key_number d1)) (finger_x f) (finger_y f)")
    case True
    with k1 o1 F1 show ?thesis by (simp add: run kb_inv_def)
  next
    case False
    define kb2 where "kb2 = RejectFinger tid kRejectMovedOffKey kb1"
    define d2 where "d2 = d1\<lparr>rejection_status := kRejectMovedOffKey\<rparr>"
    have kb2: "layout kb2 = layout kb1" "kb_sm kb2 = kb_sm kb1"
      "fingers kb2 = (fingers kb1)(tid \<mapsto> d2)"
      "pending_events kb2 = erase_tid tid (pending_events kb1)"
      using RejectFinger_sel [OF F1, of kRejectMovedOffKey] by (simp_all add: kb2_def d2_def)
    have gone: "gone (Some d2)" by (simp add: d2_def)
    show ?thesis
    proof (cases "down_sent d1")
      case True
      have "erase_tid tid (pending_events kb1) = pending_events kb1"
        using kinv_no_event [OF k1 F1] True by (simp add: erase_tid_filter filter_id_conv)
      with kinv_release [OF k1 F1 d1(1) True gone] kb2
      have "kinv (layout kb2) (EnqueueKeyUpEvent (event_code d1) t (pending_events kb2))
              (fingers kb2) t b"
        by (simp add: EnqueueKeyUpEvent_eq)
      moreover have "only_finger tid kb (kb2\<lparr>pending_events :=
          EnqueueKeyUpEvent (event_code d1) t (pending_events kb2), fn_key_pressed := fn\<rparr>)" for fn
        by (rule only_fingerI)
          (auto simp: kb2 kb1_def EnqueueKeyUpEvent_eq kq.set_enq erase_tid_filter)
      ultimately show ?thesis
        using False True by (simp add: run kb2_def [symmetric] kb_inv_def kb2)
    next
      case unsent: False
      from kinv_reject_unsent [OF k1 F1 d1(1) unsent gone] kb2
      have "kinv (layout kb2) (pending_events kb2) (fingers kb2) t b" by simp
      moreover have "only_finger tid kb kb2"
        by (rule only_fingerI) (auto simp: kb2 kb1_def erase_tid_filter)
      ultimately show ?thesis
        using False unsent by (simp add: run kb2_def [symmetric] kb_inv_def kb2)
    qed
  qed
qed

lemma process_finger_inv:
  assumes inv: "kb_inv kb t b" and "tid \<noteq> kOldTID"
    and "fingers kb tid = None \<Longrightarrow> tid \<notin> pending_tids kb"
  shows "\<exists>outs kb'. process_finger t tid f kb = Inr (outs, kb') \<and> kb_inv kb' t b \<and>
    only_finger tid kb kb' \<and> fingers kb' tid \<noteq> None \<and> (\<forall>out \<in> set outs. \<exists>x y. out = Haptic x y)"
proof (cases "fingers kb tid")
  case None
  obtain outs kb' where r: "arriving_finger t tid f kb = (outs, kb')" by fastforce
  with arriving_finger_inv [OF inv None assms(2) assms(3) [OF None] r] None
  show ?thesis by (auto simp: process_finger_def)
next
  case (Some d)
  show ?thesis
  proof (cases "rejection_status d = kNotRejectedYet")
    case True
    then obtain kb' where "known_finger t tid f d kb = Inr kb'" "kb_inv kb' t b"
      "only_finger tid kb kb'" "fingers kb' tid \<noteq> None"
      using known_finger_inv [OF inv Some] by blast
    with Some True show ?thesis by (auto simp: process_finger_def)
  next
    case False
    with Some inv show ?thesis by (simp add: process_finger_def)
  qed
qed

section \<open>A snapshot\<close>

definition haptics_only :: "kb_output list \<Rightarrow> bool" where
  "haptics_only outs \<longleftrightarrow> (\<forall>out \<in> set outs. \<exists>x y. out = Haptic x y)"

lemma haptics_only_net [simp]: "haptics_only outs \<Longrightarrow> net c outs = 0"
  by (induction outs) (auto simp: haptics_only_def)

lemma haptics_only_append [simp]:
  "haptics_only (xs @ ys) \<longleftrightarrow> haptics_only xs \<and> haptics_only ys" "haptics_only []"
  by (auto simp: haptics_only_def)

lemma haptics_only_take: "haptics_only outs \<Longrightarrow> haptics_only (take n outs)"
  by (auto simp: haptics_only_def dest: in_set_takeD)

text \<open>
  What the code relies on about tracking ids: the device never uses the id that marks
  internal events, and a finger that is new in a snapshot has an id for which no event is
  pending any more (the kernel hands out ids in increasing order).
\<close>

definition fresh_tids :: "snapshot \<Rightarrow> keyboard \<Rightarrow> bool" where
  "fresh_tids snap kb \<longleftrightarrow> (\<forall>tid \<in> dom snap. tid \<noteq> kOldTID \<and>
     (fingers kb tid = None \<longrightarrow> tid \<notin> pending_tids kb))"

lemma process_fingers_inv:
  assumes "kb_inv kb t b" and "distinct order"
    and "\<And>tid. tid \<in> set order \<Longrightarrow> tid \<in> dom snap \<Longrightarrow> tid \<noteq> kOldTID \<and>
           (fingers kb tid = None \<longrightarrow> tid \<notin> pending_tids kb)"
  shows "\<exists>outs kb'. process_fingers t snap order kb = Inr (outs, kb') \<and> kb_inv kb' t b \<and>
    layout kb' = layout kb \<and> kb_sm kb' = kb_sm kb \<and> haptics_only outs \<and>
    dom (fingers kb') = dom (fingers kb) \<union> (set order \<inter> dom snap)"
  using assms
proof (induction order arbitrary: kb)
  case Nil
  then show ?case by simp
next
  case (Cons tid order)
  show ?case
  proof (cases "snap tid")
    case None
    with Cons.IH [OF Cons.prems(1)] Cons.prems show ?thesis by (auto simp: domIff)
  next
    case (Some f)
    then have tid: "tid \<noteq> kOldTID" "fingers kb tid = None \<Longrightarrow> tid \<notin> pending_tids kb"
      using Cons.prems(3) [of tid] by auto
    from process_finger_inv [OF Cons.prems(1) tid, of f] obtain outs kb1 where
      one: "process_finger t tid f kb = Inr (outs, kb1)" "kb_inv kb1 t b"
        "only_finger tid kb kb1" "fingers kb1 tid \<noteq> None" "haptics_only outs"
      unfolding haptics_only_def by blast
    have dom1: "dom (fingers kb1) = insert tid (dom (fingers kb))"
      using one(3,4) by (auto simp: only_finger_def)
    have "i \<noteq> kOldTID \<and> (fingers kb1 i = None \<longrightarrow> i \<notin> pending_tids kb1)"
      if "i \<in> set order" "i \<in> dom snap" for i
    proof -
      have "i \<noteq> tid" using Cons.prems(2) that(1) by auto
      moreover have "i \<noteq> kOldTID \<and> (fingers kb i = None \<longrightarrow> i \<notin> pending_tids kb)"
        using Cons.prems(3) that by simp
      ultimately show ?thesis using one(3) by (auto simp: only_finger_def)
    qed
    with Cons.IH [OF one(2)] Cons.prems(2) obtain outs' kb' where
      rest: "process_fingers t snap order kb1 = Inr (outs', kb')" "kb_inv kb' t b"
        "layout kb' = layout kb1" "kb_sm kb' = kb_sm kb1" "haptics_only outs'"
        "dom (fingers kb') = dom (fingers kb1) \<union> (set order \<inter> dom snap)"
      by auto
    with one Some dom1 show ?thesis by (auto simp: only_finger_def)
  qed
qed

lemma HandleLeavingFinger_sel:
  "layout (HandleLeavingFinger tid d t kb) = layout kb"
  "kb_sm (HandleLeavingFinger tid d t kb) = kb_sm kb"
  "fingers (HandleLeavingFinger tid d t kb) = fingers kb"
  by (simp_all add: HandleLeavingFinger_def Let_def split: prod.splits)

lemma HandleLeavingFinger_inv:
  assumes inv: "kb_inv kb t b" and F: "fingers kb tid = Some d"
  shows "kinv (layout kb) (pending_events (HandleLeavingFinger tid d t kb))
           ((fingers kb)(tid := None)) t b"
proof -
  have k: "kinv (layout kb) (pending_events kb) (fingers kb) t b"
    using inv by (simp add: kb_inv_def)
  consider (rejected) "rejection_status d \<noteq> kNotRejectedYet"
    | (sent) "rejection_status d = kNotRejectedYet" "down_sent d"
    | (unsent) "rejection_status d = kNotRejectedYet" "\<not> down_sent d" by blast
  then show ?thesis
  proof cases
    case rejected
    then have "kinv (layout kb) (pending_events kb) ((fingers kb)(tid := None)) t b"
      using kinv_known_tid [OF k F] kinv_no_event [OF k F] F
      by (intro kinv_set_gone [OF k]) auto
    with rejected show ?thesis by (simp add: HandleLeavingFinger_def)
  next
    case sent
    from kinv_release [OF k F sent, of None] sent show ?thesis
      by (simp add: HandleLeavingFinger_def EnqueueKeyUpEvent_eq)
  next
    case unsent
    from kinv_leave_unsent [OF k F unsent] unsent show ?thesis
      by (auto simp: HandleLeavingFinger_def EnqueueKeyUpEvent_eq Let_def split: prod.splits)
  qed
qed

lemma missing_finger_inv:
  assumes inv: "kb_inv kb t b"
  shows "kb_inv (missing_finger t snap tid kb) t b \<and>
    layout (missing_finger t snap tid kb) = layout kb \<and>
    kb_sm (missing_finger t snap tid kb) = kb_sm kb \<and>
    dom (fingers (missing_finger t snap tid kb)) =
      dom (fingers kb) - (if snap tid = None then {tid} else {})"
proof (cases "fingers kb tid")
  case None
  with inv show ?thesis by (auto simp: missing_finger_def)
next
  case (Some d)
  then have "tid \<noteq> kOldTID" using inv kinv_known_tid by (auto simp: kb_inv_def)
  with Some inv HandleLeavingFinger_inv [OF inv Some] show ?thesis
    by (auto simp: missing_finger_def kb_inv_def HandleLeavingFinger_sel Let_def)
qed

lemma process_missing_inv:
  assumes "kb_inv kb t b"
  shows "kb_inv (process_missing t snap tids kb) t b \<and>
    layout (process_missing t snap tids kb) = layout kb \<and>
    kb_sm (process_missing t snap tids kb) = kb_sm kb \<and>
    dom (fingers (process_missing t snap tids kb)) = dom (fingers kb) - (set tids - dom snap)"
  using assms
proof (induction tids arbitrary: kb)
  case Nil
  then show ?case by simp
next
  case (Cons tid tids)
  from missing_finger_inv [OF Cons.prems, of snap tid] Cons.IH [of "missing_finger t snap tid kb"]
  show ?case by (auto simp: domIff)
qed

lemma ProcessIncomingSnapshot_inv:
  assumes inv: "kb_inv kb t b" and "distinct order" and fresh: "fresh_tids snap kb"
  shows "\<exists>outs kb'. ProcessIncomingSnapshot t snap order tids kb = Inr (outs, kb') \<and>
    kb_inv kb' t b \<and> layout kb' = layout kb \<and> kb_sm kb' = kb_sm kb \<and> haptics_only outs \<and>
    dom (fingers kb') = dom (fingers kb) \<union> (set order \<inter> dom snap) - (set tids - dom snap)"
proof -
  obtain outs kb1 where "process_fingers t snap order kb = Inr (outs, kb1)" "kb_inv kb1 t b"
    "layout kb1 = layout kb" "kb_sm kb1 = kb_sm kb" "haptics_only outs"
    "dom (fingers kb1) = dom (fingers kb) \<union> (set order \<inter> dom snap)"
    using process_fingers_inv [OF assms(1,2), of snap] fresh
    by (auto simp: fresh_tids_def)
  with process_missing_inv [of kb1 t b snap tids] show ?thesis
    by (simp add: ProcessIncomingSnapshot_def)
qed

end
