(* ===== verification/Keyboard_Fire.thy ===== *)
theory Keyboard_Fire
  imports Keyboard_Steps
begin

text \<open>
  The firing loop of \<open>Consume\<close> and the whole loop body: they keep the invariant, they never
  fail, and no prefix of what they send releases a key that is not down.
\<close>

section \<open>One event\<close>

lemma tap_rejection_ok:
  assumes "finger_ok (layout kb) q tid d" and "rejection_status d = kNotRejectedYet"
  shows "\<exists>r. tap_rejection kb d = Inr r \<and> r \<noteq> Some kNotRejectedYet"
  using assms
  by (auto simp: tap_rejection_def finger_ok_def layout_code_def res_bind_def
      split: sum.splits if_splits)

lemma fire_event_inv:
  assumes inv: "kinv (layout kb) (e # pending_events kb) (fingers kb) t b"
  shows "\<exists>outs kb'. fire_event e kb = Inr (outs, kb') \<and> kb_inv kb' t (\<lambda>c. b c + net c outs) \<and>
    layout kb' = layout kb \<and> kb_sm kb' = kb_sm kb \<and> dom (fingers kb') = dom (fingers kb) \<and>
    (outs = [] \<or> outs = [key_output e])"
proof (cases "fingers kb (pe_tid e)")
  case None
  with kinv_pop_loose [OF inv None] show ?thesis
    by (simp add: fire_event_def kb_inv_def)
next
  case (Some d)
  note send = kinv_pop_send [OF inv Some]
  have "rejection_status d = kNotRejectedYet"
    using kinvD(4) [OF inv, of e] Some send by (auto simp: linked_def)
  with tap_rejection_ok [OF kinvD(8) [OF inv Some]] obtain r where
    r: "tap_rejection kb d = Inr r" "r \<noteq> Some kNotRejectedYet" by blast
  show ?thesis
  proof (cases r)
    case None
    with Some r send show ?thesis by (auto simp: fire_event_def kb_inv_def)
  next
    case reason: (Some x)
    with r kinv_pop_reject [OF inv Some, of x] Some show ?thesis
      by (auto simp: fire_event_def kb_inv_def RejectFinger_sel)
  qed
qed

section \<open>The loop\<close>

definition key_events :: "int set \<Rightarrow> kb_output list \<Rightarrow> bool" where
  "key_events C outs \<longleftrightarrow> (\<forall>out \<in> set outs. \<exists>c \<in> C. \<exists>v \<in> {0, 1}. out = Emit EV_KEY c v)"

lemma key_events_append [simp]:
  "key_events C [] " "key_events C (xs @ ys) \<longleftrightarrow> key_events C xs \<and> key_events C ys"
  by (auto simp: key_events_def)

definition never_negative :: "(int \<Rightarrow> int) \<Rightarrow> kb_output list \<Rightarrow> bool" where
  "never_negative b outs \<longleftrightarrow> (\<forall>n c. 0 \<le> b c + net c (take n outs))"

lemma never_negative_append:
  assumes "never_negative b xs" and "never_negative (\<lambda>c. b c + net c xs) ys"
  shows "never_negative b (xs @ ys)"
  unfolding never_negative_def
proof (intro allI)
  fix n c
  show "0 \<le> b c + net c (take n (xs @ ys))"
  proof (cases "n \<le> length xs")
    case True
    with assms(1) show ?thesis by (simp add: never_negative_def)
  next
    case False
    with assms(2) show ?thesis by (simp add: never_negative_def add.assoc)
  qed
qed

lemma never_negative_neutral:
  assumes "\<And>c. 0 \<le> b c" and "\<And>c n. net c (take n outs) = 0"
  shows "never_negative b outs"
  using assms by (simp add: never_negative_def)

lemma never_negative_haptics: "(\<And>c. 0 \<le> b c) \<Longrightarrow> haptics_only outs \<Longrightarrow> never_negative b outs"
  by (auto intro!: never_negative_neutral haptics_only_net haptics_only_take)

lemma never_negative_single:
  "(\<And>c. 0 \<le> b c) \<Longrightarrow> (\<And>c. 0 \<le> b c + net c [x]) \<Longrightarrow> never_negative b [x]"
  by (auto simp: never_negative_def take_Cons' split: if_splits)

lemma kinv_held: "kinv ks q F t b \<Longrightarrow> 0 \<le> b c - held c F"
  by (rule covered_nonneg [OF kinvD(9)])

lemma kb_inv_nonneg:
  assumes "kb_inv kb t b" shows "0 \<le> b c"
proof -
  have "0 \<le> b c - held c (fingers kb)"
    using assms unfolding kb_inv_def by (rule kinv_held)
  then show ?thesis using held_nonneg [of c "fingers kb"] by linarith
qed

lemma fire_loop_inv:
  assumes "kb_inv kb t b"
  shows "\<exists>outs kb'. fire_loop t kb = Inr (outs, kb') \<and> kb_inv kb' t (\<lambda>c. b c + net c outs) \<and>
    layout kb' = layout kb \<and> kb_sm kb' = kb_sm kb \<and> dom (fingers kb') = dom (fingers kb) \<and>
    (\<forall>e \<in> set (pending_events kb'). t < pe_deadline e) \<and>
    key_events (enabled_codes (layout kb)) outs \<and> never_negative b outs"
  using assms
proof (induction t kb arbitrary: b rule: fire_loop.induct)
  case (1 t kb)
  have neg: "never_negative b []"
    using kb_inv_nonneg [OF "1.prems"] by (simp add: never_negative_def)
  show ?case
  proof (cases "pending_events kb")
    case Nil
    with neg "1.prems" show ?thesis by (simp add: fire_loop.simps [of t kb])
  next
    case (Cons e rest)
    have inv: "kinv (layout kb) (e # rest) (fingers kb) t b"
      using "1.prems" Cons by (simp add: kb_inv_def)
    show ?thesis
    proof (cases "t < pe_deadline e")
      case True
      have "\<forall>x \<in> set (pending_events kb). t < pe_deadline x"
        using kinvD(2) [OF inv] True Cons by (auto intro: less_le_trans)
      with True neg "1.prems" Cons show ?thesis by (simp add: fire_loop.simps [of t kb])
    next
      case False
      let ?kb = "kb\<lparr>pending_events := rest\<rparr>"
      from fire_event_inv [of ?kb e t b] inv obtain outs kb1 where
        one: "fire_event e ?kb = Inr (outs, kb1)" "kb_inv kb1 t (\<lambda>c. b c + net c outs)"
          "layout kb1 = layout kb" "kb_sm kb1 = kb_sm kb" "dom (fingers kb1) = dom (fingers kb)"
          "outs = [] \<or> outs = [key_output e]" by auto
      have "pe_code e \<in> enabled_codes (layout kb)"
        using kinvD(3) [OF inv, of e] by (simp add: event_ok_def)
      then have keys: "key_events (enabled_codes (layout kb)) outs"
        using one(6) by (auto simp: key_events_def key_output_def)
      have "never_negative b outs"
        using one(6) kb_inv_nonneg [OF "1.prems"] kb_inv_nonneg [OF one(2)] neg
        by (auto intro!: never_negative_single)
      moreover from "1.IH" [OF Cons _ one(1) refl one(2)] False obtain outs' kb' where
        "fire_loop t kb1 = Inr (outs', kb')"
        "kb_inv kb' t (\<lambda>c. b c + net c outs + net c outs')"
        "layout kb' = layout kb1" "kb_sm kb' = kb_sm kb1" "dom (fingers kb') = dom (fingers kb1)"
        "\<forall>e \<in> set (pending_events kb'). t < pe_deadline e"
        "key_events (enabled_codes (layout kb1)) outs'"
        "never_negative (\<lambda>c. b c + net c outs) outs'"
        by auto
      ultimately show ?thesis
        using False Cons one keys
        by (simp add: fire_loop.simps [of t kb] never_negative_append add.assoc)
    qed
  qed
qed

definition keyboard_events :: "int set \<Rightarrow> kb_output list \<Rightarrow> bool" where
  "keyboard_events C outs \<longleftrightarrow> (\<forall>out \<in> set outs.
     (\<exists>x y. out = Haptic x y) \<or> out = Emit EV_SYN SYN_REPORT 0 \<or>
     (\<exists>c \<in> C. \<exists>v \<in> {0, 1}. out = Emit EV_KEY c v))"

lemma keyboard_events_append [simp]:
  "keyboard_events C []"
  "keyboard_events C (xs @ ys) \<longleftrightarrow> keyboard_events C xs \<and> keyboard_events C ys"
  by (auto simp: keyboard_events_def)

lemma keyboard_events_subs:
  "key_events C outs \<Longrightarrow> keyboard_events C outs" "haptics_only outs \<Longrightarrow> keyboard_events C outs"
  by (auto simp: keyboard_events_def key_events_def haptics_only_def)

lemma fire_pending_inv:
  assumes inv: "kb_inv kb t b"
  shows "\<exists>outs kb'. fire_pending t kb = Inr (outs, kb') \<and>
    kb_inv kb' t (\<lambda>c. b c + net c outs) \<and>
    layout kb' = layout kb \<and> kb_sm kb' = kb_sm kb \<and> dom (fingers kb') = dom (fingers kb) \<and>
    (\<forall>e \<in> set (pending_events kb'). t < pe_deadline e) \<and>
    keyboard_events (enabled_codes (layout kb)) outs \<and> never_negative b outs"
proof -
  from fire_loop_inv [OF inv] obtain outs kb' where
    r: "fire_loop t kb = Inr (outs, kb')" "kb_inv kb' t (\<lambda>c. b c + net c outs)"
      "layout kb' = layout kb" "kb_sm kb' = kb_sm kb" "dom (fingers kb') = dom (fingers kb)"
      "\<forall>e \<in> set (pending_events kb'). t < pe_deadline e"
      "key_events (enabled_codes (layout kb)) outs" "never_negative b outs" by blast
  have "never_negative b (outs @ [Emit EV_SYN SYN_REPORT 0])"
    using r(8) kb_inv_nonneg [OF r(2)]
    by (intro never_negative_append) (auto intro!: never_negative_single)
  then show ?thesis
    using r keyboard_events_subs(1) [OF r(7)]
    by (auto simp: fire_pending_def keyboard_events_def [of _ "[_]"])
qed

section \<open>The loop body\<close>

text \<open>The frame that an event completes, if it does.\<close>

definition completed_frame :: "input_event option \<Rightarrow> mt_state \<Rightarrow> snapshot option" where
  "completed_frame ready sm =
     (case ready of None \<Rightarrow> None
      | Some ev \<Rightarrow> (case AddEvent ev (Some Map.empty) sm of
                     (True, snap, _) \<Rightarrow> snap | _ \<Rightarrow> None))"

definition sm_after :: "input_event option \<Rightarrow> mt_state \<Rightarrow> mt_state" where
  "sm_after ready sm = (case ready of None \<Rightarrow> sm | Some ev \<Rightarrow> mt_step ev sm)"

lemma consume_event_cases:
  obtains (timeout) "ready = None" "consume_event now ready order tids kb = fire_pending now kb"
  | (partial) ev where "ready = Some ev" "completed_frame ready (kb_sm kb) = None"
      "consume_event now ready order tids kb = Inr ([], kb\<lparr>kb_sm := mt_step ev (kb_sm kb)\<rparr>)"
  | (frame) ev snap where "ready = Some ev" "completed_frame ready (kb_sm kb) = Some snap"
      "consume_event now ready order tids kb =
         res_bind (ProcessIncomingSnapshot now snap order tids
                     (kb\<lparr>kb_sm := mt_step ev (kb_sm kb)\<rparr>))
           (\<lambda>(outs, kb2). res_bind (fire_pending now kb2)
              (\<lambda>(outs', kb3). Inr (outs @ outs', kb3)))"
proof (cases ready)
  case None
  with timeout show ?thesis by (simp add: consume_event_def)
next
  case (Some ev)
  obtain r snap sm' where a: "AddEvent ev (Some Map.empty) (kb_sm kb) = (r, snap, sm')"
    by (cases "AddEvent ev (Some Map.empty) (kb_sm kb)") blast
  then have sm': "sm' = mt_step ev (kb_sm kb)"
    using AddEvent_state [of ev "Some Map.empty" "kb_sm kb"] by simp
  show ?thesis
  proof (cases "r \<and> snap \<noteq> None")
    case True
    with a sm' Some frame show ?thesis
      by (auto simp: consume_event_def completed_frame_def res_bind_def
          split: sum.splits prod.splits option.splits)
  next
    case False
    with a sm' Some partial show ?thesis
      by (auto simp: consume_event_def completed_frame_def
          split: option.splits bool.splits)
  qed
qed

text \<open>
  What the loop body relies on from its surroundings: a monotonic clock with a normalised
  reading, and, when the event completes a frame, orders that visit each entry once and
  tracking ids as the kernel hands them out.
\<close>

definition iteration_ok ::
  "timespec \<Rightarrow> timespec \<Rightarrow> input_event option \<Rightarrow> int list \<Rightarrow> int list \<Rightarrow> keyboard \<Rightarrow> bool" where
  "iteration_ok clock now ready order tids kb \<longleftrightarrow> clock \<le> now \<and> normal_ts now \<and>
     (case completed_frame ready (kb_sm kb) of None \<Rightarrow> True
      | Some snap \<Rightarrow> enumerates order (dom snap) \<and>
          enumerates tids (dom (fingers kb) \<union> dom snap) \<and> fresh_tids snap kb)"

lemma consume_event_inv:
  assumes inv: "kb_inv kb t b" and ok: "iteration_ok t now ready order tids kb"
  shows "\<exists>outs kb'. consume_event now ready order tids kb = Inr (outs, kb') \<and>
    kb_inv kb' now (\<lambda>c. b c + net c outs) \<and> layout kb' = layout kb \<and>
    kb_sm kb' = sm_after ready (kb_sm kb) \<and>
    dom (fingers kb') = (case completed_frame ready (kb_sm kb) of
       None \<Rightarrow> dom (fingers kb) | Some snap \<Rightarrow> dom snap) \<and>
    (ready = None \<or> completed_frame ready (kb_sm kb) \<noteq> None \<longrightarrow>
       (\<forall>e \<in> set (pending_events kb'). now < pe_deadline e)) \<and>
    keyboard_events (enabled_codes (layout kb)) outs \<and> never_negative b outs"
proof -
  have inv': "kb_inv kb now b"
    using inv ok kinv_later unfolding kb_inv_def iteration_ok_def by blast
  show ?thesis
  proof (cases rule: consume_event_cases [of ready now order tids kb])
    case timeout
    with fire_pending_inv [OF inv'] show ?thesis
      by (simp add: completed_frame_def sm_after_def)
  next
    case (partial ev)
    with inv' kb_inv_nonneg [OF inv'] show ?thesis
      by (auto simp: sm_after_def kb_inv_def intro!: never_negative_neutral)
  next
    case (frame ev snap)
    let ?kb = "kb\<lparr>kb_sm := mt_step ev (kb_sm kb)\<rparr>"
    have en: "enumerates order (dom snap)" "enumerates tids (dom (fingers kb) \<union> dom snap)"
      "fresh_tids snap kb" using ok frame(2) by (simp_all add: iteration_ok_def)
    have "kb_inv ?kb now b" using inv' by (simp add: kb_inv_def)
    moreover have "fresh_tids snap ?kb"
      using en(3) by (simp add: fresh_tids_def pending_tids_def)
    ultimately obtain outs kb1 where
      one: "ProcessIncomingSnapshot now snap order tids ?kb = Inr (outs, kb1)"
        "kb_inv kb1 now b" "layout kb1 = layout kb" "kb_sm kb1 = mt_step ev (kb_sm kb)"
        "haptics_only outs"
        "dom (fingers kb1) = dom (fingers kb) \<union> (set order \<inter> dom snap) - (set tids - dom snap)"
      using ProcessIncomingSnapshot_inv [of ?kb now b order snap tids] enumeratesD(1) [OF en(1)]
      by auto
    have dom1: "dom (fingers kb1) = dom snap"
      using one(6) enumeratesD(2) [OF en(1)] enumeratesD(2) [OF en(2)] by auto
    from fire_pending_inv [OF one(2)] obtain outs' kb' where
      two: "fire_pending now kb1 = Inr (outs', kb')" "kb_inv kb' now (\<lambda>c. b c + net c outs')"
        "layout kb' = layout kb1" "kb_sm kb' = kb_sm kb1"
        "dom (fingers kb') = dom (fingers kb1)"
        "\<forall>e \<in> set (pending_events kb'). now < pe_deadline e"
        "keyboard_events (enabled_codes (layout kb1)) outs'" "never_negative b outs'" by blast
    have "never_negative b (outs @ outs')"
      using two(8) one(5) kb_inv_nonneg [OF one(2)]
      by (intro never_negative_append) (simp_all add: never_negative_haptics)
    with one two dom1 frame keyboard_events_subs(2) [OF one(5)] show ?thesis
      by (simp add: sm_after_def)
  qed
qed

end
