(* ===== verification/Keyboard_System.thy ===== *)
theory Keyboard_System
  imports Keyboard_Fire
begin

text \<open>
  The keyboard as a transition system: one step is one iteration of the \<open>Consume\<close> loop, with
  any event the touch panel may deliver, or a timeout, at any later time. The record of what
  has been sent so far is part of the configuration, so that the properties speak about the
  key events the rest of the system sees.
\<close>

section \<open>Configurations and steps\<close>

record kb_conf =
  conf_kb :: keyboard
  conf_clock :: timespec
  conf_sent :: "kb_output list"

definition conf_initial :: "key list \<Rightarrow> timespec \<Rightarrow> kb_conf" where
  "conf_initial ks t = \<lparr>conf_kb = kb_initial ks, conf_clock = t, conf_sent = []\<rparr>"

inductive kb_step :: "kb_conf \<Rightarrow> kb_conf \<Rightarrow> bool" where
  iteration:
    "iteration_ok (conf_clock s) now ready order tids (conf_kb s) \<Longrightarrow>
     consume_event now ready order tids (conf_kb s) = Inr (outs, kb') \<Longrightarrow>
     kb_step s \<lparr>conf_kb = kb', conf_clock = now, conf_sent = conf_sent s @ outs\<rparr>"

inductive_cases kb_stepE: "kb_step s s'"

definition reachable :: "key list \<Rightarrow> kb_conf \<Rightarrow> bool" where
  "reachable ks s \<longleftrightarrow> (\<exists>t. normal_ts t \<and> kb_step\<^sup>*\<^sup>* (conf_initial ks t) s)"

definition conf_inv :: "key list \<Rightarrow> kb_conf \<Rightarrow> bool" where
  "conf_inv ks s \<longleftrightarrow> layout (conf_kb s) = ks \<and> wf_mt (kb_sm (conf_kb s)) \<and>
     kb_inv (conf_kb s) (conf_clock s) (\<lambda>c. net c (conf_sent s)) \<and>
     keyboard_events (enabled_codes ks) (conf_sent s) \<and> never_negative (\<lambda>_. 0) (conf_sent s)"

lemma conf_inv_initial: "normal_ts t \<Longrightarrow> conf_inv ks (conf_initial ks t)"
  by (simp add: conf_inv_def conf_initial_def kb_initial_def kb_inv_def kinv_initial
      never_negative_def)

lemma conf_inv_iteration:
  assumes inv: "conf_inv ks s"
    and ok: "iteration_ok (conf_clock s) now ready order tids (conf_kb s)"
  shows "\<exists>outs kb'. consume_event now ready order tids (conf_kb s) = Inr (outs, kb') \<and>
    conf_inv ks \<lparr>conf_kb = kb', conf_clock = now, conf_sent = conf_sent s @ outs\<rparr> \<and>
    dom (fingers kb') = (case completed_frame ready (kb_sm (conf_kb s)) of
       None \<Rightarrow> dom (fingers (conf_kb s)) | Some snap \<Rightarrow> dom snap) \<and>
    (ready = None \<or> completed_frame ready (kb_sm (conf_kb s)) \<noteq> None \<longrightarrow>
       (\<forall>e \<in> set (pending_events kb'). now < pe_deadline e))"
proof -
  have i: "kb_inv (conf_kb s) (conf_clock s) (\<lambda>c. net c (conf_sent s))"
    using inv by (simp add: conf_inv_def)
  from consume_event_inv [OF i ok] obtain outs kb' where
    r: "consume_event now ready order tids (conf_kb s) = Inr (outs, kb')"
      "kb_inv kb' now (\<lambda>c. net c (conf_sent s) + net c outs)" "layout kb' = layout (conf_kb s)"
      "kb_sm kb' = sm_after ready (kb_sm (conf_kb s))"
      "dom (fingers kb') = (case completed_frame ready (kb_sm (conf_kb s)) of
         None \<Rightarrow> dom (fingers (conf_kb s)) | Some snap \<Rightarrow> dom snap)"
      "ready = None \<or> completed_frame ready (kb_sm (conf_kb s)) \<noteq> None \<longrightarrow>
         (\<forall>e \<in> set (pending_events kb'). now < pe_deadline e)"
      "keyboard_events (enabled_codes (layout (conf_kb s))) outs"
      "never_negative (\<lambda>c. net c (conf_sent s)) outs" by blast
  have "wf_mt (kb_sm kb')"
    using inv r(4) by (auto simp: conf_inv_def sm_after_def wf_mt_step split: option.splits)
  then have "conf_inv ks \<lparr>conf_kb = kb', conf_clock = now, conf_sent = conf_sent s @ outs\<rparr>"
    using inv r by (simp add: conf_inv_def never_negative_append)
  with r show ?thesis by blast
qed

interpretation kb_sys: invariant_system
  "\<lambda>s. \<exists>t. normal_ts t \<and> s = conf_initial ks t" kb_step "conf_inv ks" for ks
proof (unfold_locales, goal_cases)
  case (1 s)
  then show ?case using conf_inv_initial by blast
next
  case (2 s s')
  from 2(2) show ?case
  proof (rule kb_stepE)
    fix now ready order tids outs kb'
    assume "s' = \<lparr>conf_kb = kb', conf_clock = now, conf_sent = conf_sent s @ outs\<rparr>"
      "iteration_ok (conf_clock s) now ready order tids (conf_kb s)"
      "consume_event now ready order tids (conf_kb s) = Inr (outs, kb')"
    with conf_inv_iteration [OF 2(1)] show ?thesis by fastforce
  qed
qed

lemma reachable_inv: "reachable ks s \<Longrightarrow> conf_inv ks s"
  unfolding reachable_def using kb_sys.inv_reachable by blast

lemma reachable_kinv:
  "reachable ks s \<Longrightarrow> kinv ks (pending_events (conf_kb s)) (fingers (conf_kb s)) (conf_clock s)
     (\<lambda>c. net c (conf_sent s))"
  using reachable_inv by (fastforce simp: conf_inv_def kb_inv_def)

lemma reachable_initial: "normal_ts t \<Longrightarrow> reachable ks (conf_initial ks t)"
  by (auto simp: reachable_def)

lemma reachable_step: "reachable ks s \<Longrightarrow> kb_step s s' \<Longrightarrow> reachable ks s'"
  by (auto simp: reachable_def intro: rtranclp.rtrancl_into_rtrancl)

section \<open>A sample run\<close>

text \<open>
  One key (code \<open>c\<close> at \<open>[0,100) x [0,100)\<close>) and a finger that comes down on it with pressure
  \<open>p\<close>; the events before the end of the frame, then the frame.
\<close>

definition sample_key :: "int \<Rightarrow> key" where
  "sample_key c = \<lparr>key_event_code = c, key_event_code_fn = 0, key_xmin = 0, key_xmax = 100,
                 key_ymin = 0, key_ymax = 100\<rparr>"

definition touch_events :: "int \<Rightarrow> input_event list" where
  "touch_events p = [input_ev EV_ABS ABS_MT_TRACKING_ID 5, input_ev EV_ABS ABS_MT_POSITION_X 40,
     input_ev EV_ABS ABS_MT_POSITION_Y 60, input_ev EV_ABS ABS_MT_PRESSURE p]"

abbreviation (input) syn_report :: input_event where
  "syn_report \<equiv> input_ev EV_SYN SYN_REPORT 0"

lemma completed_frame_not_report:
  "\<not> is_report ev \<Longrightarrow> completed_frame (Some ev) sm = None"
  by (auto simp: completed_frame_def AddEvent_def is_report_def Let_def event_key_class_defs
      event_key_of_def split: option.splits prod.splits bool.splits if_splits)

lemma completed_frame_report:
  "\<not> dropping_events sm \<Longrightarrow> completed_frame (Some syn_report) sm = Some (FillSnapshot sm)"
  by (simp add: completed_frame_def AddEvent_def Let_def event_key_class_defs event_key_of_def)

lemma mt_step_report: "\<not> dropping_events sm \<Longrightarrow> mt_step syn_report sm = sm"
  by (simp add: mt_step_def AddEvent_def Let_def event_key_class_defs event_key_of_def)

lemma reachable_partial:
  assumes "reachable ks s" and "conf_clock s \<le> now" and "normal_ts now" and "\<not> is_report ev"
  shows "reachable ks (s\<lparr>conf_kb := (conf_kb s)\<lparr>kb_sm := mt_step ev (kb_sm (conf_kb s))\<rparr>,
                         conf_clock := now\<rparr>)"
proof (rule reachable_step [OF assms(1)])
  have c: "consume_event now (Some ev) [] [] (conf_kb s) =
      Inr ([], (conf_kb s)\<lparr>kb_sm := mt_step ev (kb_sm (conf_kb s))\<rparr>)"
    using completed_frame_not_report [OF assms(4), of "kb_sm (conf_kb s)"]
    by (cases rule: consume_event_cases [of "Some ev" now "[]" "[]" "conf_kb s"]) auto
  have "iteration_ok (conf_clock s) now (Some ev) [] [] (conf_kb s)"
    using assms completed_frame_not_report [OF assms(4)] by (simp add: iteration_ok_def)
  moreover have "\<lparr>conf_kb = (conf_kb s)\<lparr>kb_sm := mt_step ev (kb_sm (conf_kb s))\<rparr>,
      conf_clock = now, conf_sent = conf_sent s @ []\<rparr> =
    s\<lparr>conf_kb := (conf_kb s)\<lparr>kb_sm := mt_step ev (kb_sm (conf_kb s))\<rparr>, conf_clock := now\<rparr>"
    by (rule kb_conf.equality) simp_all
  ultimately show "kb_step s (s\<lparr>conf_kb := (conf_kb s)\<lparr>kb_sm := mt_step ev (kb_sm (conf_kb s))\<rparr>,
                       conf_clock := now\<rparr>)"
    using kb_step.intros c by metis
qed

lemma reachable_partials:
  "reachable ks s \<Longrightarrow> normal_ts (conf_clock s) \<Longrightarrow> \<forall>ev \<in> set evs. \<not> is_report ev \<Longrightarrow>
   reachable ks (s\<lparr>conf_kb := (conf_kb s)\<lparr>kb_sm := mt_run evs (kb_sm (conf_kb s))\<rparr>\<rparr>)"
proof (induction evs arbitrary: s)
  case Nil
  then show ?case by simp
next
  case (Cons ev evs)
  from reachable_partial [OF Cons.prems(1) order_refl Cons.prems(2), of ev] Cons.prems(3)
  have "reachable ks (s\<lparr>conf_kb := (conf_kb s)\<lparr>kb_sm := mt_step ev (kb_sm (conf_kb s))\<rparr>\<rparr>)"
    by simp
  from Cons.IH [OF this] Cons.prems show ?case by simp
qed

definition sample_sm :: "int \<Rightarrow> mt_state" where
  "sample_sm p = mt_run (touch_events p) mt_initial"

definition sample_kb :: "int \<Rightarrow> int \<Rightarrow> keyboard" where
  "sample_kb c p = (kb_initial [sample_key c])\<lparr>kb_sm := sample_sm p\<rparr>"

definition sample_finger :: "int \<Rightarrow> mt_finger" where
  "sample_finger p = \<lparr>finger_x = 40, finger_y = 60, finger_p = p, finger_touch_major = -1\<rparr>"

lemma sample_dropping [simp]: "\<not> dropping_events (sample_sm p)"
  by (simp add: sample_sm_def touch_events_def mt_step_synced mt_initial_def is_dropped_def
      event_key_of_def event_key_class_defs)

lemma sample_snapshot: "FillSnapshot (sample_sm p) = [5 \<mapsto> sample_finger p]"
  by (simp add: sample_sm_def touch_events_def mt_step_synced mt_initial_def is_dropped_def
      event_key_of_def event_key_class_defs FillSnapshot_def kNumSlots_def numeral_nat
      FindValueByEvent_def kSlotMissingValue_def slot_finger_def sample_finger_def Let_def)

definition sample_data :: "int \<Rightarrow> int \<Rightarrow> timespec \<Rightarrow> finger_data" where
  "sample_data c p now = \<lparr>arrival_time = now, max_pressure = p, max_touch_major = -1,
     starting_key_number = 0, event_code = c, down_sent = False,
     rejection_status = kNotRejectedYet\<rparr>"

definition sample_event :: "int \<Rightarrow> timespec \<Rightarrow> pending_event" where
  "sample_event c now = new_event c True (AddMsToTimespec now kEventDelayMS) 5"

definition pressed_kb :: "int \<Rightarrow> int \<Rightarrow> timespec \<Rightarrow> keyboard" where
  "pressed_kb c p now = (sample_kb c p)\<lparr>pending_events := [sample_event c now],
     fingers := [5 \<mapsto> sample_data c p now], fn_key_pressed := (c = KEY_FN)\<rparr>"

definition pressed_conf :: "int \<Rightarrow> int \<Rightarrow> timespec \<Rightarrow> kb_conf" where
  "pressed_conf c p now = \<lparr>conf_kb = pressed_kb c p now, conf_clock = now,
                         conf_sent = [Haptic 40 60]\<rparr>"

lemma later_than_now: "normal_ts now \<Longrightarrow> now < AddMsToTimespec now kEventDelayMS"
  by (simp add: less_to_ns normal_AddMs to_ns_AddMs kEventDelayMS_def)

lemma fire_loop_idle:
  "pending_events kb = [] \<or> now < pe_deadline (hd (pending_events kb)) \<Longrightarrow>
     fire_loop now kb = Inr ([], kb)"
  by (cases "pending_events kb") (auto simp: fire_loop.simps [of now kb])

lemma sample_press:
  assumes "normal_ts now"
  shows "consume_event now (Some syn_report) [5] [5] (sample_kb c p) =
    Inr ([Haptic 40 60], pressed_kb c p now)"
proof -
  have a: "AddEvent syn_report (Some Map.empty) (sample_sm p) =
      (True, Some [5 \<mapsto> sample_finger p], sample_sm p)"
    using sample_snapshot [of p]
    by (simp add: AddEvent_def Let_def event_key_class_defs event_key_of_def)
  have s: "kb_sm (sample_kb c p) = sample_sm p" by (simp add: sample_kb_def)
  have f: "fire_loop now (pressed_kb c p now) = Inr ([], pressed_kb c p now)"
    using later_than_now [OF assms]
    by (intro fire_loop_idle) (simp add: pressed_kb_def sample_event_def)
  have ar: "arriving_finger now 5 (sample_finger p) ((sample_kb c p)\<lparr>kb_sm := sample_sm p\<rparr>) =
      ([Haptic 40 60], pressed_kb c p now)"
    by (simp add: arriving_finger_def GenerateEventForArrivingFinger_def sample_kb_def
        kb_initial_def sample_finger_def sample_key_def Key_Contains_def kNoKey_def Let_def
        pressed_kb_def sample_event_def sample_data_def)
  have "ProcessIncomingSnapshot now [5 \<mapsto> sample_finger p] [5] [5]
      ((sample_kb c p)\<lparr>kb_sm := sample_sm p\<rparr>) = Inr ([Haptic 40 60], pressed_kb c p now)"
    using ar
    by (simp add: ProcessIncomingSnapshot_def process_finger_def sample_kb_def kb_initial_def)
      (simp add: missing_finger_def pressed_kb_def)
  with a f s show ?thesis
    by (simp add: consume_event_def fire_pending_def)
qed

lemma sample_reachable:
  assumes "normal_ts now"
  shows "reachable [sample_key c]
           \<lparr>conf_kb = sample_kb c p, conf_clock = now, conf_sent = []\<rparr>"
  using reachable_partials [OF reachable_initial [OF assms, of "[sample_key c]"], of "touch_events p"]
    assms
  by (simp add: conf_initial_def sample_kb_def sample_sm_def kb_initial_def touch_events_def
      is_report_def)

lemma sample_iteration_ok:
  "normal_ts now \<Longrightarrow> iteration_ok now now (Some syn_report) [5] [5] (sample_kb c p)"
  using completed_frame_report [of "sample_sm p"]
  by (simp add: iteration_ok_def sample_kb_def kb_initial_def sample_snapshot enumerates_def
      fresh_tids_def pending_tids_def kOldTID_def)

lemma pressed_reachable:
  assumes "normal_ts now" shows "reachable [sample_key c] (pressed_conf c p now)"
  using reachable_step [OF sample_reachable [OF assms, of c p]
      kb_step.intros [of "\<lparr>conf_kb = sample_kb c p, conf_clock = now, conf_sent = []\<rparr>", simplified,
        OF sample_iteration_ok [OF assms] sample_press [OF assms]]]
  by (simp add: pressed_conf_def)

end
