(* ===== verification/Keyboard_Safety.thy ===== *)
theory Keyboard_Safety
  imports Keyboard_System
begin

text \<open>
  Safety of the keyboard over all runs: it never fails, it sends nothing but events of keys
  of the layout, never a release without a press, and leaves no key stuck; the queue of
  pending events is ordered and tied to live fingers; the loop wakes up in time.
\<close>

definition sec1 :: timespec where "sec1 = Timespec 1 0"

lemma normal_sec1 [simp]: "normal_ts sec1"
  by (simp add: normal_ts_def sec1_def)

text \<open>
  C8: in every state the keyboard can reach, an iteration of the \<open>Consume\<close> loop, whatever
  event or timeout comes next, ends without an exception and without an access outside the
  layout, and a completed frame leaves exactly the fingers of the frame in the bookkeeping.
\<close>

theorem keyboard_never_fails:
  assumes "reachable ks s"
    and "iteration_ok (conf_clock s) now ready order tids (conf_kb s)"
  shows "\<exists>outs kb'. consume_event now ready order tids (conf_kb s) = Inr (outs, kb') \<and>
    dom (fingers kb') = (case completed_frame ready (kb_sm (conf_kb s)) of
      None \<Rightarrow> dom (fingers (conf_kb s)) | Some snap \<Rightarrow> dom snap)"
  using conf_inv_iteration [OF reachable_inv [OF assms(1)] assms(2)] by blast

theorem keyboard_never_fails_witness:
  "\<exists>outs kb'. consume_event sec1 (Some syn_report) [5] [5] (sample_kb 30 80) = Inr (outs, kb') \<and>
    dom (fingers kb') = {5}"
  using keyboard_never_fails [OF sample_reachable [OF normal_sec1, of 30 80],
      of sec1 "Some syn_report" "[5]" "[5]"]
    sample_iteration_ok [OF normal_sec1, of 30 80] completed_frame_report [of "sample_sm 80"]
    sample_snapshot [of 80]
  by (simp add: sample_kb_def)

text \<open>
  C7: whatever the keyboard has sent in a run is a haptic request, a report, or a press or
  release of a key code of the layout, and at no point of the run have more releases of a
  code been sent than presses.
\<close>

theorem keys_sent_are_sound:
  assumes "reachable ks s"
  shows "(\<forall>out \<in> set (conf_sent s). (\<exists>x y. out = Haptic x y) \<or> out = Emit EV_SYN SYN_REPORT 0 \<or>
      (\<exists>c \<in> enabled_codes ks. \<exists>v \<in> {0, 1}. out = Emit EV_KEY c v)) \<and>
    (\<forall>n c. count_list (take n (conf_sent s)) (Emit EV_KEY c 0)
         \<le> count_list (take n (conf_sent s)) (Emit EV_KEY c 1))"
  using reachable_inv [OF assms]
  by (simp add: conf_inv_def keyboard_events_def never_negative_def net_def)

theorem keys_sent_are_sound_witness:
  "\<forall>n c. count_list (take n (conf_sent (pressed_conf 30 80 sec1))) (Emit EV_KEY c 0)
       \<le> count_list (take n (conf_sent (pressed_conf 30 80 sec1))) (Emit EV_KEY c 1)"
  using keys_sent_are_sound [OF pressed_reachable [OF normal_sec1, of 30 80]] by blast

text \<open>
  C6: the presses of a code that have not been released are at least the fingers that hold it
  down, and exactly those once nothing is pending; so with no finger on the panel and nothing
  pending no key is down.
\<close>

theorem no_stuck_keys:
  assumes "reachable ks s"
  shows "held c (fingers (conf_kb s)) \<le> net c (conf_sent s) \<and>
    (pending_events (conf_kb s) = [] \<longrightarrow> net c (conf_sent s) = held c (fingers (conf_kb s))) \<and>
    (pending_events (conf_kb s) = [] \<and> fingers (conf_kb s) = Map.empty \<longrightarrow> net c (conf_sent s) = 0)"
proof -
  have cov: "covered c (net c (conf_sent s) - held c (fingers (conf_kb s)))
      (pending_events (conf_kb s))"
    using kinvD(9) [OF reachable_kinv [OF assms]] by simp
  from cov show ?thesis using covered_nonneg [OF cov] by (auto simp: covered_def)
qed

theorem no_stuck_keys_witness:
  "held 30 (fingers (pressed_kb 30 80 sec1)) \<le> net 30 (conf_sent (pressed_conf 30 80 sec1))"
  using no_stuck_keys [OF pressed_reachable [OF normal_sec1, of 30 80], of 30]
  by (simp add: pressed_conf_def)

lemma fire_loop_pending_subset:
  "fire_loop now kb = Inr (outs, kb') \<Longrightarrow> set (pending_events kb') \<subseteq> set (pending_events kb)"
proof (induction now kb arbitrary: outs kb' rule: fire_loop.induct)
  case (1 now kb)
  show ?case
  proof (cases "pending_events kb")
    case Nil
    with "1.prems" show ?thesis by (simp add: fire_loop.simps [of now kb])
  next
    case (Cons e rest)
    show ?thesis
    proof (cases "now < pe_deadline e")
      case True
      with Cons "1.prems" show ?thesis by (simp add: fire_loop.simps [of now kb])
    next
      case False
      from "1.prems" Cons False obtain outs1 kb1 outs2 where
        one: "fire_event e (kb\<lparr>pending_events := rest\<rparr>) = Inr (outs1, kb1)"
        and two: "fire_loop now kb1 = Inr (outs2, kb')"
        by (auto simp: fire_loop.simps [of now kb] split: sum.splits)
      from one have "set (pending_events kb1) \<subseteq> set rest"
        by (auto simp: fire_event_def RejectFinger_def erase_tid_filter
            split: option.splits sum.splits if_splits)
      with "1.IH" [OF Cons _ one refl two] False Cons show ?thesis by auto
    qed
  qed
qed

text \<open>
  C18: fifty milliseconds after the last iteration everything pending is due: a timeout at or
  after that time empties the queue, and then the codes that are down are exactly the codes
  of the fingers whose press was sent and that are still on their key.
\<close>

theorem timeout_settles_the_keyboard:
  assumes "reachable ks s" and "normal_ts now"
    and "AddMsToTimespec (conf_clock s) kEventDelayMS \<le> now"
  shows "\<exists>outs kb'. consume_event now None [] [] (conf_kb s) = Inr (outs, kb') \<and>
    pending_events kb' = [] \<and>
    (\<forall>c. net c (conf_sent s @ outs) = held c (fingers kb'))"
proof -
  note inv = reachable_kinv [OF assms(1)]
  have t: "normal_ts (conf_clock s)" by (rule kinvD(1) [OF inv])
  have "iteration_ok (conf_clock s) now None [] [] (conf_kb s)"
    using assms(2,3) less_imp_le [OF later_than_now [OF t]]
    by (auto simp: iteration_ok_def completed_frame_def)
  from conf_inv_iteration [OF reachable_inv [OF assms(1)] this] obtain outs kb' where
    r: "consume_event now None [] [] (conf_kb s) = Inr (outs, kb')"
      "conf_inv ks \<lparr>conf_kb = kb', conf_clock = now, conf_sent = conf_sent s @ outs\<rparr>"
      "\<forall>e \<in> set (pending_events kb'). now < pe_deadline e" by auto
  from r(1) have "set (pending_events kb') \<subseteq> set (pending_events (conf_kb s))"
    by (auto simp: consume_event_def fire_pending_def dest: fire_loop_pending_subset
        split: sum.splits)
  moreover have "pe_deadline e \<le> now" if "e \<in> set (pending_events (conf_kb s))" for e
    using kinvD(3) [OF inv that] assms(3) by (auto simp: event_ok_def)
  ultimately have nil: "pending_events kb' = []"
    using r(3) by (cases "pending_events kb'") force+
  have "net c (conf_sent s @ outs) = held c (fingers kb')" for c
    using r(2) nil kinvD(9) by (fastforce simp: conf_inv_def kb_inv_def covered_def)
  with r(1) nil show ?thesis by blast
qed

theorem timeout_settles_the_keyboard_witness:
  "\<exists>outs kb'. consume_event (Timespec 2 0) None [] [] (pressed_kb 30 80 sec1) = Inr (outs, kb') \<and>
     pending_events kb' = []"
proof -
  have "AddMsToTimespec sec1 kEventDelayMS \<le> Timespec 2 0"
    using le_to_ns [OF normal_AddMs [OF normal_sec1], of kEventDelayMS "Timespec 2 0"]
    by (simp add: to_ns_AddMs kEventDelayMS_def normal_ts_def) (simp add: to_ns_def sec1_def)
  with timeout_settles_the_keyboard [OF pressed_reachable [OF normal_sec1, of 30 80],
      of "Timespec 2 0"]
  show ?thesis by (auto simp: normal_ts_def pressed_conf_def)
qed

text \<open>
  The events for which the firing loop reports missing finger data (its \<^verbatim>\<open>LOG(ERROR)\<close>): those it
  pops while their finger is unknown and that are not guaranteed. \<open>loop_reports\<close> follows the
  loop from a given state, \<open>iteration_reports\<close> a whole iteration of \<open>Consume\<close>, so that it sees
  the queue as the snapshot has left it.
\<close>

function loop_reports :: "timespec \<Rightarrow> keyboard \<Rightarrow> pending_event list" where
  "loop_reports now kb =
     (case pending_events kb of
        [] \<Rightarrow> []
      | e # rest \<Rightarrow>
          if TimespecIsLater (pe_deadline e) now then []
          else (if fingers kb (pe_tid e) = None \<and> \<not> pe_guaranteed e then [e] else []) @
               (case fire_event e (kb\<lparr>pending_events := rest\<rparr>) of
                  Inl x \<Rightarrow> []
                | Inr (outs, kb1) \<Rightarrow> loop_reports now kb1))"
  by pat_completeness auto
termination
  by (relation "measure (\<lambda>(now, kb). length (pending_events kb))")
    (auto dest: fire_event_pending_length)

declare loop_reports.simps [simp del]

definition iteration_reports ::
  "timespec \<Rightarrow> input_event option \<Rightarrow> int list \<Rightarrow> int list \<Rightarrow> keyboard \<Rightarrow> pending_event list" where
  "iteration_reports now ready order tids kb =
     (case ready of
        None \<Rightarrow> loop_reports now kb
      | Some ev \<Rightarrow>
          (case AddEvent ev (Some Map.empty) (kb_sm kb) of
             (True, Some snapshot, sm') \<Rightarrow>
               (case ProcessIncomingSnapshot now snapshot order tids (kb\<lparr>kb_sm := sm'\<rparr>) of
                  Inl x \<Rightarrow> []
                | Inr (outs, kb2) \<Rightarrow> loop_reports now kb2)
           | _ \<Rightarrow> []))"

lemma loop_reports_none: "kb_inv kb t b \<Longrightarrow> loop_reports t kb = []"
proof (induction t kb arbitrary: b rule: loop_reports.induct)
  case (1 t kb)
  show ?case
  proof (cases "pending_events kb = [] \<or> t < pe_deadline (hd (pending_events kb))")
    case True
    then show ?thesis by (cases "pending_events kb") (auto simp: loop_reports.simps [of t kb])
  next
    case False
    then obtain e rest where q: "pending_events kb = e # rest" "\<not> t < pe_deadline e"
      by (cases "pending_events kb") auto
    have inv: "kinv (layout kb) (e # rest) (fingers kb) t b"
      using "1.prems" q by (simp add: kb_inv_def)
    have "fingers kb (pe_tid e) = None \<Longrightarrow> pe_guaranteed e"
      using kinvD(3,4) [OF inv, of e] by (auto simp: event_ok_def linked_def split: if_splits)
    moreover from fire_event_inv [of "kb\<lparr>pending_events := rest\<rparr>" e t b] inv obtain outs kb1 where
      "fire_event e (kb\<lparr>pending_events := rest\<rparr>) = Inr (outs, kb1)"
      "kb_inv kb1 t (\<lambda>c. b c + net c outs)" by auto
    ultimately show ?thesis
      using "1.IH" [OF q(1)] q by (auto simp: loop_reports.simps [of t kb])
  qed
qed

lemma iteration_reports_none:
  assumes "reachable ks s" and ok: "iteration_ok (conf_clock s) now ready order tids (conf_kb s)"
  shows "iteration_reports now ready order tids (conf_kb s) = []"
proof -
  let ?kb = "conf_kb s" and ?b = "\<lambda>c. net c (conf_sent s)"
  have inv: "kb_inv ?kb now ?b"
    using reachable_inv [OF assms(1)] ok kinv_later unfolding conf_inv_def kb_inv_def iteration_ok_def
    by blast
  show ?thesis
  proof (cases ready)
    case None
    with loop_reports_none [OF inv] show ?thesis by (simp add: iteration_reports_def)
  next
    case (Some ev)
    have "loop_reports now kb2 = []"
      if "AddEvent ev (Some Map.empty) (kb_sm ?kb) = (True, Some snap, sm')"
        and run: "ProcessIncomingSnapshot now snap order tids (?kb\<lparr>kb_sm := sm'\<rparr>) = Inr (outs, kb2)"
      for snap sm' outs kb2
    proof -
      have "distinct order" "fresh_tids snap (?kb\<lparr>kb_sm := sm'\<rparr>)"
        using ok that(1) Some
        by (simp_all add: iteration_ok_def completed_frame_def enumerates_def fresh_tids_def pending_tids_def)
      moreover have "kb_inv (?kb\<lparr>kb_sm := sm'\<rparr>) now ?b" using inv by (simp add: kb_inv_def)
      ultimately have "kb_inv kb2 now ?b"
        using ProcessIncomingSnapshot_inv [of "?kb\<lparr>kb_sm := sm'\<rparr>" now ?b order snap tids] run by auto
      then show ?thesis by (rule loop_reports_none)
    qed
    with Some show ?thesis
      by (simp add: iteration_reports_def split: prod.split option.split bool.split sum.split)
  qed
qed

text \<open>
  C19: the queue of pending events is always ordered by deadline, holds at most one key-down
  per finger, and every key-down in it belongs to a finger that is still on its key and not
  rejected, or is guaranteed. The branch of the firing loop that reports missing finger data
  is dead: no iteration from a reachable state, a timeout or a frame, pops an event that is
  not guaranteed while its finger is unknown.
\<close>

theorem pending_queue_is_consistent:
  assumes "reachable ks s"
  shows "sorted (map pe_deadline (pending_events (conf_kb s))) \<and>
    distinct (map pe_tid (filter pe_down (pending_events (conf_kb s)))) \<and>
    (\<forall>e \<in> set (pending_events (conf_kb s)).
       (fingers (conf_kb s) (pe_tid e) = None \<longrightarrow> pe_guaranteed e) \<and>
       (\<forall>d. fingers (conf_kb s) (pe_tid e) = Some d \<longrightarrow>
          pe_down e \<and> rejection_status d = kNotRejectedYet \<and> \<not> down_sent d \<and>
          pe_code e = event_code d)) \<and>
    (\<forall>now ready order tids. iteration_ok (conf_clock s) now ready order tids (conf_kb s) \<longrightarrow>
       iteration_reports now ready order tids (conf_kb s) = [])"
proof -
  note inv = reachable_kinv [OF assms(1)]
  have "(fingers (conf_kb s) (pe_tid e) = None \<longrightarrow> pe_guaranteed e) \<and>
       (\<forall>d. fingers (conf_kb s) (pe_tid e) = Some d \<longrightarrow>
          pe_down e \<and> rejection_status d = kNotRejectedYet \<and> \<not> down_sent d \<and>
          pe_code e = event_code d)" if e: "e \<in> set (pending_events (conf_kb s))" for e
  proof -
    have "event_ok ks (conf_clock s) e" "linked (fingers (conf_kb s)) e"
      using kinvD(3,4) [OF inv e] by blast+
    moreover have "pe_down e" if "fingers (conf_kb s) (pe_tid e) = Some d" for d
      using kinv_own_event(1) [OF inv that e] by simp
    ultimately show ?thesis by (auto simp: event_ok_def linked_def split: if_splits)
  qed
  then show ?thesis
    using kinvD(2,5) [OF inv] iteration_reports_none [OF assms] by blast
qed

theorem pending_queue_is_consistent_witness:
  "pe_down (sample_event 30 sec1) \<and> pe_code (sample_event 30 sec1) = 30 \<and>
   iteration_reports (Timespec 2 0) None [] [] (pressed_kb 30 80 sec1) = []"
proof -
  have le: "sec1 \<le> Timespec 2 0"
    by (simp add: le_to_ns normal_ts_def sec1_def) (simp add: to_ns_def)
  have ok: "iteration_ok (conf_clock (pressed_conf 30 80 sec1)) (Timespec 2 0) None [] []
      (conf_kb (pressed_conf 30 80 sec1))"
    using le by (simp add: iteration_ok_def completed_frame_def normal_ts_def pressed_conf_def)
  from pending_queue_is_consistent [OF pressed_reachable [OF normal_sec1, of 30 80]] ok show ?thesis
    by (auto simp: pressed_conf_def) (auto simp: pressed_kb_def sample_data_def sample_event_def)
qed

section \<open>Waiting\<close>

lemma timeout_ms_bounds:
  fixes ds dn :: int
  shows "ds * 1000000000 + dn - 1000000 < (ds * 1000 + c_quot dn 1000000) * 1000000"
    and "(ds * 1000 + c_quot dn 1000000) * 1000000 < ds * 1000000000 + dn + 1000000"
  using c_quot_bounds [of 1000000 dn] by (simp_all add: algebra_simps)

lemma wait_covers_deadline:
  assumes "reachable ks s" and "normal_ts now" and "conf_clock s \<le> now"
    and q: "pending_events (conf_kb s) = e # q"
    and "to_ns now \<le> to_ns (pe_deadline e) + 24 * 86400 * 1000000000"
  shows "0 \<le> consume_timeout now (e # q) \<and> consume_timeout now (e # q) \<le> 51 \<and>
    to_ns (pe_deadline e) \<le> to_ns now + consume_timeout now (e # q) * 1000000 \<and>
    (now < pe_deadline e \<longrightarrow>
      to_ns now + consume_timeout now (e # q) * 1000000 < to_ns (pe_deadline e) + 2000000)"
proof -
  note inv = reachable_kinv [OF assms(1)]
  note t = kinvD(1) [OF inv]
  have e: "normal_ts (pe_deadline e)" "pe_deadline e \<le> AddMsToTimespec (conf_clock s) kEventDelayMS"
    using kinvD(3) [OF inv, of e] q by (simp_all add: event_ok_def)
  define D where "D = to_ns (pe_deadline e) - to_ns now"
  define m where "m = (tv_sec (pe_deadline e) - tv_sec now) * 1000 +
                       c_quot (tv_nsec (pe_deadline e) - tv_nsec now) 1000000"
  have m: "D - 1000000 < m * 1000000" "m * 1000000 < D + 1000000"
    using timeout_ms_bounds [of "tv_sec (pe_deadline e) - tv_sec now"
        "tv_nsec (pe_deadline e) - tv_nsec now"]
    unfolding D_def m_def to_ns_def by (simp_all add: algebra_simps)
  have hi: "D \<le> 50 * 1000000"
    using e(2) assms(3) t e(1) assms(2) unfolding D_def
    by (simp add: le_to_ns normal_AddMs to_ns_AddMs kEventDelayMS_def)
  have "int32 m" unfolding int32_def using m hi assms(5) by (simp add: D_def)
  then have ct: "consume_timeout now (e # q) = (if m + 1 < 0 then 1 else m + 1)"
    by (simp add: consume_timeout_def m_def Let_def to_int32_id)
  have "now < pe_deadline e \<longleftrightarrow> 0 < D"
    using less_to_ns [OF assms(2) e(1)] by (simp add: D_def)
  moreover have "to_ns (pe_deadline e) = to_ns now + D" by (simp add: D_def)
  ultimately show ?thesis
    using m hi unfolding ct by auto
qed

text \<open>A deadline that is reached or overdue costs a wait of at most a millisecond.\<close>

lemma overdue_wait:
  assumes "normal_ts now" and "normal_ts (pe_deadline e)" and "pe_deadline e \<le> now"
    and "to_ns now \<le> to_ns (pe_deadline e) + 24 * 86400 * 1000000000"
  shows "consume_timeout now (e # q) \<le> 1"
proof -
  define D where "D = to_ns (pe_deadline e) - to_ns now"
  define m where "m = (tv_sec (pe_deadline e) - tv_sec now) * 1000 +
                       c_quot (tv_nsec (pe_deadline e) - tv_nsec now) 1000000"
  have m: "D - 1000000 < m * 1000000" "m * 1000000 < D + 1000000"
    using timeout_ms_bounds [of "tv_sec (pe_deadline e) - tv_sec now"
        "tv_nsec (pe_deadline e) - tv_nsec now"]
    unfolding D_def m_def to_ns_def by (simp_all add: algebra_simps)
  have "D \<le> 0" using assms(3) le_to_ns [OF assms(2,1)] by (simp add: D_def)
  with m have "m \<le> 0" by linarith
  moreover have "int32 m" unfolding int32_def using m \<open>D \<le> 0\<close> assms(4) by (simp add: D_def)
  ultimately show ?thesis by (simp add: consume_timeout_def m_def Let_def to_int32_id)
qed

text \<open>
  C20: the wait the loop computes while events are pending is between 0 and 51 ms, and when it
  ends the first deadline has passed. It ends less than 2 ms after the deadline if the deadline
  is still ahead, and it is at most 1 ms if the deadline is reached or overdue; so it always
  ends less than 2 ms after the later of the deadline and the moment it was computed. All this
  as long as the deadline is not overdue by more than 24 days, where the millisecond count
  leaves the \<^verbatim>\<open>int\<close>.
\<close>

theorem wait_ends_after_the_deadline:
  assumes "reachable ks s" and "normal_ts now" and "conf_clock s \<le> now"
    and q: "pending_events (conf_kb s) = e # q"
    and "to_ns now \<le> to_ns (pe_deadline e) + 24 * 86400 * 1000000000"
  shows "0 \<le> consume_timeout now (e # q) \<and> consume_timeout now (e # q) \<le> 51 \<and>
    to_ns (pe_deadline e) \<le> to_ns now + consume_timeout now (e # q) * 1000000 \<and>
    (now < pe_deadline e \<longrightarrow>
      to_ns now + consume_timeout now (e # q) * 1000000 < to_ns (pe_deadline e) + 2000000) \<and>
    (pe_deadline e \<le> now \<longrightarrow> consume_timeout now (e # q) \<le> 1) \<and>
    to_ns now + consume_timeout now (e # q) * 1000000 <
      max (to_ns (pe_deadline e)) (to_ns now) + 2000000"
proof -
  have n: "normal_ts (pe_deadline e)"
    using kinvD(3) [OF reachable_kinv [OF assms(1)], of e] q by (simp add: event_ok_def)
  note w = wait_covers_deadline [OF assms]
  show ?thesis
  proof (cases "now < pe_deadline e")
    case True
    then have "to_ns now < to_ns (pe_deadline e)" "\<not> pe_deadline e \<le> now"
      using less_to_ns [OF assms(2) n] by auto
    with w True show ?thesis by simp
  next
    case False
    then have late: "consume_timeout now (e # q) \<le> 1"
      using overdue_wait [OF assms(2) n _ assms(5)] by simp
    then have "to_ns now + consume_timeout now (e # q) * 1000000 <
        max (to_ns (pe_deadline e)) (to_ns now) + 2000000" by linarith
    with late w False show ?thesis by simp
  qed
qed

theorem wait_ends_after_the_deadline_witness:
  "(consume_timeout sec1 [sample_event 30 sec1] \<le> 51 \<and>
    to_ns (pe_deadline (sample_event 30 sec1)) \<le>
      to_ns sec1 + consume_timeout sec1 [sample_event 30 sec1] * 1000000) \<and>
   consume_timeout (Timespec 2 0) [sample_event 30 sec1] \<le> 1"
proof -
  have late: "pe_deadline (sample_event 30 sec1) = Timespec 1 50000000"
    by (simp add: sample_event_def kEventDelayMS_def AddMsToTimespec_def sec1_def carry_nsec.simps)
  have le: "Timespec 1 50000000 \<le> Timespec 2 0" "sec1 \<le> Timespec 2 0"
    by (simp_all add: le_to_ns normal_ts_def sec1_def) (simp_all add: to_ns_def)
  note press = pressed_reachable [OF normal_sec1, of 30 80]
  from wait_ends_after_the_deadline [OF press, of sec1 "sample_event 30 sec1" "[]"]
    wait_ends_after_the_deadline [OF press, of "Timespec 2 0" "sample_event 30 sec1" "[]"] late le
  show ?thesis
    by (simp add: pressed_conf_def pressed_kb_def) (simp add: to_ns_def sec1_def normal_ts_def)
qed

end
