(* ===== verification/Keyboard_Press.thy ===== *)
theory Keyboard_Press
  imports Keyboard_Safety
begin

text \<open>
  What happens to a press: which key an arriving finger selects, when the haptic motor is
  asked to tick, how the pending key-down is decided at its deadline, and the Fn modifier.
\<close>

section \<open>Deciding a press\<close>

lemma fire_event_other:
  assumes "fire_event e kb = Inr (outs, kb1)" and "pe_tid e \<noteq> tid"
  shows "fingers kb1 tid = fingers kb tid" and "layout kb1 = layout kb"
    and "x \<in> set (pending_events kb1) \<Longrightarrow> x \<in> set (pending_events kb)"
  using assms
  by (auto simp: fire_event_def RejectFinger_def erase_tid_filter
      split: option.splits sum.splits if_splits)

lemma fire_loop_other:
  "fire_loop now kb = Inr (outs, kb') \<Longrightarrow> \<forall>e \<in> set (pending_events kb). pe_tid e \<noteq> tid \<Longrightarrow>
     fingers kb' tid = fingers kb tid"
proof (induction now kb arbitrary: outs kb' rule: fire_loop.induct)
  case (1 now kb)
  show ?case
  proof (cases "pending_events kb = [] \<or> now < pe_deadline (hd (pending_events kb))")
    case True
    with fire_loop_idle [OF True] "1.prems" show ?thesis by simp
  next
    case False
    then obtain e rest where q: "pending_events kb = e # rest" "\<not> now < pe_deadline e"
      by (cases "pending_events kb") auto
    from "1.prems"(1) q obtain outs1 kb1 outs2 where
      one: "fire_event e (kb\<lparr>pending_events := rest\<rparr>) = Inr (outs1, kb1)"
      and two: "fire_loop now kb1 = Inr (outs2, kb')"
      by (auto simp: fire_loop.simps [of now kb] split: sum.splits)
    have e: "pe_tid e \<noteq> tid" using "1.prems"(2) q by simp
    have "\<forall>x \<in> set (pending_events kb1). pe_tid x \<noteq> tid"
      using fire_event_other(3) [OF one e] "1.prems"(2) q by auto
    with "1.IH" [OF q(1) _ one refl two] q fire_event_other(1) [OF one e] show ?thesis by simp
  qed
qed

lemma tap_rejection_layout: "layout kb1 = layout kb \<Longrightarrow> tap_rejection kb1 d = tap_rejection kb d"
  by (simp add: tap_rejection_def layout_code_def)

text \<open>
  What a press must satisfy, in the numbers of the source: on panels that report pressure its
  maximum lies between 50 and 110, on others its largest diameter between 300 and 3000; the
  upper bound does not apply to the space bar (code 57). \<open>code\<close> is the key code of the key the
  finger started on. A press outside the range is refused for the quantity that was measured.
\<close>

definition press_in_range :: "int \<Rightarrow> finger_data \<Rightarrow> bool" where
  "press_in_range code d \<longleftrightarrow>
     (if max_pressure d = -1
      then 300 \<le> max_touch_major d \<and> (max_touch_major d \<le> 3000 \<or> code = 57)
      else 50 \<le> max_pressure d \<and> (max_pressure d \<le> 110 \<or> code = 57))"

definition refusal :: "finger_data \<Rightarrow> RejectionStatus" where
  "refusal d = (if max_pressure d = -1 then kRejectTouchDiameter else kRejectPressure)"

abbreviation starting_code :: "key list \<Rightarrow> finger_data \<Rightarrow> int" where
  "starting_code ks d \<equiv> key_event_code (ks ! nat (starting_key_number d))"

lemma tap_rejection_range:
  assumes "finger_ok (layout kb) q tid d" and "rejection_status d = kNotRejectedYet"
  shows "tap_rejection kb d =
    Inr (if press_in_range (starting_code (layout kb) d) d then None else Some (refusal d))"
  using assms
  by (auto simp: tap_rejection_def finger_ok_def layout_code_def press_in_range_def refusal_def
      kMinTapPressure_def kMaxTapPressure_def kMinTapTouchDiameter_def kMaxTapTouchDiameter_def)

definition verdict :: "keyboard \<Rightarrow> int \<Rightarrow> finger_data \<Rightarrow> kb_output list \<Rightarrow> keyboard \<Rightarrow> bool" where
  "verdict kb tid d outs kb' \<longleftrightarrow>
     (tap_rejection kb d = Inr None \<longrightarrow>
        Emit EV_KEY (event_code d) 1 \<in> set outs \<and>
        fingers kb' tid = Some (d\<lparr>down_sent := True\<rparr>)) \<and>
     (\<forall>r. tap_rejection kb d = Inr (Some r) \<longrightarrow>
        fingers kb' tid = Some (d\<lparr>rejection_status := r\<rparr>))"

lemma fire_own_event:
  assumes inv: "kinv (layout kb) (e # rest) (fingers kb) t b" and own: "fingers kb (pe_tid e) = Some d"
    and "rejection_status d = kNotRejectedYet"
    and one: "fire_event e (kb\<lparr>pending_events := rest\<rparr>) = Inr (outs1, kb1)"
    and inv1: "kb_inv kb1 t b1" and two: "fire_loop t kb1 = Inr (outs2, kb')"
  shows "verdict kb (pe_tid e) d (outs1 @ outs2) kb'"
proof -
  have tap: "tap_rejection (kb\<lparr>pending_events := rest\<rparr>) d = tap_rejection kb d"
    by (rule tap_rejection_layout) simp
  have down: "pe_down e" "pe_code e = event_code d" using kinv_own_event [OF inv own, of e] by auto
  have rest: "fingers kb' (pe_tid e) = fingers kb1 (pe_tid e)"
    if "fingers kb1 (pe_tid e) = Some d1" "rejection_status d1 \<noteq> kNotRejectedYet \<or> down_sent d1" for d1
    using fire_loop_other [OF two] kinv_no_event [OF inv1 [unfolded kb_inv_def] that] by blast
  have send: "outs1 = [key_output e] \<and> fingers kb1 (pe_tid e) = Some (d\<lparr>down_sent := True\<rparr>)"
    if "tap_rejection kb d = Inr None"
    using one own down that tap by (auto simp: fire_event_def)
  have reject: "fingers kb1 (pe_tid e) = Some (d\<lparr>rejection_status := r\<rparr>) \<and> r \<noteq> kNotRejectedYet"
    if "tap_rejection kb d = Inr (Some r)" for r
    using one own that tap tap_rejection_ok [OF kinvD(8) [OF inv own] assms(3)]
    by (auto simp: fire_event_def RejectFinger_def)
  show ?thesis
    using rest send reject down by (fastforce simp: verdict_def key_output_def)
qed

text \<open>What the firing loop does to a finger whose press is not decided: it decides it or leaves it.\<close>

lemma fire_loop_progress:
  assumes "kb_inv kb t b" and "fingers kb tid = Some d"
    and "rejection_status d = kNotRejectedYet" and "\<not> down_sent d"
    and "fire_loop t kb = Inr (outs, kb')"
  shows "verdict kb tid d outs kb' \<or>
    fingers kb' tid = Some d \<and> (\<exists>e \<in> set (pending_events kb). pe_tid e = tid \<and> t < pe_deadline e)"
  using assms
proof (induction t kb arbitrary: b outs kb' rule: fire_loop.induct)
  case (1 t kb)
  note inv = "1.prems"(1) [unfolded kb_inv_def]
  from kinvD(8) [OF inv "1.prems"(2)] "1.prems"(3,4) obtain x where
    x: "x \<in> set (pending_events kb)" "pe_tid x = tid" by (auto simp: finger_ok_def)
  then obtain e rest where q: "pending_events kb = e # rest"
    by (cases "pending_events kb") auto
  have first: "pe_deadline e \<le> pe_deadline x" using kinvD(2) [OF inv] x q by auto
  show ?case
  proof (cases "t < pe_deadline e")
    case True
    with "1.prems"(5) q have "kb' = kb" by (simp add: fire_loop.simps [of t kb])
    moreover have "t < pe_deadline x" using True first by order
    ultimately show ?thesis using x "1.prems"(2) by auto
  next
    case due: False
    let ?kb = "kb\<lparr>pending_events := rest\<rparr>"
    from "1.prems"(5) q due obtain outs1 kb1 outs2 where
      one: "fire_event e ?kb = Inr (outs1, kb1)"
      and two: "fire_loop t kb1 = Inr (outs2, kb')" and outs: "outs = outs1 @ outs2"
      by (auto simp: fire_loop.simps [of t kb] split: sum.splits)
    from fire_event_inv [of ?kb e t b] inv q one
    have inv1: "kb_inv kb1 t (\<lambda>c. b c + net c outs1)" by simp
    show ?thesis
    proof (cases "pe_tid e = tid")
      case False
      have "tap_rejection kb1 d = tap_rejection kb d"
        using fire_event_other(2) [OF one False] by (intro tap_rejection_layout) simp
      moreover have "verdict kb1 tid d outs2 kb' \<or>
          fingers kb' tid = Some d \<and> (\<exists>e \<in> set (pending_events kb1). pe_tid e = tid \<and> t < pe_deadline e)"
        using "1.IH" [OF q _ one refl inv1 _ _ _ two] due "1.prems"(2-4)
          fire_event_other(1) [OF one False] by auto
      moreover have "set (pending_events kb1) \<subseteq> set (pending_events kb)"
        using fire_event_other(3) [OF one False] q by auto
      ultimately show ?thesis by (auto simp: verdict_def outs)
    next
      case True
      have "verdict kb (pe_tid e) d (outs1 @ outs2) kb'"
        by (rule fire_own_event [OF _ _ "1.prems"(3) one inv1 two]) (use inv q "1.prems"(2) True in simp_all)
      then show ?thesis by (simp add: True outs)
    qed
  qed
qed

lemma fire_loop_verdict:
  assumes "kb_inv kb t b" and "fingers kb tid = Some d"
    and "rejection_status d = kNotRejectedYet" and "\<not> down_sent d"
    and "\<forall>e \<in> set (pending_events kb). pe_tid e = tid \<longrightarrow> pe_deadline e \<le> t"
    and "fire_loop t kb = Inr (outs, kb')"
  shows "verdict kb tid d outs kb'"
  using fire_loop_progress [OF assms(1-4,6)] assms(5) by force

text \<open>
  C11: a finger that stays on its key until the deadline of its key-down is decided there. If
  its maximal pressure is between 50 and 110 (on panels without pressure, its largest diameter
  between 300 and 3000; the space bar has no upper bound), the press of its code is sent. If
  not, the finger is marked rejected for its pressure or its diameter. Nothing else can happen.
\<close>

theorem deadline_decides_the_press:
  assumes "reachable ks s" and "fingers (conf_kb s) tid = Some d"
    and "rejection_status d = kNotRejectedYet" and "\<not> down_sent d"
    and "\<And>e. e \<in> set (pending_events (conf_kb s)) \<Longrightarrow> pe_tid e = tid \<Longrightarrow> pe_deadline e \<le> now"
    and "conf_clock s \<le> now" and "normal_ts now"
  shows "0 \<le> starting_key_number d \<and> starting_key_number d < int (length ks) \<and>
    (\<exists>outs kb'. consume_event now None [] [] (conf_kb s) = Inr (outs, kb') \<and>
      (if press_in_range (key_event_code (ks ! nat (starting_key_number d))) d
       then Emit EV_KEY (event_code d) 1 \<in> set outs \<and>
            fingers kb' tid = Some (d\<lparr>down_sent := True\<rparr>)
       else fingers kb' tid = Some (d\<lparr>rejection_status :=
              (if max_pressure d = -1 then kRejectTouchDiameter else kRejectPressure)\<rparr>)))"
proof -
  note inv = reachable_kinv [OF assms(1)]
  have lay: "layout (conf_kb s) = ks" using reachable_inv [OF assms(1)] by (simp add: conf_inv_def)
  have inv': "kb_inv (conf_kb s) now (\<lambda>c. net c (conf_sent s))"
    using kinv_later [OF inv assms(6,7)] lay by (simp add: kb_inv_def)
  from fire_loop_inv [OF inv'] obtain outs kb' where
    run: "fire_loop now (conf_kb s) = Inr (outs, kb')" by blast
  from fire_loop_verdict [OF inv' assms(2-4) _ run] assms(5)
  have v: "verdict (conf_kb s) tid d outs kb'" by blast
  note ok = kinvD(8) [OF inv assms(2)]
  from tap_rejection_range [of "conf_kb s" _ tid d] ok lay assms(3)
  have "tap_rejection (conf_kb s) d =
      Inr (if press_in_range (starting_code ks d) d then None else Some (refusal d))" by blast
  with run v ok assms(3) show ?thesis
    by (auto simp: consume_event_def fire_pending_def verdict_def refusal_def finger_ok_def
        split: if_splits)
qed

theorem deadline_decides_the_press_witness:
  "(\<exists>outs kb'. consume_event (Timespec 2 0) None [] [] (pressed_kb 30 80 sec1) = Inr (outs, kb') \<and>
     Emit EV_KEY 30 1 \<in> set outs) \<and>
   (\<exists>outs kb'. consume_event (Timespec 2 0) None [] [] (pressed_kb 57 200 sec1) = Inr (outs, kb') \<and>
     Emit EV_KEY 57 1 \<in> set outs) \<and>
   (\<exists>outs kb'. consume_event (Timespec 2 0) None [] [] (pressed_kb 30 200 sec1) = Inr (outs, kb') \<and>
     fingers kb' 5 = Some ((sample_data 30 200 sec1)\<lparr>rejection_status := kRejectPressure\<rparr>)) \<and>
   (\<exists>outs kb'. consume_event (Timespec 2 0) None [] [] (pressed_kb 30 (-1) sec1) = Inr (outs, kb') \<and>
     fingers kb' 5 = Some ((sample_data 30 (-1) sec1)\<lparr>rejection_status := kRejectTouchDiameter\<rparr>))"
proof -
  have n: "normal_ts (Timespec 2 0)" by (simp add: normal_ts_def)
  have late: "AddMsToTimespec sec1 kEventDelayMS \<le> Timespec 2 0"
    using le_to_ns [OF normal_AddMs [OF normal_sec1], of kEventDelayMS "Timespec 2 0"]
    by (simp add: to_ns_AddMs kEventDelayMS_def normal_ts_def) (simp add: to_ns_def sec1_def)
  have le: "sec1 \<le> Timespec 2 0" using late later_than_now [OF normal_sec1] by order
  have press: "\<exists>outs kb'. consume_event (Timespec 2 0) None [] [] (pressed_kb c p sec1) = Inr (outs, kb') \<and>
      (if press_in_range c (sample_data c p sec1) then Emit EV_KEY c 1 \<in> set outs
       else fingers kb' 5 = Some ((sample_data c p sec1)\<lparr>rejection_status :=
              (if p = -1 then kRejectTouchDiameter else kRejectPressure)\<rparr>))" for c p
    using deadline_decides_the_press [OF pressed_reachable [OF normal_sec1, of c p], of 5
        "sample_data c p sec1" "Timespec 2 0"] n late le
    by (simp add: pressed_conf_def pressed_kb_def sample_event_def)
      (auto simp: sample_data_def sample_key_def split: if_splits)
  have "press_in_range 30 (sample_data 30 80 sec1)" "press_in_range 57 (sample_data 57 200 sec1)"
    "\<not> press_in_range 30 (sample_data 30 200 sec1)" "\<not> press_in_range 30 (sample_data 30 (-1) sec1)"
    by (simp_all add: press_in_range_def sample_data_def)
  with press [of 30 80] press [of 57 200] press [of 30 200] press [of 30 "-1"] show ?thesis by simp
qed

section \<open>Arrivals and haptics\<close>

text \<open>
  C23: a finger that is new on the panel selects the first key of the layout that contains it;
  its code is the key's alternative code while Fn is held, if the key has one. The key-down
  is queued for fifty milliseconds later and one haptic tick is requested at its position. A
  finger outside every key is remembered as rejected and has no other effect.
\<close>

theorem arrival_selects_the_first_key:
  assumes "arriving_finger now tid f kb = (outs, kb')"
  shows "(\<forall>k \<in> set (layout kb). \<not> Key_Contains k (finger_x f) (finger_y f)) \<and> outs = [] \<and>
      (\<exists>d. rejection_status d = kRejectTouchdownOffKey \<and>
         kb' = kb\<lparr>fingers := (fingers kb)(tid \<mapsto> d)\<rparr>) \<or>
    (\<exists>m d code. m < length (layout kb) \<and>
      Key_Contains (layout kb ! m) (finger_x f) (finger_y f) \<and>
      (\<forall>j < m. \<not> Key_Contains (layout kb ! j) (finger_x f) (finger_y f)) \<and>
      code = (if fn_key_pressed kb \<and> key_event_code_fn (layout kb ! m) \<noteq> 0
              then key_event_code_fn (layout kb ! m) else key_event_code (layout kb ! m)) \<and>
      outs = [Haptic (finger_x f) (finger_y f)] \<and>
      fingers kb' = (fingers kb)(tid \<mapsto> d) \<and> starting_key_number d = int m \<and>
      event_code d = code \<and> \<not> down_sent d \<and> rejection_status d = kNotRejectedYet \<and>
      pending_events kb' =
        EnqueueEvent (new_event code True (AddMsToTimespec now kEventDelayMS) tid)
          (pending_events kb) \<and>
      fn_key_pressed kb' = (fn_key_pressed kb \<or> code = KEY_FN))"
proof (cases "find_key (layout kb) 0 (finger_x f) (finger_y f)")
  case None
  with assms have "\<forall>k \<in> set (layout kb). \<not> Key_Contains k (finger_x f) (finger_y f)"
    by (simp add: find_key_None)
  moreover define d where "d = \<lparr>arrival_time = now, max_pressure = finger_p f,
      max_touch_major = finger_touch_major f, starting_key_number = kNoKey, event_code = 0,
      down_sent = False, rejection_status = kRejectTouchdownOffKey\<rparr>"
  have "outs = [] \<and> rejection_status d = kRejectTouchdownOffKey \<and>
         kb' = kb\<lparr>fingers := (fingers kb)(tid \<mapsto> d)\<rparr>"
    using assms None
    by (auto simp: arriving_finger_def GenerateEventForArrivingFinger_def Let_def d_def)
  ultimately show ?thesis by blast
next
  case (Some m)
  from find_key_Some [OF Some] have m: "m < length (layout kb)"
    "Key_Contains (layout kb ! m) (finger_x f) (finger_y f)"
    "\<forall>j < m. \<not> Key_Contains (layout kb ! j) (finger_x f) (finger_y f)" by auto
  define code where "code = (if fn_key_pressed kb \<and> key_event_code_fn (layout kb ! m) \<noteq> 0
              then key_event_code_fn (layout kb ! m) else key_event_code (layout kb ! m))"
  define d where "d = \<lparr>arrival_time = now, max_pressure = finger_p f,
      max_touch_major = finger_touch_major f, starting_key_number = int m, event_code = code,
      down_sent = False, rejection_status = kNotRejectedYet\<rparr>"
  have "arriving_finger now tid f kb = ([Haptic (finger_x f) (finger_y f)],
      kb\<lparr>pending_events := EnqueueEvent (new_event code True
             (AddMsToTimespec now kEventDelayMS) tid) (pending_events kb),
         fn_key_pressed := (fn_key_pressed kb \<or> code = KEY_FN),
         fingers := (fingers kb)(tid \<mapsto> d)\<rparr>)"
    using Some unfolding arriving_finger_def GenerateEventForArrivingFinger_def Let_def
    by (simp add: kNoKey_def code_def [symmetric] d_def)
  with m assms show ?thesis
    by (intro disjI2 exI [of _ m] exI [of _ d] exI [of _ code])
      (auto simp: d_def code_def)
qed

theorem arrival_selects_the_first_key_witness:
  "\<exists>outs kb'. arriving_finger sec1 5 (sample_finger 80) (sample_kb 30 80) = (outs, kb') \<and>
     outs = [Haptic 40 60]"
proof -
  obtain outs kb' where
    run: "arriving_finger sec1 5 (sample_finger 80) (sample_kb 30 80) = (outs, kb')"
    by (meson surj_pair)
  from arrival_selects_the_first_key [OF run] have "outs = [Haptic 40 60]"
    by (auto simp: sample_kb_def kb_initial_def sample_key_def Key_Contains_def sample_finger_def)
  with run show ?thesis by blast
qed

text \<open>The haptic tick that the snapshot's entry for \<open>tid\<close> asks for.\<close>

definition tick_for :: "key list \<Rightarrow> (int \<rightharpoonup> finger_data) \<Rightarrow> snapshot \<Rightarrow> int \<Rightarrow> kb_output list" where
  "tick_for ks F snap tid =
     (case snap tid of
        None \<Rightarrow> []
      | Some f \<Rightarrow> if F tid = None \<and> (\<exists>k \<in> set ks. Key_Contains k (finger_x f) (finger_y f))
                  then [Haptic (finger_x f) (finger_y f)] else [])"

lemma process_finger_ticks:
  assumes "process_finger now tid f kb = Inr (outs, kb')" and "snap tid = Some f"
  shows "outs = tick_for (layout kb) (fingers kb) snap tid" and "layout kb' = layout kb"
    and "i \<noteq> tid \<Longrightarrow> fingers kb' i = fingers kb i"
proof -
  have new: "outs = tick_for (layout kb) (fingers kb) snap tid \<and> layout kb' = layout kb \<and>
      (i \<noteq> tid \<longrightarrow> fingers kb' i = fingers kb i)"
    if "fingers kb tid = None"
  proof -
    from assms that have run: "arriving_finger now tid f kb = (outs, kb')"
      by (simp add: process_finger_def)
    show ?thesis
    proof (cases "find_key (layout kb) 0 (finger_x f) (finger_y f)")
      case None
      with run that assms(2) show ?thesis
        by (auto simp: arriving_finger_def GenerateEventForArrivingFinger_def Let_def
            tick_for_def find_key_None)
    next
      case (Some m)
      then have "m < length (layout kb)" "Key_Contains (layout kb ! m) (finger_x f) (finger_y f)"
        using find_key_Some [OF Some] by auto
      then have "\<exists>k \<in> set (layout kb). Key_Contains k (finger_x f) (finger_y f)"
        using nth_mem by blast
      with Some run that assms(2) show ?thesis
        by (auto simp: arriving_finger_def GenerateEventForArrivingFinger_def Let_def
            tick_for_def kNoKey_def)
    qed
  qed
  have old: "outs = [] \<and> tick_for (layout kb) (fingers kb) snap tid = [] \<and>
      layout kb' = layout kb \<and> (i \<noteq> tid \<longrightarrow> fingers kb' i = fingers kb i)"
    if "fingers kb tid = Some d" for d
    using assms that
    by (auto simp: process_finger_def known_finger_def Let_def RejectFinger_def tick_for_def
        split: if_splits sum.splits bool.splits)
  show "outs = tick_for (layout kb) (fingers kb) snap tid" "layout kb' = layout kb"
    "i \<noteq> tid \<Longrightarrow> fingers kb' i = fingers kb i"
    using new old by (cases "fingers kb tid"; auto)+
qed

text \<open>
  C22: a completed frame asks for exactly one haptic tick per finger that is new in it and
  lies on a key, at the finger's position, and for no other, in the order in which the
  frame's fingers are visited.
\<close>

theorem one_tick_per_arrival:
  assumes "ProcessIncomingSnapshot now snap order tids kb = Inr (outs, kb')"
    and "enumerates order (dom snap)"
  shows "outs = concat (map (tick_for (layout kb) (fingers kb) snap) order)"
proof -
  have "process_fingers now snap order kb = Inr (outs, kb1) \<Longrightarrow> distinct order \<Longrightarrow>
      outs = concat (map (tick_for (layout kb) (fingers kb) snap) order)" for kb1
  proof (induction order arbitrary: kb outs)
    case Nil
    then show ?case by simp
  next
    case (Cons tid order)
    show ?case
    proof (cases "snap tid")
      case None
      with Cons show ?thesis by (simp add: tick_for_def)
    next
      case (Some f)
      with Cons.prems obtain o1 kb2 o2 where
        one: "process_finger now tid f kb = Inr (o1, kb2)"
        and two: "process_fingers now snap order kb2 = Inr (o2, kb1)" "outs = o1 @ o2"
        by (auto split: sum.splits)
      note p = process_finger_ticks [where snap = snap, OF one Some]
      have same: "tick_for (layout kb2) (fingers kb2) snap i = tick_for (layout kb) (fingers kb) snap i"
        if "i \<in> set order" for i
      proof -
        have "i \<noteq> tid" using that Cons.prems(2) by auto
        with p(2) p(3) [of i] show ?thesis by (simp add: tick_for_def split: option.split)
      qed
      have "map (tick_for (layout kb2) (fingers kb2) snap) order =
          map (tick_for (layout kb) (fingers kb) snap) order"
        by (simp add: same)
      with Cons.IH [OF two(1)] Cons.prems(2) p(1) two(2) show ?thesis by simp
    qed
  qed
  with assms show ?thesis
    by (auto simp: ProcessIncomingSnapshot_def enumerates_def split: sum.splits)
qed

theorem one_tick_per_arrival_witness:
  "\<exists>kb'. ProcessIncomingSnapshot sec1 [5 \<mapsto> sample_finger 80] [5] [] (sample_kb 30 80) =
     Inr (concat (map (tick_for [sample_key 30] Map.empty [5 \<mapsto> sample_finger 80]) [5]), kb')"
proof -
  obtain outs kb' where
    run: "ProcessIncomingSnapshot sec1 [5 \<mapsto> sample_finger 80] [5] [] (sample_kb 30 80) = Inr (outs, kb')"
    by (cases "arriving_finger sec1 5 (sample_finger 80) (sample_kb 30 80)")
      (auto simp: ProcessIncomingSnapshot_def process_finger_def sample_kb_def kb_initial_def)
  with one_tick_per_arrival [OF run] show ?thesis
    by (simp add: enumerates_def sample_kb_def kb_initial_def)
qed

end
