(* ===== verification/Keyboard_Taps.thy ===== *)
theory Keyboard_Taps
  imports Keyboard_Press "HOL-Library.Sublist"
begin

text \<open>
  What the firing loop sends for fingers that have left: their guaranteed events, in the order
  of the queue, whatever the fingers' pressure was. So a tap that ends before its key-down is
  decided is always sent.
\<close>

section \<open>The events of some fingers\<close>

definition events_of :: "int set \<Rightarrow> pending_event list \<Rightarrow> pending_event list" where
  "events_of T q = filter (\<lambda>e. pe_tid e \<in> T) q"

lemma events_of_simps [simp]:
  "events_of T [] = []"
  "events_of T (e # q) = (if pe_tid e \<in> T then e # events_of T q else events_of T q)"
  "events_of T (p @ q) = events_of T p @ events_of T q"
  by (simp_all add: events_of_def)

lemma events_of_erase: "tid \<notin> T \<Longrightarrow> events_of T (erase_tid tid q) = events_of T q"
  by (induction q) auto

lemma events_of_guarantee: "tid \<notin> T \<Longrightarrow> events_of T (fst (guarantee_first tid q)) = events_of T q"
  by (induction q) (auto simp: Let_def split: prod.splits)

lemma events_of_enq: "subseq (events_of T q) (events_of T (EnqueueEvent e q))"
  by (rule kq.enq_cases [of q e]) (auto intro: list_emb_append_mono)

lemma sorted_events_of: "sorted (map pe_deadline q) \<Longrightarrow> sorted (map pe_deadline (events_of T q))"
  by (simp add: events_of_def sorted_filter)

lemma events_of_due:
  "sorted (map pe_deadline q) \<Longrightarrow>
     filter (\<lambda>e. pe_deadline e \<le> t) q @ filter (\<lambda>e. t < pe_deadline e) q = q"
proof (induction q)
  case (Cons e q)
  show ?case
  proof (cases "pe_deadline e \<le> t")
    case False
    with Cons.prems have "\<forall>x \<in> set q. t < pe_deadline x" by (auto intro: less_le_trans)
    then have "filter (\<lambda>e. pe_deadline e \<le> t) q = []" "filter (\<lambda>e. t < pe_deadline e) q = q"
      by (auto simp: filter_empty_conv filter_id_conv not_le)
    with False show ?thesis by simp
  qed (use Cons in auto)
qed simp

text \<open>Events of fingers that have left are sent when they are due, in order, and no sooner.\<close>

lemma fire_event_loose:
  assumes "fire_event e kb = Inr (outs, kb')" and "\<forall>t \<in> T. fingers kb t = None"
  shows "(\<forall>t \<in> T. fingers kb' t = None) \<and>
    events_of T (pending_events kb') = events_of T (pending_events kb) \<and>
    (pe_tid e \<in> T \<longrightarrow> outs = [key_output e]) \<and>
    (sorted (map pe_deadline (pending_events kb)) \<longrightarrow> sorted (map pe_deadline (pending_events kb')))"
proof (cases "fingers kb (pe_tid e)")
  case None
  with assms show ?thesis by (auto simp: fire_event_def)
next
  case (Some d)
  then have "pe_tid e \<notin> T" using assms(2) by auto
  with assms Some show ?thesis
    by (auto simp: fire_event_def RejectFinger_def events_of_erase sorted_erase_tid
        split: sum.splits option.splits if_splits)
qed

lemma fire_loop_loose:
  assumes "fire_loop now kb = Inr (outs, kb')" and "\<forall>t \<in> T. fingers kb t = None"
    and "sorted (map pe_deadline (pending_events kb))"
  shows "subseq (map key_output (filter (\<lambda>e. pe_deadline e \<le> now) (events_of T (pending_events kb)))) outs \<and>
    events_of T (pending_events kb') =
      filter (\<lambda>e. now < pe_deadline e) (events_of T (pending_events kb))"
  using assms
proof (induction now kb arbitrary: outs kb' rule: fire_loop.induct)
  case (1 now kb)
  show ?case
  proof (cases "pending_events kb = [] \<or> now < pe_deadline (hd (pending_events kb))")
    case True
    then have "\<forall>e \<in> set (pending_events kb). now < pe_deadline e"
      using "1.prems"(3) by (cases "pending_events kb") (auto intro: less_le_trans)
    then have "\<forall>e \<in> set (events_of T (pending_events kb)). now < pe_deadline e"
      by (simp add: events_of_def)
    with fire_loop_idle [OF True] "1.prems"(1) show ?thesis
      by (auto simp: filter_empty_conv filter_id_conv not_le)
  next
    case False
    then obtain e rest where q: "pending_events kb = e # rest" "\<not> now < pe_deadline e"
      by (cases "pending_events kb") auto
    from "1.prems"(1) q obtain outs1 kb1 outs2 where
      one: "fire_event e (kb\<lparr>pending_events := rest\<rparr>) = Inr (outs1, kb1)"
      and two: "fire_loop now kb1 = Inr (outs2, kb')" and outs: "outs = outs1 @ outs2"
      by (auto simp: fire_loop.simps [of now kb] split: sum.splits)
    have k: "\<forall>t \<in> T. fingers kb1 t = None" "events_of T (pending_events kb1) = events_of T rest"
      "pe_tid e \<in> T \<Longrightarrow> outs1 = [key_output e]" "sorted (map pe_deadline (pending_events kb1))"
      using fire_event_loose [OF one, of T] "1.prems"(2,3) q(1) by auto
    have "subseq (map key_output (filter (\<lambda>e. pe_deadline e \<le> now) (events_of T rest))) outs2 \<and>
        events_of T (pending_events kb') = filter (\<lambda>e. now < pe_deadline e) (events_of T rest)"
      using "1.IH" [OF q(1) _ one refl two k(1,4)] q(2) k(2) by simp
    with q k(3) show ?thesis by (auto simp: outs intro: list_emb_append2)
  qed
qed

section \<open>A finger that leaves undecided\<close>

text \<open>Its key-down, and a key-up behind it, are in the queue and nothing can remove them.\<close>

definition tap_queued :: "int \<Rightarrow> int \<Rightarrow> keyboard \<Rightarrow> bool" where
  "tap_queued tid c kb \<longleftrightarrow> fingers kb tid = None \<and>
     subseq [Emit EV_KEY c 1, Emit EV_KEY c 0]
       (map key_output (events_of {tid, kOldTID} (pending_events kb)))"

lemma missing_undecided:
  assumes inv: "kb_inv kb now b" and F: "fingers kb tid = Some d" and snap: "snap tid = None"
    and d: "rejection_status d = kNotRejectedYet" "\<not> down_sent d"
  shows "tap_queued tid (event_code d) (missing_finger now snap tid kb)"
proof -
  note k = inv [unfolded kb_inv_def]
  have tid: "tid \<noteq> kOldTID" by (rule kinv_known_tid [OF k F])
  obtain p e r where q: "pending_events kb = p @ e # r" "pe_tid e = tid" "pe_down e"
    "pe_code e = event_code d" and others: "\<forall>x \<in> set p \<union> set r. pe_tid x \<noteq> tid"
    by (rule kinv_unsent_split [OF k F d])
  let ?g = "e\<lparr>pe_guaranteed := True\<rparr>" and ?u = "up_event (event_code d) now"
  have g: "guarantee_first tid (pending_events kb) = (p @ ?g # r, False)"
    using guarantee_first_split [of p tid e r] others q by auto
  have due: "pe_deadline e \<le> pe_deadline ?u"
    using kinvD(3) [OF k, of e] q by (simp add: event_ok_def)
  have "sorted (map pe_deadline (p @ ?g # r))" using kinvD(2) [OF k] q by simp
  then obtain p2 s2 where eq: "p @ ?g # r = p2 @ s2" "EnqueueEvent ?u (p @ ?g # r) = p2 @ ?u # s2"
    and late: "\<forall>x \<in> set s2. pe_deadline ?u < pe_deadline x"
    by (rule kq.sorted_enq_cases [of _ ?u])
  have "?g \<notin> set s2" using late due by auto
  then have "?g \<in> set p2" using eq(1) by (metis UnE in_set_conv_decomp set_append)
  then obtain p3 p4 where "p2 = p3 @ ?g # p4" by (metis split_list)
  then have "subseq [Emit EV_KEY (event_code d) 1, Emit EV_KEY (event_code d) 0]
      (map key_output (events_of {tid, kOldTID} (EnqueueEvent ?u (p @ ?g # r))))"
    using q by (simp add: eq(2) key_output_def list_emb_append2)
  with F snap tid d g show ?thesis
    by (simp add: tap_queued_def missing_finger_def HandleLeavingFinger_def Let_def EnqueueKeyUpEvent_eq)
qed

lemma missing_keeps_tap:
  assumes tap: "tap_queued tid c kb"
  shows "tap_queued tid c (missing_finger now snap i kb)"
proof (cases "fingers kb i = None \<or> i = kOldTID \<or> snap i \<noteq> None")
  case True
  with tap show ?thesis by (auto simp: missing_finger_def split: option.splits)
next
  case False
  then obtain d where i: "fingers kb i = Some d" "i \<noteq> kOldTID" "snap i = None" by auto
  have "i \<noteq> tid" using i tap by (auto simp: tap_queued_def)
  let ?T = "{tid, kOldTID}" and ?q = "pending_events (HandleLeavingFinger i d now kb)"
  have same: "events_of ?T (fst (guarantee_first i q)) = events_of ?T q" for q
    using i \<open>i \<noteq> tid\<close> by (intro events_of_guarantee) simp
  have "subseq (events_of ?T (pending_events kb)) (events_of ?T ?q)"
    using same [of "pending_events kb"]
      events_of_enq [of ?T "fst (guarantee_first i (pending_events kb))" "up_event (event_code d) now"]
      events_of_enq [of ?T "pending_events kb" "up_event (event_code d) now"]
    by (auto simp: HandleLeavingFinger_def EnqueueKeyUpEvent_eq Let_def split: prod.split)
  from subseq_map [OF this, of key_output] tap \<open>i \<noteq> tid\<close> i show ?thesis
    by (auto simp: tap_queued_def missing_finger_def Let_def HandleLeavingFinger_sel
        intro: subseq_order.order_trans)
qed

lemma process_missing_keeps_tap: "tap_queued tid c kb \<Longrightarrow> tap_queued tid c (process_missing now snap tids kb)"
  by (induction tids arbitrary: kb) (simp_all add: missing_keeps_tap)

lemma missing_finger_other: "i \<noteq> tid \<Longrightarrow> fingers (missing_finger now snap i kb) tid = fingers kb tid"
  by (simp add: missing_finger_def Let_def HandleLeavingFinger_sel split: option.split)

lemma process_missing_undecided:
  assumes "kb_inv kb now b" and "fingers kb tid = Some d" and "snap tid = None" and "tid \<in> set tids"
    and "rejection_status d = kNotRejectedYet" "\<not> down_sent d"
  shows "tap_queued tid (event_code d) (process_missing now snap tids kb)"
  using assms
proof (induction tids arbitrary: kb)
  case (Cons i tids)
  show ?case
  proof (cases "i = tid")
    case True
    with Cons.prems show ?thesis by (simp add: process_missing_keeps_tap missing_undecided)
  next
    case False
    with Cons missing_finger_inv [OF Cons.prems(1), of snap i] show ?thesis
      by (simp add: missing_finger_other)
  qed
qed simp

text \<open>A finger that the frame does not show is not touched by the loop over the frame's fingers.\<close>

lemma process_fingers_other:
  "process_fingers now snap order kb = Inr (outs, kb') \<Longrightarrow> snap tid = None \<or> tid \<notin> set order \<Longrightarrow>
     fingers kb' tid = fingers kb tid"
proof (induction order arbitrary: kb outs)
  case (Cons i order)
  show ?case
  proof (cases "snap i")
    case None
    with Cons show ?thesis by auto
  next
    case (Some f)
    with Cons.prems obtain o1 kb1 o2 where one: "process_finger now i f kb = Inr (o1, kb1)"
      and two: "process_fingers now snap order kb1 = Inr (o2, kb')" by (auto split: sum.splits)
    have "tid \<noteq> i" using Some Cons.prems(2) by auto
    with process_finger_ticks(3) [OF one, of snap tid, OF Some] Cons.IH [OF two] Cons.prems(2) show ?thesis by auto
  qed
qed simp

lemma process_fingers_layout:
  "process_fingers now snap order kb = Inr (outs, kb') \<Longrightarrow> layout kb' = layout kb"
proof (induction order arbitrary: kb outs)
  case (Cons i order)
  show ?case
  proof (cases "snap i")
    case None
    with Cons show ?thesis by auto
  next
    case (Some f)
    with Cons.prems obtain o1 kb1 o2 where one: "process_finger now i f kb = Inr (o1, kb1)"
      and two: "process_fingers now snap order kb1 = Inr (o2, kb')" by (auto split: sum.splits)
    from process_finger_ticks(2) [OF one, of snap, OF Some] Cons.IH [OF two] show ?thesis by simp
  qed
qed simp

lemma process_missing_keeps_shown:
  "snap i \<noteq> None \<Longrightarrow> fingers (process_missing now snap tids kb) i = fingers kb i"
proof (induction tids arbitrary: kb)
  case (Cons j tids)
  have "fingers (missing_finger now snap j kb) i = fingers kb i"
    using Cons.prems by (cases "j = i") (auto simp: missing_finger_other, auto simp: missing_finger_def split: option.split)
  with Cons show ?case by simp
qed simp

section \<open>A frame and a timeout\<close>

text \<open>What a frame does to the keyboard before anything is fired, with the invariant.\<close>

lemma frame_parts:
  assumes "reachable ks s" and ok: "iteration_ok (conf_clock s) now ready order tids (conf_kb s)"
    and "completed_frame ready (kb_sm (conf_kb s)) = Some snap"
  obtains ev kb outs1 kb1 outs2 kb' where "ready = Some ev"
    and "kb = (conf_kb s)\<lparr>kb_sm := mt_step ev (kb_sm (conf_kb s))\<rparr>"
    and "kb_inv kb now (\<lambda>c. net c (conf_sent s))"
    and "process_fingers now snap order kb = Inr (outs1, kb1)"
    and "kb_inv kb1 now (\<lambda>c. net c (conf_sent s))"
    and "kb_inv (process_missing now snap tids kb1) now (\<lambda>c. net c (conf_sent s))"
    and "fire_pending now (process_missing now snap tids kb1) = Inr (outs2, kb')"
    and "consume_event now ready order tids (conf_kb s) = Inr (outs1 @ outs2, kb')"
    and "kb_inv kb' now (\<lambda>c. net c (conf_sent s) + net c outs2)"
    and "distinct order" and "set order = dom snap" and "set tids = dom (fingers (conf_kb s)) \<union> dom snap"
proof (cases rule: consume_event_cases [of ready now order tids "conf_kb s"])
  case (frame ev snap')
  let ?kb = "(conf_kb s)\<lparr>kb_sm := mt_step ev (kb_sm (conf_kb s))\<rparr>"
  let ?b = "\<lambda>c. net c (conf_sent s)"
  have snap: "snap' = snap" using frame(2) assms(3) by simp
  have "kb_inv (conf_kb s) now ?b"
    using reachable_inv [OF assms(1)] ok kinv_later unfolding conf_inv_def kb_inv_def iteration_ok_def
    by blast
  then have inv: "kb_inv ?kb now ?b" by (simp add: kb_inv_def)
  have en: "distinct order" "set order = dom snap" "set tids = dom (fingers (conf_kb s)) \<union> dom snap"
    "fresh_tids snap ?kb"
    using ok assms(3) by (simp_all add: iteration_ok_def enumerates_def fresh_tids_def pending_tids_def)
  from process_fingers_inv [OF inv en(1), of snap] en(4) obtain outs1 kb1 where
    one: "process_fingers now snap order ?kb = Inr (outs1, kb1)" "kb_inv kb1 now ?b"
    by (auto simp: fresh_tids_def)
  have miss: "kb_inv (process_missing now snap tids kb1) now ?b"
    using process_missing_inv [OF one(2)] by blast
  from fire_pending_inv [OF miss] obtain outs2 kb' where
    fire: "fire_pending now (process_missing now snap tids kb1) = Inr (outs2, kb')"
      "kb_inv kb' now (\<lambda>c. ?b c + net c outs2)" by blast
  have "consume_event now ready order tids (conf_kb s) = Inr (outs1 @ outs2, kb')"
    using frame(3) snap one(1) fire(1) by (simp add: ProcessIncomingSnapshot_def)
  with that [OF frame(1) refl inv one(1,2) miss fire(1) _ fire(2) en(1-3)] show thesis .
qed (use assms(3) in \<open>simp_all add: completed_frame_def\<close>)

text \<open>A queued tap has been sent after two rounds of the firing loop, if the second is late enough.\<close>

lemma fire_pending_loop_subseq:
  assumes "fire_pending now kb = Inr (outs, kb')"
  obtains outs' where "fire_loop now kb = Inr (outs', kb')" and "subseq outs' outs"
proof -
  from assms obtain outs' where loop: "fire_loop now kb = Inr (outs', kb')"
    and "outs = outs' \<or> outs = outs' @ [Emit EV_SYN SYN_REPORT 0]"
    by (auto simp: fire_pending_def split: sum.splits if_splits)
  then show thesis by (intro that [OF loop]) auto
qed

lemma queued_tap_is_sent:
  assumes tap: "tap_queued tid c kb" and inv: "kb_inv kb now b"
    and one: "fire_pending now kb = Inr (outs, kb1)" and inv1: "kb_inv kb1 now b1"
    and two: "fire_pending later kb1 = Inr (outs', kb2)" and late: "AddMsToTimespec now kEventDelayMS \<le> later"
  shows "fingers kb1 tid = None \<and> subseq [Emit EV_KEY c 1, Emit EV_KEY c 0] (outs @ outs')"
proof -
  let ?T = "{tid, kOldTID}"
  note k = inv [unfolded kb_inv_def] and k1 = inv1 [unfolded kb_inv_def]
  obtain o1 where l1: "fire_loop now kb = Inr (o1, kb1)" "subseq o1 outs"
    by (rule fire_pending_loop_subseq [OF one])
  obtain o2 where l2: "fire_loop later kb1 = Inr (o2, kb2)" "subseq o2 outs'"
    by (rule fire_pending_loop_subseq [OF two])
  have F: "\<forall>t \<in> ?T. fingers kb t = None" using tap kinvD(7) [OF k] by (simp add: tap_queued_def)
  have "dom (fingers kb1) = dom (fingers kb)" using fire_loop_inv [OF inv] l1(1) by auto
  then have F1: "\<forall>t \<in> ?T. fingers kb1 t = None" using F by (auto simp: domIff)
  have due: "\<forall>e \<in> set (events_of ?T (pending_events kb1)). pe_deadline e \<le> later"
    using kinvD(3) [OF k1] late by (fastforce simp: events_of_def event_ok_def)
  let ?L = "events_of ?T (pending_events kb)"
  from fire_loop_loose [OF l1(1) F kinvD(2) [OF k]]
  have a: "subseq (map key_output (filter (\<lambda>e. pe_deadline e \<le> now) ?L)) o1"
    "events_of ?T (pending_events kb1) = filter (\<lambda>e. now < pe_deadline e) ?L" by blast+
  from fire_loop_loose [OF l2(1) F1 kinvD(2) [OF k1]] due
  have b: "subseq (map key_output (filter (\<lambda>e. now < pe_deadline e) ?L)) o2"
    by (simp add: a(2) [symmetric] filter_True)
  have "subseq (map key_output ?L) (o1 @ o2)"
    using list_emb_append_mono [OF a(1) b] events_of_due [OF sorted_events_of [OF kinvD(2) [OF k]], of now ?T]
    by (metis map_append)
  then have "subseq (map key_output ?L) (outs @ outs')"
    using list_emb_append_mono [OF l1(2) l2(2)] subseq_order.order_trans by blast
  with tap F1 show ?thesis by (auto simp: tap_queued_def intro: subseq_order.order_trans)
qed

text \<open>
  C25: the pressure of a press is judged only while its finger is on the panel. Take any finger
  whose press is not decided, of any pressure and diameter: when a frame no longer shows it, its
  press and its release are both sent, in this order, by the time the loop has run once more
  50 ms later. No hypothesis mentions the pressure, so a tap that the range would refuse is sent
  when it is short.
\<close>

theorem short_taps_escape_the_pressure_check:
  assumes "reachable ks s"
    and "iteration_ok (conf_clock s) now (Some ev) order tids (conf_kb s)"
    and "completed_frame (Some ev) (kb_sm (conf_kb s)) = Some snap"
    and "fingers (conf_kb s) tid = Some d" and "snap tid = None"
    and "rejection_status d = kNotRejectedYet" and "\<not> down_sent d"
    and "normal_ts later" and "AddMsToTimespec now kEventDelayMS \<le> later"
  shows "\<exists>outs kb1 outs' kb2.
    consume_event now (Some ev) order tids (conf_kb s) = Inr (outs, kb1) \<and> fingers kb1 tid = None \<and>
    consume_event later None [] [] kb1 = Inr (outs', kb2) \<and>
    subseq [Emit EV_KEY (event_code d) 1, Emit EV_KEY (event_code d) 0] (outs @ outs')"
proof (rule frame_parts [OF assms(1-3)])
  let ?b = "\<lambda>c. net c (conf_sent s)"
  fix ev' kb outs1 kb1 outs2 kb'
  assume kb: "kb = (conf_kb s)\<lparr>kb_sm := mt_step ev' (kb_sm (conf_kb s))\<rparr>"
    and one: "process_fingers now snap order kb = Inr (outs1, kb1)"
    and inv: "kb_inv kb1 now ?b" "kb_inv (process_missing now snap tids kb1) now ?b"
    and fire: "fire_pending now (process_missing now snap tids kb1) = Inr (outs2, kb')"
    and run: "consume_event now (Some ev) order tids (conf_kb s) = Inr (outs1 @ outs2, kb')"
    and inv': "kb_inv kb' now (\<lambda>c. ?b c + net c outs2)"
    and tids: "set tids = dom (fingers (conf_kb s)) \<union> dom snap"
  have "fingers kb1 tid = Some d" using process_fingers_other [OF one, of tid] assms(4,5) kb by simp
  moreover have "tid \<in> set tids" using assms(4) tids by auto
  ultimately have tap: "tap_queued tid (event_code d) (process_missing now snap tids kb1)"
    using process_missing_undecided [OF inv(1)] assms(5-7) by blast
  have "now \<le> later"
    using assms(2,9) later_than_now [of now] by (auto simp: iteration_ok_def)
  then have "kb_inv kb' later (\<lambda>c. ?b c + net c outs2)"
    using inv' kinv_later [OF _ _ assms(8)] unfolding kb_inv_def by blast
  from fire_pending_inv [OF this] obtain outs' kb2 where
    two: "fire_pending later kb' = Inr (outs', kb2)" by blast
  from queued_tap_is_sent [OF tap inv(2) fire inv' two assms(9)]
  have "fingers kb' tid = None" "subseq [Emit EV_KEY (event_code d) 1, Emit EV_KEY (event_code d) 0] (outs2 @ outs')"
    by blast+
  moreover from this(2)
  have "subseq [Emit EV_KEY (event_code d) 1, Emit EV_KEY (event_code d) 0] ((outs1 @ outs2) @ outs')"
    by (simp add: list_emb_append2)
  ultimately show ?thesis using run two by (auto simp: consume_event_def)
qed

text \<open>
  The finger of the sample press, with a pressure of 200, lifted 20 ms after it came down: the
  same finger would be refused if it stayed until its deadline.
\<close>

definition after_ms :: "int \<Rightarrow> timespec" where
  "after_ms ms = AddMsToTimespec sec1 ms"

definition lifted_sm :: "int \<Rightarrow> mt_state" where
  "lifted_sm p = mt_step (input_ev EV_ABS ABS_MT_TRACKING_ID (-1)) (sample_sm p)"

lemma after_ms_eq: "0 \<le> ms \<Longrightarrow> ms < 1000 \<Longrightarrow> after_ms ms = Timespec 1 (ms * 1000000)"
  by (simp add: after_ms_def AddMsToTimespec_def sec1_def carry_nsec.simps)

lemma lifted_snapshot: "FillSnapshot (lifted_sm p) = Map.empty"
  by (simp add: lifted_sm_def sample_sm_def touch_events_def mt_step_synced mt_initial_def is_dropped_def
      event_key_of_def event_key_class_defs FillSnapshot_def kNumSlots_def numeral_nat
      FindValueByEvent_def kSlotMissingValue_def Let_def)

lemma lifted_frame: "completed_frame (Some syn_report) (lifted_sm p) = Some Map.empty"
  using sample_dropping [of p] completed_frame_report [of "lifted_sm p"] lifted_snapshot
  by (simp add: lifted_sm_def mt_step_synced is_dropped_def)

lemma ts_le [simp]: "Timespec s n \<le> Timespec s' n' \<longleftrightarrow> s < s' \<or> s = s' \<and> n \<le> n'"
  unfolding less_eq_timespec_def TimespecIsLater_def by auto

lemma ts_less [simp]: "Timespec s n < Timespec s' n' \<longleftrightarrow> s < s' \<or> s = s' \<and> n < n'"
  unfolding less_timespec_def TimespecIsLater_def by auto

lemma lifted_reachable:
  "reachable [sample_key c] ((pressed_conf c p sec1)\<lparr>conf_kb := (pressed_kb c p sec1)\<lparr>kb_sm := lifted_sm p\<rparr>,
     conf_clock := after_ms 20\<rparr>)"
  using reachable_partial [OF pressed_reachable [OF normal_sec1, of c p], of "after_ms 20"
      "input_ev EV_ABS ABS_MT_TRACKING_ID (-1)"]
  by (simp add: after_ms_eq normal_ts_def is_report_def pressed_conf_def sec1_def)
    (simp add: lifted_sm_def pressed_kb_def sample_kb_def)

theorem short_taps_escape_the_pressure_check_witness:
  "\<not> press_in_range 30 (sample_data 30 200 sec1) \<and>
   (\<exists>outs kb1 outs' kb2.
     consume_event (after_ms 20) (Some syn_report) [] [5]
       ((pressed_kb 30 200 sec1)\<lparr>kb_sm := lifted_sm 200\<rparr>) = Inr (outs, kb1) \<and> fingers kb1 5 = None \<and>
     consume_event (after_ms 100) None [] [] kb1 = Inr (outs', kb2) \<and>
     subseq [Emit EV_KEY 30 1, Emit EV_KEY 30 0] (outs @ outs'))"
proof -
  let ?s = "(pressed_conf 30 200 sec1)\<lparr>conf_kb := (pressed_kb 30 200 sec1)\<lparr>kb_sm := lifted_sm 200\<rparr>,
     conf_clock := after_ms 20\<rparr>" and ?d = "sample_data 30 200 sec1"
  have facts: "normal_ts (after_ms 20)" "normal_ts (after_ms 100)"
    "AddMsToTimespec (after_ms 20) kEventDelayMS \<le> after_ms 100"
    by (simp_all add: after_ms_eq normal_ts_def)
      (simp add: AddMsToTimespec_def kEventDelayMS_def carry_nsec.simps)
  have "iteration_ok (conf_clock ?s) (after_ms 20) (Some syn_report) [] [5] (conf_kb ?s)"
    using facts(1) lifted_frame [of 200]
    by (simp add: iteration_ok_def enumerates_def fresh_tids_def pressed_kb_def)
  from short_taps_escape_the_pressure_check [OF lifted_reachable this _ _ _ _ _ facts(2,3),
      of Map.empty 5 ?d] lifted_frame [of 200]
  show ?thesis by (auto simp: pressed_kb_def sample_data_def press_in_range_def)
qed

end
