(* ===== verification/Keyboard_Fn.thy ===== *)
theory Keyboard_Fn
  imports Keyboard_Taps
begin

text \<open>
  The Fn modifier over all runs: it is held only while a finger is on Fn, and one of several
  fingers on Fn releases it for all of them.
\<close>

section \<open>The flag belongs to a finger\<close>

definition fn_ok :: "keyboard \<Rightarrow> bool" where
  "fn_ok kb \<longleftrightarrow> (fn_key_pressed kb \<longrightarrow> (\<exists>tid d. fingers kb tid = Some d \<and>
     rejection_status d = kNotRejectedYet \<and> event_code d = KEY_FN))"

lemma fn_okI: "(fn_key_pressed kb \<Longrightarrow> \<exists>tid d. fingers kb tid = Some d \<and>
     rejection_status d = kNotRejectedYet \<and> event_code d = KEY_FN) \<Longrightarrow> fn_ok kb"
  by (simp add: fn_ok_def)

lemma fn_okE:
  assumes "fn_ok kb" and "fn_key_pressed kb"
  obtains tid d where "fingers kb tid = Some d" "rejection_status d = kNotRejectedYet"
    "event_code d = KEY_FN"
  using assms by (auto simp: fn_ok_def)

text \<open>
  Replacing a finger's data keeps the property when the flag is cleared with it, or the data
  did not carry the flag, or it carries it still.
\<close>

lemma fn_ok_update:
  assumes "fn_ok kb" and "fn_key_pressed kb' \<Longrightarrow> fn_key_pressed kb"
    and "fingers kb' = (fingers kb)(tid := v)"
    and "\<And>d. fn_key_pressed kb' \<Longrightarrow> fingers kb tid = Some d \<Longrightarrow>
           rejection_status d = kNotRejectedYet \<Longrightarrow> event_code d = KEY_FN \<Longrightarrow>
           (\<exists>d'. v = Some d' \<and> rejection_status d' = kNotRejectedYet \<and> event_code d' = KEY_FN)"
  shows "fn_ok kb'"
proof (rule fn_okI)
  assume fn: "fn_key_pressed kb'"
  obtain i d where "fingers kb i = Some d" "rejection_status d = kNotRejectedYet"
    "event_code d = KEY_FN"
    using fn_okE [OF assms(1) assms(2) [OF fn]] by blast
  with assms(3) assms(4) [OF fn] show "\<exists>tid d. fingers kb' tid = Some d \<and>
      rejection_status d = kNotRejectedYet \<and> event_code d = KEY_FN"
    by (cases "i = tid") (auto intro!: exI [of _ i])
qed

lemma fn_ok_same: "fn_ok kb \<Longrightarrow> fn_key_pressed kb' = fn_key_pressed kb \<Longrightarrow>
    fingers kb' = fingers kb \<Longrightarrow> fn_ok kb'"
  by (simp add: fn_ok_def)

lemma RejectFinger_fn_ok: "fn_ok kb \<Longrightarrow> fn_ok (RejectFinger tid r kb)"
proof (cases "fingers kb tid")
  case (Some d)
  assume "fn_ok kb"
  then show ?thesis
    by (rule fn_ok_update [of _ _ tid "Some (d\<lparr>rejection_status := r\<rparr>)"])
      (use Some in \<open>auto simp: RejectFinger_def split: if_splits\<close>)
qed (simp add: RejectFinger_def)

lemma arriving_finger_fn_ok:
  assumes ok: "fn_ok kb" and new: "fingers kb tid = None"
  shows "fn_ok (snd (arriving_finger now tid f kb))"
proof (rule fn_okI)
  let ?kb = "snd (arriving_finger now tid f kb)"
  assume fn: "fn_key_pressed ?kb"
  show "\<exists>tid d. fingers ?kb tid = Some d \<and> rejection_status d = kNotRejectedYet \<and>
      event_code d = KEY_FN"
  proof (cases "fn_key_pressed kb")
    case True
    with fn_okE [OF ok] obtain i d where i: "fingers kb i = Some d"
      "rejection_status d = kNotRejectedYet" "event_code d = KEY_FN" by blast
    with new have "i \<noteq> tid" by auto
    then have "fingers ?kb i = Some d"
      using i(1) by (auto simp: arriving_finger_def GenerateEventForArrivingFinger_def Let_def
          split: option.splits prod.splits)
    with i show ?thesis by blast
  next
    case False
    with fn show ?thesis
      by (intro exI [of _ tid])
        (auto simp: arriving_finger_def GenerateEventForArrivingFinger_def Let_def kNoKey_def
          split: option.splits if_splits)
  qed
qed

lemma process_finger_fn_ok:
  assumes ok: "fn_ok kb" and run: "process_finger now tid f kb = Inr (outs, kb')"
  shows "fn_ok kb'"
proof (cases "fingers kb tid")
  case None
  with run arriving_finger_fn_ok [OF ok None, of now f] show ?thesis
    by (simp add: process_finger_def)
next
  case (Some d)
  define d1 where "d1 = d\<lparr>max_pressure := max (max_pressure d) (finger_p f),
      max_touch_major := max (max_touch_major d) (finger_touch_major f)\<rparr>"
  define kb1 where "kb1 = kb\<lparr>fingers := (fingers kb)(tid \<mapsto> d1)\<rparr>"
  have one: "fn_ok kb1"
    by (rule fn_ok_update [OF ok, of _ tid "Some d1"]) (use Some in \<open>auto simp: kb1_def d1_def\<close>)
  let ?kb2 = "RejectFinger tid kRejectMovedOffKey kb1"
  have two: "fn_ok ?kb2" by (rule RejectFinger_fn_ok [OF one])
  have three: "fn_ok (?kb2\<lparr>pending_events := q, fn_key_pressed := fn\<rparr>)"
    if "fn \<Longrightarrow> fn_key_pressed ?kb2" for q fn
    using two that by (auto simp: fn_ok_def)
  have four: "fn_ok (?kb2\<lparr>pending_events := q\<rparr>)" for q
    using two by (simp add: fn_ok_def)
  have "fn_ok kb2" if "known_finger now tid f d kb = Inr kb2" for kb2
    using that one two three four
    by (auto simp: known_finger_def Let_def d1_def [symmetric] kb1_def [symmetric]
        split: sum.splits bool.splits if_splits)
  with ok run Some show ?thesis
    by (auto simp: process_finger_def split: if_splits sum.splits)
qed

lemma process_fingers_fn_ok:
  "fn_ok kb \<Longrightarrow> process_fingers now snap order kb = Inr (outs, kb') \<Longrightarrow> fn_ok kb'"
  by (induction order arbitrary: kb outs)
    (auto split: option.splits sum.splits, metis process_finger_fn_ok)

lemma missing_finger_fn_ok:
  assumes inv: "kb_inv kb t b" and ok: "fn_ok kb"
  shows "fn_ok (missing_finger t snap tid kb)"
proof (cases "fingers kb tid \<noteq> None \<and> tid \<noteq> kOldTID \<and> snap tid = None")
  case False
  with ok show ?thesis by (auto simp: missing_finger_def split: option.splits)
next
  case True
  then obtain d where d: "fingers kb tid = Some d" by blast
  have "\<not> snd (guarantee_first tid (pending_events kb))"
    if "rejection_status d = kNotRejectedYet" "\<not> down_sent d"
    using kinv_leave_unsent [OF inv [unfolded kb_inv_def] d that] by blast
  then show ?thesis
    using d True
    by (intro fn_ok_update [OF ok, of _ tid None])
      (auto simp: missing_finger_def HandleLeavingFinger_def Let_def split: prod.splits if_splits)
qed

lemma process_missing_fn_ok:
  "kb_inv kb t b \<Longrightarrow> fn_ok kb \<Longrightarrow> fn_ok (process_missing t snap tids kb)"
  by (induction tids arbitrary: kb) (use missing_finger_fn_ok missing_finger_inv in auto)

lemma fire_event_fn_ok:
  assumes ok: "fn_ok kb" and run: "fire_event e kb = Inr (outs, kb')"
  shows "fn_ok kb'"
proof -
  have "fn_ok (kb\<lparr>fingers := (fingers kb)(pe_tid e \<mapsto> d\<lparr>down_sent := True\<rparr>)\<rparr>)"
    if "fingers kb (pe_tid e) = Some d" for d
    by (rule fn_ok_update [OF ok, of _ "pe_tid e" "Some (d\<lparr>down_sent := True\<rparr>)"])
      (use that in auto)
  with ok run RejectFinger_fn_ok [OF ok] show ?thesis
    by (auto simp: fire_event_def split: option.splits sum.splits if_splits)
qed

lemma fire_loop_fn_ok: "fire_loop now kb = Inr (outs, kb') \<Longrightarrow> fn_ok kb \<Longrightarrow> fn_ok kb'"
proof (induction now kb arbitrary: outs rule: fire_loop.induct)
  case (1 now kb)
  show ?case
  proof (cases "pending_events kb = [] \<or> now < pe_deadline (hd (pending_events kb))")
    case True
    with fire_loop_idle [OF True] "1.prems" show ?thesis by simp
  next
    case False
    then obtain e rest where q: "pending_events kb = e # rest" "\<not> now < pe_deadline e"
      by (cases "pending_events kb") auto
    from "1.prems"(1) q obtain outs1 kb1 outs2 where
      one: "fire_event e (kb\<lparr>pending_events := rest\<rparr>) = Inr (outs1, kb1)"
      and two: "fire_loop now kb1 = Inr (outs2, kb')"
      by (auto simp: fire_loop.simps [of now kb] split: sum.splits)
    have "fn_ok (kb\<lparr>pending_events := rest\<rparr>)" using "1.prems"(2) by (simp add: fn_ok_def)
    from "1.IH" [OF q(1) _ one refl two] q(2) fire_event_fn_ok [OF this one]
    show ?thesis by simp
  qed
qed

lemma fire_pending_fn_ok: "fire_pending now kb = Inr (outs, kb') \<Longrightarrow> fn_ok kb \<Longrightarrow> fn_ok kb'"
  by (auto simp: fire_pending_def split: sum.splits dest: fire_loop_fn_ok)

lemma consume_event_fn_ok:
  assumes inv: "kb_inv kb t b" and ok: "iteration_ok t now ready order tids kb"
    and fn: "fn_ok kb" and run: "consume_event now ready order tids kb = Inr (outs, kb')"
  shows "fn_ok kb'"
proof (cases rule: consume_event_cases [of ready now order tids kb])
  case timeout
  then have "fire_pending now kb = Inr (outs, kb')" using run by metis
  with fn show ?thesis by (rule fire_pending_fn_ok [rotated])
next
  case (partial ev)
  with run fn show ?thesis by (auto simp: fn_ok_def)
next
  case (frame ev snap)
  let ?kb = "kb\<lparr>kb_sm := mt_step ev (kb_sm kb)\<rparr>"
  have "kb_inv ?kb now b"
    using inv ok kinv_later unfolding kb_inv_def iteration_ok_def by auto
  moreover have en: "distinct order" "fresh_tids snap ?kb"
    using ok frame(2)
    by (simp_all add: iteration_ok_def enumerates_def fresh_tids_def pending_tids_def)
  ultimately obtain o1 kb1 where one: "process_fingers now snap order ?kb = Inr (o1, kb1)"
    "kb_inv kb1 now b"
    using process_fingers_inv [of ?kb now b order snap] by (auto simp: fresh_tids_def)
  have "fn_ok ?kb" using fn by (simp add: fn_ok_def)
  from process_missing_fn_ok [OF one(2) process_fingers_fn_ok [OF this one(1)], of snap tids]
  have "fn_ok (process_missing now snap tids kb1)" .
  with one(1) run [unfolded frame(3)] show ?thesis
    by (auto simp: ProcessIncomingSnapshot_def dest: fire_pending_fn_ok)
qed

interpretation fn_sys: invariant_system
  "\<lambda>s. \<exists>t. normal_ts t \<and> s = conf_initial ks t" kb_step "\<lambda>s. conf_inv ks s \<and> fn_ok (conf_kb s)"
  for ks
proof (unfold_locales, goal_cases)
  case (1 s)
  then show ?case
    using conf_inv_initial by (auto simp: conf_initial_def kb_initial_def fn_ok_def)
next
  case (2 s s')
  then have "conf_inv ks s'" using kb_sys.inv_step by blast
  moreover from 2 have "fn_ok (conf_kb s')"
    by (auto elim!: kb_stepE dest: consume_event_fn_ok simp: conf_inv_def)
  ultimately show ?case ..
qed

text \<open>
  C21: whenever the keyboard takes Fn to be held, some finger on the panel really is on a Fn
  key and has not been rejected; with no finger on the panel Fn is not held.
\<close>

theorem fn_is_held_by_a_finger:
  assumes "reachable ks s" and "fn_key_pressed (conf_kb s)"
  shows "\<exists>tid d. fingers (conf_kb s) tid = Some d \<and> rejection_status d = kNotRejectedYet \<and>
    event_code d = KEY_FN"
proof -
  have "fn_ok (conf_kb s)"
    using assms(1) fn_sys.inv_reachable unfolding reachable_def by blast
  with assms(2) show ?thesis by (simp add: fn_ok_def)
qed

theorem fn_is_held_by_a_finger_witness:
  "\<exists>tid d. fingers (pressed_kb KEY_FN 80 sec1) tid = Some d \<and> event_code d = KEY_FN"
  using fn_is_held_by_a_finger [OF pressed_reachable [OF normal_sec1, of KEY_FN 80]]
  by (auto simp: pressed_conf_def pressed_kb_def split: if_splits)

section \<open>Several fingers on Fn\<close>

text \<open>A finger on Fn that leaves clears the flag, and nothing after it in the iteration sets it.\<close>

lemma missing_finger_fn_mono:
  "fn_key_pressed (missing_finger now snap i kb) \<Longrightarrow> fn_key_pressed kb"
  by (auto simp: missing_finger_def HandleLeavingFinger_def Let_def
      split: option.splits prod.splits if_splits)

lemma process_missing_fn_mono:
  "fn_key_pressed (process_missing now snap tids kb) \<Longrightarrow> fn_key_pressed kb"
  by (induction tids arbitrary: kb) (auto dest: missing_finger_fn_mono)

lemma missing_finger_clears_fn:
  assumes inv: "kb_inv kb now b" and F: "fingers kb a = Some d" and "snap a = None"
    and "rejection_status d = kNotRejectedYet" and "event_code d = KEY_FN"
  shows "\<not> fn_key_pressed (missing_finger now snap a kb)"
proof -
  have "\<not> snd (guarantee_first a (pending_events kb))" if "\<not> down_sent d"
    using kinv_leave_unsent [OF inv [unfolded kb_inv_def] F assms(4) that] by blast
  with assms kinv_known_tid [OF inv [unfolded kb_inv_def] F] show ?thesis
    by (auto simp: missing_finger_def HandleLeavingFinger_def Let_def split: prod.splits)
qed

lemma process_missing_clears_fn:
  assumes "kb_inv kb now b" and "fingers kb a = Some d" and "snap a = None" and "a \<in> set tids"
    and "rejection_status d = kNotRejectedYet" and "event_code d = KEY_FN"
  shows "\<not> fn_key_pressed (process_missing now snap tids kb)"
  using assms
proof (induction tids arbitrary: kb)
  case (Cons i tids)
  show ?case
  proof (cases "i = a")
    case True
    with Cons.prems missing_finger_clears_fn show ?thesis by (auto dest!: process_missing_fn_mono)
  next
    case False
    with Cons missing_finger_inv [OF Cons.prems(1), of snap i] show ?thesis
      by (simp add: missing_finger_other)
  qed
qed simp

lemma fire_event_fn_mono: "fire_event e kb = Inr (outs, kb') \<Longrightarrow> fn_key_pressed kb' \<Longrightarrow> fn_key_pressed kb"
  by (auto simp: fire_event_def RejectFinger_def split: option.splits sum.splits if_splits)

lemma fire_loop_fn_mono: "fire_loop now kb = Inr (outs, kb') \<Longrightarrow> fn_key_pressed kb' \<Longrightarrow> fn_key_pressed kb"
proof (induction now kb arbitrary: outs rule: fire_loop.induct)
  case (1 now kb)
  show ?case
  proof (cases "pending_events kb = [] \<or> now < pe_deadline (hd (pending_events kb))")
    case True
    with fire_loop_idle [OF True] "1.prems" show ?thesis by simp
  next
    case False
    then obtain e rest where q: "pending_events kb = e # rest" "\<not> now < pe_deadline e"
      by (cases "pending_events kb") auto
    from "1.prems"(1) q obtain outs1 kb1 outs2 where
      one: "fire_event e (kb\<lparr>pending_events := rest\<rparr>) = Inr (outs1, kb1)"
      and two: "fire_loop now kb1 = Inr (outs2, kb')"
      by (auto simp: fire_loop.simps [of now kb] split: sum.splits)
    from "1.IH" [OF q(1) _ one refl two "1.prems"(2)] q(2) fire_event_fn_mono [OF one]
    show ?thesis by simp
  qed
qed

text \<open>A finger that the frame shows on its starting key keeps its data, up to the maxima.\<close>

lemma process_fingers_stays:
  assumes "process_fingers now snap order kb = Inr (outs, kb')" and "distinct order"
    and "i \<in> set order" and "snap i = Some f" and "fingers kb i = Some d"
    and "rejection_status d = kNotRejectedYet" and "0 \<le> starting_key_number d"
    and "starting_key_number d < int (length (layout kb))"
    and "Key_Contains (layout kb ! nat (starting_key_number d)) (finger_x f) (finger_y f)"
  shows "fingers kb' i = Some (d\<lparr>max_pressure := max (max_pressure d) (finger_p f),
    max_touch_major := max (max_touch_major d) (finger_touch_major f)\<rparr>)"
  using assms
proof (induction order arbitrary: kb outs)
  case (Cons j order)
  show ?case
  proof (cases "snap j")
    case None
    with Cons.prems have "j \<noteq> i" by auto
    with Cons.IH [OF _ _ _ Cons.prems(4-9)] Cons.prems(1-3) None show ?thesis by simp
  next
    case (Some g)
    with Cons.prems obtain o1 kb1 o2 where one: "process_finger now j g kb = Inr (o1, kb1)"
      and two: "process_fingers now snap order kb1 = Inr (o2, kb')" by (auto split: sum.splits)
    show ?thesis
    proof (cases "j = i")
      case True
      with one Some Cons.prems(4-9) have "fingers kb1 i = Some (d\<lparr>max_pressure := max (max_pressure d) (finger_p f),
          max_touch_major := max (max_touch_major d) (finger_touch_major f)\<rparr>)"
        by (auto simp: process_finger_def known_finger_def StillOnFirstKey_def kNoKey_def Let_def)
      with process_fingers_other [OF two] Cons.prems(2) True show ?thesis by simp
    next
      case False
      note other = process_finger_ticks(2,3) [OF one, of snap, OF Some]
      from Cons.IH [OF two _ _ Cons.prems(4)] Cons.prems(2,3,5-9) other False show ?thesis by simp
    qed
  qed
qed simp

text \<open>
  C26: the Fn modifier is one flag for all fingers. Whenever a frame no longer shows a finger
  \<open>a\<close> that is on Fn, Fn is not held after the iteration, although every other finger \<open>b\<close> whose
  Fn press has been sent and that the frame shows on its key is still known, not rejected, and
  on Fn; and the next finger that comes down on any key \<open>m\<close> of the layout gets the plain code of
  the key.
\<close>

theorem leaving_one_fn_finger_releases_fn:
  assumes "reachable ks s" and "iteration_ok (conf_clock s) now ready order tids (conf_kb s)"
    and "completed_frame ready (kb_sm (conf_kb s)) = Some snap"
    and a: "fingers (conf_kb s) a = Some da" "rejection_status da = kNotRejectedYet"
      "event_code da = KEY_FN" "snap a = None"
    and b: "fingers (conf_kb s) b = Some db" "rejection_status db = kNotRejectedYet" "down_sent db"
      "event_code db = KEY_FN" "snap b = Some f"
      "Key_Contains (ks ! nat (starting_key_number db)) (finger_x f) (finger_y f)"
    and m: "find_key ks 0 (finger_x g) (finger_y g) = Some m"
  shows "\<exists>outs kb'. consume_event now ready order tids (conf_kb s) = Inr (outs, kb') \<and>
    (\<exists>d. fingers kb' b = Some d \<and> rejection_status d = kNotRejectedYet \<and> down_sent d \<and>
         event_code d = KEY_FN) \<and>
    \<not> fn_key_pressed kb' \<and>
    (\<exists>d. fingers (snd (arriving_finger later c g kb')) c = Some d \<and>
         event_code d = key_event_code (ks ! m))"
proof (rule frame_parts [OF assms(1-3)])
  let ?b = "\<lambda>c. net c (conf_sent s)"
  fix ev kb outs1 kb1 outs2 kb'
  assume kb: "kb = (conf_kb s)\<lparr>kb_sm := mt_step ev (kb_sm (conf_kb s))\<rparr>"
    and one: "process_fingers now snap order kb = Inr (outs1, kb1)"
    and inv: "kb_inv kb1 now ?b" "kb_inv (process_missing now snap tids kb1) now ?b"
    and fire: "fire_pending now (process_missing now snap tids kb1) = Inr (outs2, kb')"
    and run: "consume_event now ready order tids (conf_kb s) = Inr (outs1 @ outs2, kb')"
    and ord: "distinct order" "set order = dom snap" "set tids = dom (fingers (conf_kb s)) \<union> dom snap"
  let ?kb2 = "process_missing now snap tids kb1"
  obtain outs3 where loop: "fire_loop now ?kb2 = Inr (outs3, kb')"
    by (rule fire_pending_loop_subseq [OF fire])
  have lay: "layout (conf_kb s) = ks" using reachable_inv [OF assms(1)] by (simp add: conf_inv_def)
  have "fingers kb1 a = Some da" using process_fingers_other [OF one, of a] a(1,4) kb by simp
  moreover have "a \<in> set tids" using a(1) ord(3) by auto
  ultimately have "\<not> fn_key_pressed ?kb2" using process_missing_clears_fn [OF inv(1)] a(2-4) by blast
  then have fn: "\<not> fn_key_pressed kb'" using fire_loop_fn_mono [OF loop] by blast
  have start: "0 \<le> starting_key_number db" "starting_key_number db < int (length ks)"
    using kinvD(8) [OF reachable_kinv [OF assms(1)] b(1)] b(2) by (simp_all add: finger_ok_def)
  have "fingers kb1 b = Some (db\<lparr>max_pressure := max (max_pressure db) (finger_p f),
      max_touch_major := max (max_touch_major db) (finger_touch_major f)\<rparr>)"
    by (rule process_fingers_stays [OF one ord(1) _ b(5)])
      (use b start kb lay ord(2) in auto)
  then obtain d where d: "fingers kb1 b = Some d" "rejection_status d = kNotRejectedYet" "down_sent d"
    "event_code d = KEY_FN" using b(2-4) by auto
  have "fingers ?kb2 b = fingers kb1 b"
    using process_missing_keeps_shown b(5) by simp
  with d(1) have d2: "fingers ?kb2 b = Some d" by simp
  have "\<forall>e \<in> set (pending_events ?kb2). pe_tid e \<noteq> b"
    using kinv_no_event [OF inv(2) [unfolded kb_inv_def] d2] d(3) by blast
  then have "fingers kb' b = Some d" using fire_loop_other [OF loop] d2 by simp
  moreover have "layout kb' = ks"
    using fire_loop_inv [OF inv(2)] loop process_missing_inv [OF inv(1), of snap tids] kb lay
      process_fingers_layout [OF one] by auto
  then have "\<exists>d. fingers (snd (arriving_finger later c g kb')) c = Some d \<and>
         event_code d = key_event_code (ks ! m)"
    using fn m by (simp add: arriving_finger_def GenerateEventForArrivingFinger_def Let_def)
  ultimately show ?thesis using run fn d by blast
qed

text \<open>
  A run with a Fn key and a letter: fingers 1 and 2 come down on Fn, both presses are sent, and
  finger 1 is lifted.
\<close>

definition fn_layout :: "key list" where
  "fn_layout =
     [\<lparr>key_event_code = KEY_FN, key_event_code_fn = 0, key_xmin = 0, key_xmax = 100,
       key_ymin = 0, key_ymax = 100\<rparr>,
      \<lparr>key_event_code = 30, key_event_code_fn = 59, key_xmin = 100, key_xmax = 200,
       key_ymin = 0, key_ymax = 100\<rparr>]"

definition touch_at :: "int \<Rightarrow> mt_finger" where
  "touch_at x = \<lparr>finger_x = x, finger_y = 50, finger_p = 80, finger_touch_major = -1\<rparr>"

definition fn_touches :: "input_event list" where
  "fn_touches = [input_ev EV_ABS ABS_MT_TRACKING_ID 1, input_ev EV_ABS ABS_MT_POSITION_X 10,
     input_ev EV_ABS ABS_MT_POSITION_Y 50, input_ev EV_ABS ABS_MT_PRESSURE 80,
     input_ev EV_ABS ABS_MT_SLOT 1, input_ev EV_ABS ABS_MT_TRACKING_ID 2,
     input_ev EV_ABS ABS_MT_POSITION_X 20, input_ev EV_ABS ABS_MT_POSITION_Y 50,
     input_ev EV_ABS ABS_MT_PRESSURE 80]"

definition fn_sm :: mt_state where
  "fn_sm = mt_run fn_touches mt_initial"

definition fn_lifted_sm :: mt_state where
  "fn_lifted_sm = mt_run [input_ev EV_ABS ABS_MT_SLOT 0, input_ev EV_ABS ABS_MT_TRACKING_ID (-1)] fn_sm"

definition fn_data :: "bool \<Rightarrow> finger_data" where
  "fn_data sent = \<lparr>arrival_time = sec1, max_pressure = 80, max_touch_major = -1,
     starting_key_number = 0, event_code = KEY_FN, down_sent = sent,
     rejection_status = kNotRejectedYet\<rparr>"

definition fn_kb :: "mt_state \<Rightarrow> bool \<Rightarrow> keyboard" where
  "fn_kb sm sent = (kb_initial fn_layout)\<lparr>kb_sm := sm, fingers := [1 \<mapsto> fn_data sent, 2 \<mapsto> fn_data sent],
     pending_events := (if sent then [] else
       map (new_event KEY_FN True (Timespec 1 50000000)) [1, 2]),
     fn_key_pressed := True\<rparr>"

lemmas frame_simps = ProcessIncomingSnapshot_def process_finger_def arriving_finger_def
  GenerateEventForArrivingFinger_def missing_finger_def kNoKey_def Key_Contains_def
  fn_layout_def touch_at_def kb_initial_def

lemma fn_snapshots:
  "completed_frame (Some syn_report) fn_sm = Some [1 \<mapsto> touch_at 10, 2 \<mapsto> touch_at 20]"
  "completed_frame (Some syn_report) fn_lifted_sm = Some [2 \<mapsto> touch_at 20]"
  by (simp_all add: completed_frame_def AddEvent_result is_report_def fn_lifted_sm_def fn_sm_def fn_touches_def
      mt_step_synced mt_initial_def is_dropped_def event_key_of_def event_key_class_defs
      FillSnapshot_def kNumSlots_def numeral_nat FindValueByEvent_def kSlotMissingValue_def
      slot_finger_def touch_at_def chosen_slot_def Let_def)

lemma fn_deadline: "AddMsToTimespec sec1 kEventDelayMS = Timespec 1 50000000"
  by (simp add: sec1_def kEventDelayMS_def AddMsToTimespec_def carry_nsec.simps)

lemma fn_press:
  "consume_event sec1 (Some syn_report) [1, 2] [1, 2] ((kb_initial fn_layout)\<lparr>kb_sm := fn_sm\<rparr>) =
     Inr ([Haptic 10 50, Haptic 20 50], fn_kb fn_sm False)"
proof -
  have sm: "\<not> dropping_events fn_sm" "FillSnapshot fn_sm = [1 \<mapsto> touch_at 10, 2 \<mapsto> touch_at 20]"
    using fn_snapshots(1) by (auto simp: completed_frame_def AddEvent_result Let_def split: if_splits)
  then have "AddEvent syn_report (Some Map.empty) fn_sm =
      (True, Some [1 \<mapsto> touch_at 10, 2 \<mapsto> touch_at 20], fn_sm)"
    by (simp add: AddEvent_result mt_step_report [OF sm(1)] is_report_def Let_def)
  moreover have "ProcessIncomingSnapshot sec1 [1 \<mapsto> touch_at 10, 2 \<mapsto> touch_at 20] [1, 2] [1, 2]
      ((kb_initial fn_layout)\<lparr>kb_sm := fn_sm\<rparr>) = Inr ([Haptic 10 50, Haptic 20 50], fn_kb fn_sm False)"
    by (simp add: frame_simps fn_kb_def fn_data_def fn_deadline new_event_def Let_def)
  moreover have "fire_loop sec1 (fn_kb fn_sm False) = Inr ([], fn_kb fn_sm False)"
    by (rule fire_loop_idle) (simp add: fn_kb_def sec1_def)
  ultimately show ?thesis by (simp add: consume_event_def fire_pending_def)
qed

lemma fn_fire:
  "\<exists>outs. consume_event (after_ms 100) None [] [] (fn_kb fn_sm False) = Inr (outs, fn_kb fn_sm True)"
  by (simp add: consume_event_def fire_pending_def fire_loop.simps fn_kb_def after_ms_eq fire_event_def
      tap_rejection_def layout_code_def fn_layout_def kb_initial_def fn_data_def key_output_def
      kMinTapPressure_def kMaxTapPressure_def fun_upd_twist)

lemma fn_reachable:
  "\<exists>s. reachable fn_layout s \<and> conf_kb s = fn_kb fn_lifted_sm True \<and> conf_clock s = after_ms 100"
proof -
  let ?s0 = "\<lparr>conf_kb = (kb_initial fn_layout)\<lparr>kb_sm := fn_sm\<rparr>, conf_clock = sec1, conf_sent = []\<rparr>"
  have "reachable fn_layout ?s0"
    using reachable_partials [OF reachable_initial [OF normal_sec1, of fn_layout], of fn_touches] normal_sec1
    by (simp add: conf_initial_def fn_sm_def fn_touches_def is_report_def kb_initial_def)
  moreover have "iteration_ok sec1 sec1 (Some syn_report) [1, 2] [1, 2] ((kb_initial fn_layout)\<lparr>kb_sm := fn_sm\<rparr>)"
    using fn_snapshots(1) normal_sec1
    by (auto simp: iteration_ok_def enumerates_def fresh_tids_def pending_tids_def kb_initial_def kOldTID_def)
  ultimately have one: "reachable fn_layout
      \<lparr>conf_kb = fn_kb fn_sm False, conf_clock = sec1, conf_sent = [Haptic 10 50, Haptic 20 50]\<rparr>"
    using reachable_step [OF _ kb_step.intros [of ?s0]] fn_press by fastforce
  obtain outs where fire: "consume_event (after_ms 100) None [] [] (fn_kb fn_sm False) = Inr (outs, fn_kb fn_sm True)"
    using fn_fire by blast
  have ok: "iteration_ok sec1 (after_ms 100) None [] [] (fn_kb fn_sm False)"
    by (simp add: iteration_ok_def completed_frame_def after_ms_eq normal_ts_def sec1_def)
  let ?s2 = "\<lparr>conf_kb = fn_kb fn_sm True, conf_clock = after_ms 100,
      conf_sent = [Haptic 10 50, Haptic 20 50] @ outs\<rparr>"
  from reachable_step [OF one kb_step.intros, of "after_ms 100" None "[]" "[]" outs] fire ok
  have "reachable fn_layout ?s2" by simp
  from reachable_partials [OF this, of "[input_ev EV_ABS ABS_MT_SLOT 0, input_ev EV_ABS ABS_MT_TRACKING_ID (-1)]"]
  show ?thesis
    by (intro exI [of _ "?s2\<lparr>conf_kb := fn_kb fn_lifted_sm True\<rparr>"])
      (simp add: after_ms_eq normal_ts_def is_report_def fn_kb_def fn_lifted_sm_def kb_initial_def)
qed

theorem leaving_one_fn_finger_releases_fn_witness:
  "\<exists>outs kb'. consume_event (after_ms 200) (Some syn_report) [2] [1, 2] (fn_kb fn_lifted_sm True) = Inr (outs, kb') \<and>
     (\<exists>d. fingers kb' 2 = Some d \<and> down_sent d \<and> event_code d = KEY_FN) \<and> \<not> fn_key_pressed kb' \<and>
     (\<exists>d. fingers (snd (arriving_finger (after_ms 200) 3 (touch_at 150) kb')) 3 = Some d \<and> event_code d = 30)"
proof -
  obtain s where s: "reachable fn_layout s" "conf_kb s = fn_kb fn_lifted_sm True" "conf_clock s = after_ms 100"
    using fn_reachable by blast
  have ok: "iteration_ok (conf_clock s) (after_ms 200) (Some syn_report) [2] [1, 2] (conf_kb s)"
    using fn_snapshots(2)
    by (auto simp: s(2,3) iteration_ok_def fn_kb_def after_ms_eq normal_ts_def enumerates_def fresh_tids_def
        kOldTID_def)
  have kb: "fingers (conf_kb s) = [1 \<mapsto> fn_data True, 2 \<mapsto> fn_data True]" "kb_sm (conf_kb s) = fn_lifted_sm"
    by (simp_all add: s(2) fn_kb_def)
  have m: "find_key fn_layout 0 (finger_x (touch_at 150)) (finger_y (touch_at 150)) = Some 1"
    "Key_Contains (fn_layout ! 0) (finger_x (touch_at 20)) (finger_y (touch_at 20))"
    "key_event_code (fn_layout ! 1) = 30"
    by (simp_all add: fn_layout_def touch_at_def Key_Contains_def)
  from leaving_one_fn_finger_releases_fn [OF s(1) ok _ _ _ _ _ _ _ _ _ _ _ m(1), of "[2 \<mapsto> touch_at 20]" 1
      "fn_data True" 2 "fn_data True" "touch_at 20" "after_ms 200" 3] fn_snapshots(2) kb m(2,3)
  show ?thesis by (fastforce simp: s(2) fn_data_def)
qed

end
