(* ===== verification/Syscalls.thy ===== *)
theory Syscalls
  imports Linux_Input Timespec
begin

text \<open>
  The program's view of the kernel: the system calls it makes and what they return
  (\<^verbatim>\<open>src/syscall_handler.cc\<close> and the direct calls of \<^verbatim>\<open>ff_driver.cc\<close> and \<^verbatim>\<open>main.cc\<close>). The kernel is
  a parameter: a function from the calls made so far, with their results, and the next call
  to its result. Nothing is assumed of it here.
\<close>

section \<open>Calls and results\<close>

record absinfo =
  abs_value :: int
  abs_minimum :: int
  abs_maximum :: int
  abs_fuzz :: int
  abs_flat :: int
  abs_resolution :: int

record ff_effect =
  ff_type :: int
  ff_id :: int
  ff_strong_magnitude :: int
  ff_weak_magnitude :: int
  ff_length :: int
  ff_delay :: int

text \<open>
  The arguments of the two uinput requests of \<^verbatim>\<open>uinput_definitions.h\<close>; \<^verbatim>\<open>input_id\<close> is the kernel's.
\<close>

record input_id =
  id_bustype :: int
  id_vendor :: int
  id_product :: int
  id_version :: int

record uinput_abs_setup =
  axis_code :: int
  axis_info :: absinfo

record uinput_setup =
  dev_id :: input_id
  dev_name :: string
  ff_effects_max :: int

datatype ioctl_request =
    UI_SET_EVBIT int
  | UI_SET_KEYBIT int
  | UI_SET_ABSBIT int
  | UI_ABS_SETUP uinput_abs_setup
  | UI_DEV_SETUP uinput_setup
  | UI_DEV_CREATE
  | UI_DEV_DESTROY
  | EVIOCGBIT int nat
  | EVIOCGABS int
  | EVIOCSFF ff_effect

datatype syscall =
    SysOpen string int
  | SysClose int
  | SysWrite int input_event
  | SysRead int
  | SysSelect int int int
  | SysIoctl int ioctl_request
  | SysClock
  | SysFork
  | SysWaitpid int
  | SysKill int int

datatype payload =
    NoData
  | Bits "8 word list"
  | Absinfo absinfo
  | InputEvent input_event
  | EffectId int
  | Clock timespec
  | WaitStatus int

record sysret =
  ret :: int
  err :: int
  payload :: payload

type_synonym trace = "(syscall \<times> sysret) list"
type_synonym kernel = "trace \<Rightarrow> syscall \<Rightarrow> sysret"

abbreviation (input) O_RDONLY :: int where "O_RDONLY \<equiv> 0"
abbreviation (input) O_WRONLY :: int where "O_WRONLY \<equiv> 1"
abbreviation (input) O_RDWR :: int where "O_RDWR \<equiv> 2"
abbreviation (input) O_NONBLOCK :: int where "O_NONBLOCK \<equiv> 2048"
abbreviation (input) O_CLOEXEC :: int where "O_CLOEXEC \<equiv> 524288"

abbreviation (input) ENOENT :: int where "ENOENT \<equiv> 2"
abbreviation (input) ESRCH :: int where "ESRCH \<equiv> 3"
abbreviation (input) EINTR :: int where "EINTR \<equiv> 4"
abbreviation (input) ENODEV :: int where "ENODEV \<equiv> 19"
abbreviation (input) SIGTERM :: int where "SIGTERM \<equiv> 15"

text \<open>\<^verbatim>\<open>sizeof(struct input_event)\<close> on 64-bit Linux, and the highest descriptor of an \<^verbatim>\<open>fd_set\<close>.\<close>

definition sizeof_input_event :: int where "sizeof_input_event = 24"
definition FD_SETSIZE :: int where "FD_SETSIZE = 1024"

section \<open>A process\<close>

text \<open>
  The state of a worker process that system calls depend on or change: the members of
  \<^verbatim>\<open>UinputDevice\<close>, \<^verbatim>\<open>EvdevSource\<close> and the two \<^verbatim>\<open>FFDriver\<close>s, and the calls made so far.
\<close>

record proc =
  uinput_fd :: int
  device_created :: bool
  source_fd :: int
  left_fd :: int
  right_fd :: int
  trace :: trace

definition proc_initial :: proc where
  "proc_initial = \<lparr>uinput_fd = -1, device_created = False, source_fd = -1, left_fd = -1,
                   right_fd = -1, trace = []\<rparr>"

type_synonym 'a io = "proc \<Rightarrow> (exn + 'a) \<times> proc"

definition io_return :: "'a \<Rightarrow> 'a io" where
  "io_return x w = (Inr x, w)"

definition io_throw :: "exn \<Rightarrow> 'a io" where
  "io_throw e w = (Inl e, w)"

definition io_bind :: "'a io \<Rightarrow> ('a \<Rightarrow> 'b io) \<Rightarrow> 'b io" where
  "io_bind m f w = (case m w of (r, w1) \<Rightarrow> (case r of Inl e \<Rightarrow> (Inl e, w1) | Inr x \<Rightarrow> f x w1))"

definition sys :: "kernel \<Rightarrow> syscall \<Rightarrow> sysret io" where
  "sys K c w = (Inr (K (trace w) c), w\<lparr>trace := trace w @ [(c, K (trace w) c)]\<rparr>)"

lemma io_simps [simp]:
  "io_return x w = (Inr x, w)"
  "io_throw e w = (Inl e, w)"
  "io_bind (io_return x) f = f x"
  by (simp_all add: io_return_def io_throw_def io_bind_def fun_eq_iff)

lemma sys_bind [simp]:
  "io_bind (sys K c) f w = f (K (trace w) c) (w\<lparr>trace := trace w @ [(c, K (trace w) c)]\<rparr>)"
  by (simp add: io_bind_def sys_def)

lemma io_bind_eq:
  "io_bind m f w = (r, w2) \<longleftrightarrow>
     (\<exists>e w1. m w = (Inl e, w1) \<and> r = Inl e \<and> w2 = w1) \<or>
     (\<exists>x w1. m w = (Inr x, w1) \<and> f x w1 = (r, w2))"
  by (auto simp: io_bind_def split: prod.splits sum.splits)

lemma io_bind_Inr [simp]: "m w = (Inr x, w1) \<Longrightarrow> io_bind m f w = f x w1"
  by (simp add: io_bind_def)

lemma io_bind_Inl [simp]: "m w = (Inl e, w1) \<Longrightarrow> io_bind m f w = (Inl e, w1)"
  by (simp add: io_bind_def)

lemma io_bind_assoc: "io_bind (io_bind m f) g = io_bind m (\<lambda>x. io_bind (f x) g)"
  by (simp add: fun_eq_iff io_bind_def split: prod.split sum.split)

section \<open>What an operation does to the trace\<close>

text \<open>
  Every operation only appends to the trace. \<open>calls P m\<close> says that whatever \<open>m\<close> appends, whether
  it returns or throws, satisfies \<open>P\<close>, a property of a call in its context.
\<close>

definition calls :: "(syscall \<times> sysret \<Rightarrow> bool) \<Rightarrow> 'a io \<Rightarrow> bool" where
  "calls P m \<longleftrightarrow> (\<forall>w. \<exists>ext. trace (snd (m w)) = trace w @ ext \<and> (\<forall>x \<in> set ext. P x))"

lemma callsE:
  assumes "calls P m" and "m w = (r, w')"
  obtains ext where "trace w' = trace w @ ext" "\<forall>x \<in> set ext. P x"
  using assms unfolding calls_def by (metis snd_conv)

lemma callsI: "(\<And>w r w'. m w = (r, w') \<Longrightarrow> \<exists>ext. trace w' = trace w @ ext \<and> (\<forall>x \<in> set ext. P x)) \<Longrightarrow>
    calls P m"
  unfolding calls_def by (metis prod.collapse)

lemma calls_return [simp]: "calls P (io_return x)"
  by (simp add: calls_def)

lemma calls_throw [simp]: "calls P (io_throw e)"
  by (simp add: calls_def)

lemma calls_Pair [simp]: "calls P (Pair r)"
  by (simp add: calls_def)

lemma calls_sys [simp]: "calls P (sys K c) \<longleftrightarrow> (\<forall>tr. P (c, K tr c))"
proof
  assume *: "calls P (sys K c)"
  show "\<forall>tr. P (c, K tr c)"
  proof
    fix tr
    from * have "\<exists>ext. trace (snd (sys K c (proc_initial\<lparr>trace := tr\<rparr>))) =
        trace (proc_initial\<lparr>trace := tr\<rparr>) @ ext \<and> (\<forall>x \<in> set ext. P x)"
      unfolding calls_def by blast
    then show "P (c, K tr c)" by (simp add: sys_def)
  qed
qed (simp add: calls_def sys_def)

lemma calls_bind:
  assumes "calls P m" and "\<And>x. calls P (f x)"
  shows "calls P (io_bind m f)"
proof (rule callsI)
  fix w r w'
  assume "io_bind m f w = (r, w')"
  then consider e where "m w = (Inl e, w')" | x w1 where "m w = (Inr x, w1)" "f x w1 = (r, w')"
    by (auto simp: io_bind_eq)
  then show "\<exists>ext. trace w' = trace w @ ext \<and> (\<forall>x \<in> set ext. P x)"
  proof cases
    case 1
    then show ?thesis by (elim callsE [OF assms(1)]) blast
  next
    case 2
    obtain e1 where "trace w1 = trace w @ e1" "\<forall>x \<in> set e1. P x"
      by (rule callsE [OF assms(1) 2(1)])
    moreover obtain e2 where "trace w' = trace w1 @ e2" "\<forall>x \<in> set e2. P x"
      by (rule callsE [OF assms(2) 2(2)])
    ultimately show ?thesis by auto
  qed
qed

lemma calls_mono: "calls P m \<Longrightarrow> (\<And>x. P x \<Longrightarrow> Q x) \<Longrightarrow> calls Q m"
  unfolding calls_def by blast

lemma calls_state: "(\<And>x. calls P (m x)) \<Longrightarrow> calls P (\<lambda>s. m (g s) s)"
  unfolding calls_def by blast

section \<open>Actions that never throw\<close>

text \<open>\<open>returns Q m\<close>: from every state \<open>m\<close> returns, and what it returns satisfies \<open>Q\<close>.\<close>

definition returns :: "('a \<Rightarrow> bool) \<Rightarrow> 'a io \<Rightarrow> bool" where
  "returns Q m \<longleftrightarrow> (\<forall>w. \<exists>x w'. m w = (Inr x, w') \<and> Q x)"

lemma returnsD: "returns Q m \<Longrightarrow> \<exists>x w'. m w = (Inr x, w') \<and> Q x"
  unfolding returns_def by blast

lemma returnsI: "(\<And>w. \<exists>x w'. m w = (Inr x, w') \<and> Q x) \<Longrightarrow> returns Q m"
  unfolding returns_def by blast

lemma returns_return [simp]: "returns Q (io_return x) \<longleftrightarrow> Q x"
  by (simp add: returns_def)

lemma returns_sys [simp]: "returns (\<lambda>_. True) (sys K c)"
  by (simp add: returns_def sys_def)

lemma returns_bind:
  assumes "returns Q m" and "\<And>x. Q x \<Longrightarrow> returns R (f x)"
  shows "returns R (io_bind m f)"
proof (rule returnsI)
  fix w
  obtain x w1 where m: "m w = (Inr x, w1)" "Q x" using returnsD [OF assms(1)] by blast
  then show "\<exists>y w'. io_bind m f w = (Inr y, w') \<and> R y"
    using returnsD [OF assms(2) [OF m(2)], of w1] by simp
qed

section \<open>Which exceptions an action throws\<close>

definition throws :: "(exn \<Rightarrow> bool) \<Rightarrow> 'a io \<Rightarrow> bool" where
  "throws Q m \<longleftrightarrow> (\<forall>w e w'. m w = (Inl e, w') \<longrightarrow> Q e)"

lemma throwsI: "(\<And>w e w'. m w = (Inl e, w') \<Longrightarrow> Q e) \<Longrightarrow> throws Q m"
  unfolding throws_def by blast

lemma throwsD: "throws Q m \<Longrightarrow> m w = (Inl e, w') \<Longrightarrow> Q e"
  unfolding throws_def by blast

lemma throws_simps [simp]:
  "throws Q (io_return x)" "throws Q (Pair (Inr x))" "throws Q (sys K c)" "throws Q (io_throw e) \<longleftrightarrow> Q e"
  by (auto simp: throws_def sys_def)

lemma throws_bind: "throws Q m \<Longrightarrow> (\<And>x. throws Q (f x)) \<Longrightarrow> throws Q (io_bind m f)"
  unfolding throws_def by (auto simp: io_bind_eq) blast+

lemma throws_state: "(\<And>x. throws Q (m x)) \<Longrightarrow> throws Q (\<lambda>s. m (g s) s)"
  unfolding throws_def by blast

lemma throws_returns: "returns R m \<Longrightarrow> throws Q m"
  unfolding throws_def returns_def by (metis Inl_Inr_False fst_conv)

section \<open>What an action keeps\<close>

text \<open>\<open>preserves I m\<close>: if the process satisfies \<open>I\<close> before \<open>m\<close>, it does after, however \<open>m\<close> ends.\<close>

definition preserves :: "(proc \<Rightarrow> bool) \<Rightarrow> 'a io \<Rightarrow> bool" where
  "preserves I m \<longleftrightarrow> (\<forall>w. I w \<longrightarrow> I (snd (m w)))"

lemma preservesI: "(\<And>w. I w \<Longrightarrow> I (snd (m w))) \<Longrightarrow> preserves I m"
  by (simp add: preserves_def)

lemma preservesD: "preserves I m \<Longrightarrow> m w = (r, w') \<Longrightarrow> I w \<Longrightarrow> I w'"
  unfolding preserves_def by (metis snd_conv)

lemma preserves_simps [simp]:
  "preserves I (io_return u)" "preserves I (io_throw e)" "preserves I (Pair x)"
  by (simp_all add: preserves_def)

lemma preserves_bind: "preserves I m \<Longrightarrow> (\<And>x. preserves I (f x)) \<Longrightarrow> preserves I (io_bind m f)"
  unfolding preserves_def io_bind_def by (fastforce split: prod.split sum.split)

lemma preserves_state: "(\<And>x. preserves I (m x)) \<Longrightarrow> preserves I (\<lambda>s. m (g s) s)"
  unfolding preserves_def by blast

end
