(* ===== verification/Emission.thy ===== *)
theory Emission
  imports Syscalls
begin

text \<open>
  Computing first and writing afterwards, against writing in the middle of the computation: a
  computation that returns its outputs as a list, run by writing them out at its end, and the laws
  by which such runs are composed.
\<close>

definition emit :: "('e list \<Rightarrow> unit io) \<Rightarrow> exn + 'e list \<times> 'a \<Rightarrow> 'a io" where
  "emit puts r =
     (case r of
        Inl e \<Rightarrow> io_throw e
      | Inr (outs, x) \<Rightarrow> io_bind (puts outs) (\<lambda>_. io_return x))"

text \<open>
  A channel: writing a list writes its elements one after the other. Then the run of two
  computations in sequence is the sequence of their runs, provided that the second does not fail.
\<close>

locale emission =
  fixes send :: "'e \<Rightarrow> unit io"
    and send_all :: "'e list \<Rightarrow> unit io"
  assumes send_all_Nil: "send_all [] = io_return ()"
    and send_all_Cons: "send_all (e # es) = io_bind (send e) (\<lambda>_. send_all es)"
begin

lemma send_all_append: "send_all (es @ es') = io_bind (send_all es) (\<lambda>_. send_all es')"
proof (induction es)
  case Nil
  show ?case by (simp add: send_all_Nil)
next
  case (Cons e es)
  then show ?case by (simp add: send_all_Cons io_bind_assoc)
qed

lemma emit_fail [simp]: "emit send_all (Inl e) = io_throw e"
  by (simp add: emit_def)

lemma emit_Nil [simp]: "emit send_all (Inr ([], x)) = io_return x"
  by (simp add: emit_def send_all_Nil del: io_simps(1))

lemma emit_Cons [simp]:
  "emit send_all (Inr (e # es, x)) = io_bind (send e) (\<lambda>_. emit send_all (Inr (es, x)))"
  by (simp add: emit_def send_all_Cons io_bind_assoc)

lemma emit_bind: "io_bind (emit send_all (Inr (es, x))) f = io_bind (send_all es) (\<lambda>_. f x)"
  by (simp add: emit_def io_bind_assoc)

lemma emit_append:
  "emit send_all (Inr (es @ es', x)) = io_bind (send_all es) (\<lambda>_. emit send_all (Inr (es', x)))"
  by (simp add: emit_def send_all_append io_bind_assoc)

text \<open>The rule by which the loops are taken apart: run one part, then the rest.\<close>

lemma emit_sequence:
  "io_bind (emit send_all (Inr (es, x))) (\<lambda>y. emit send_all (g y)) = emit send_all (Inr (es @ es', z))"
  if "g x = Inr (es', z)"
  using that by (simp add: emit_bind emit_append)

end

end
