(* ===== verification/Uinput_Device.thy ===== *)
theory Uinput_Device
  imports Emission
begin

text \<open>
  \<^verbatim>\<open>src/uinput_device.cc\<close>: creating a virtual input device, giving it the event codes it may
  send, cloning the absolute axes of the source device, and sending events.
\<close>

unbundle bit_operations_syntax

definition kUinputControlFilename :: string where
  "kUinputControlFilename = ''/dev/uinput''"

definition kVersionNumber :: int where
  "kVersionNumber = 1"

definition UINPUT_MAX_NAME_SIZE :: nat where
  "UINPUT_MAX_NAME_SIZE = 80"

definition BytesForBits :: "nat \<Rightarrow> nat" where
  "BytesForBits bit_count = (bit_count + 7) div 8"

section \<open>Creation and destruction\<close>

definition UinputDevice_destructor :: "kernel \<Rightarrow> unit io" where
  "UinputDevice_destructor K w =
     io_bind
       (if 0 \<le> uinput_fd w \<and> device_created w
        then io_bind (sys K (SysIoctl (uinput_fd w) UI_DEV_DESTROY)) (\<lambda>_. io_return ())
        else io_return ())
       (\<lambda>_. if 0 \<le> uinput_fd w
             then io_bind (sys K (SysClose (uinput_fd w))) (\<lambda>_. io_return ())
             else io_return ()) w"

definition CreateUinputFD :: "kernel \<Rightarrow> bool io" where
  "CreateUinputFD K w =
     (if 0 \<le> uinput_fd w then (Inr False, w)
      else io_bind (sys K (SysOpen kUinputControlFilename (O_WRONLY + O_NONBLOCK + O_CLOEXEC)))
        (\<lambda>r w1. (Inr (0 \<le> ret r), w1\<lparr>uinput_fd := ret r\<rparr>)) w)"

definition EnableEventType :: "kernel \<Rightarrow> int \<Rightarrow> bool io" where
  "EnableEventType K t w =
     io_bind (sys K (SysIoctl (uinput_fd w) (UI_SET_EVBIT t)))
       (\<lambda>r. io_return (ret r = 0)) w"

definition EnableKeyEvent :: "kernel \<Rightarrow> int \<Rightarrow> bool io" where
  "EnableKeyEvent K c w =
     io_bind (sys K (SysIoctl (uinput_fd w) (UI_SET_KEYBIT c)))
       (\<lambda>r. io_return (ret r = 0)) w"

definition EnableAbsEvent :: "kernel \<Rightarrow> int \<Rightarrow> bool io" where
  "EnableAbsEvent K c w =
     io_bind (sys K (SysIoctl (uinput_fd w) (UI_SET_ABSBIT c)))
       (\<lambda>r. io_return (ret r = 0)) w"

text \<open>
  The description of the device, zeroed and then filled in. The name is copied with
  \<^verbatim>\<open>snprintf\<close>, which keeps room for the terminating zero.
\<close>

definition device_info :: "string \<Rightarrow> uinput_setup" where
  "device_info device_name =
     \<lparr>dev_id = \<lparr>id_bustype = BUS_VIRTUAL, id_vendor = 0, id_product = 0, id_version = kVersionNumber\<rparr>,
      dev_name = take (UINPUT_MAX_NAME_SIZE - 1) device_name, ff_effects_max = 0\<rparr>"

definition FinalizeUinputCreation :: "kernel \<Rightarrow> string \<Rightarrow> bool io" where
  "FinalizeUinputCreation K device_name w =
     io_bind (sys K (SysIoctl (uinput_fd w) (UI_DEV_SETUP (device_info device_name))))
       (\<lambda>r1. if ret r1 \<noteq> 0 then io_return False
             else io_bind (sys K (SysIoctl (uinput_fd w) UI_DEV_CREATE))
               (\<lambda>r2. if ret r2 \<noteq> 0 then io_return False
                     else (\<lambda>w2. (Inr True, w2\<lparr>device_created := True\<rparr>)))) w"

section \<open>Sending events\<close>

text \<open>The fields of \<^verbatim>\<open>struct input_event\<close> for type and code are 16 bits wide.\<close>

definition SendEvent :: "kernel \<Rightarrow> int \<Rightarrow> int \<Rightarrow> int \<Rightarrow> unit io" where
  "SendEvent K t c value w =
     io_bind (sys K (SysWrite (uinput_fd w) (input_ev (to_u16 t) (to_u16 c) value)))
       (\<lambda>r. if ret r < 0 then io_throw (SystemError (err r) ''write uinput event'')
            else if ret r \<noteq> sizeof_input_event
            then io_throw (RuntimeError ''short write while sending uinput event'')
            else io_return ()) w"

fun SendEvents :: "kernel \<Rightarrow> input_event list \<Rightarrow> unit io" where
  "SendEvents K [] = io_return ()"
| "SendEvents K (e # es) =
     io_bind (SendEvent K (ev_type e) (ev_code e) (ev_value e)) (\<lambda>_. SendEvents K es)"

section \<open>Capabilities\<close>

text \<open>\<open>None\<close> is a null pointer; a byte is promoted to \<^verbatim>\<open>unsigned\<close> before the mask is applied.\<close>

definition IsEventSupported :: "int \<Rightarrow> 8 word list option \<Rightarrow> bool" where
  "IsEventSupported event supported_events =
     (case supported_events of
        None \<Rightarrow> False
      | Some bytes \<Rightarrow>
          if event < 0 \<or> int (length bytes) \<le> event div 8 then False
          else (ucast (bytes ! nat (event div 8)) AND push_bit (nat (event mod 8)) (1 :: 32 word)) \<noteq> 0)"

text \<open>What the kernel leaves in a zeroed buffer of \<open>n\<close> bytes.\<close>

definition fill_buffer :: "nat \<Rightarrow> payload \<Rightarrow> 8 word list" where
  "fill_buffer n p = (case p of Bits bs \<Rightarrow> take n (bs @ replicate n 0) | _ \<Rightarrow> replicate n 0)"

definition fill_absinfo :: "payload \<Rightarrow> absinfo" where
  "fill_absinfo p =
     (case p of Absinfo a \<Rightarrow> a
      | _ \<Rightarrow> \<lparr>abs_value = 0, abs_minimum = 0, abs_maximum = 0, abs_fuzz = 0, abs_flat = 0,
              abs_resolution = 0\<rparr>)"

definition axis_setup :: "int \<Rightarrow> int \<Rightarrow> int \<Rightarrow> int \<Rightarrow> int \<Rightarrow> absinfo \<Rightarrow> absinfo" where
  "axis_setup width height xres yres c info =
     (if c = ABS_MT_POSITION_X \<or> c = ABS_X
      then info\<lparr>abs_minimum := 0, abs_maximum := width, abs_resolution := xres\<rparr>
      else if c = ABS_MT_POSITION_Y \<or> c = ABS_Y
      then info\<lparr>abs_minimum := 0, abs_maximum := height, abs_resolution := yres\<rparr>
      else info)"

text \<open>The loop over the axis codes.\<close>

fun copy_axes ::
  "kernel \<Rightarrow> int \<Rightarrow> int \<Rightarrow> int \<Rightarrow> int \<Rightarrow> int \<Rightarrow> 8 word list \<Rightarrow> int list \<Rightarrow> bool io" where
  "copy_axes K src width height xres yres codes [] = io_return True"
| "copy_axes K src width height xres yres codes (c # rest) =
     (\<lambda>w.
      if \<not> IsEventSupported c (Some codes)
      then copy_axes K src width height xres yres codes rest w
      else io_bind (EnableAbsEvent K c) (\<lambda>ok.
        if \<not> ok then io_return False
        else io_bind (sys K (SysIoctl src (EVIOCGABS c))) (\<lambda>r1.
          if ret r1 < 0 then io_return False
          else io_bind (sys K (SysIoctl (uinput_fd w)
                 (UI_ABS_SETUP \<lparr>axis_code = c,
                    axis_info = axis_setup width height xres yres c (fill_absinfo (payload r1))\<rparr>)))
            (\<lambda>r2. if ret r2 \<noteq> 0 then io_return False
                  else copy_axes K src width height xres yres codes rest))) w)"

definition abs_codes :: "int list" where
  "abs_codes = map int [0..<nat ABS_CNT]"

definition CopyABSOutputEvents :: "kernel \<Rightarrow> int \<Rightarrow> int \<Rightarrow> int \<Rightarrow> int \<Rightarrow> int \<Rightarrow> bool io" where
  "CopyABSOutputEvents K source_evdev_fd width height xres yres =
     io_bind (sys K (SysIoctl source_evdev_fd (EVIOCGBIT 0 (BytesForBits (nat EV_CNT))))) (\<lambda>r1.
       if ret r1 < 0 then io_return False
       else let types = fill_buffer (BytesForBits (nat EV_CNT)) (payload r1) in
         if \<not> IsEventSupported EV_ABS (Some types) then io_return False
         else io_bind (EnableEventType K EV_ABS) (\<lambda>ok.
           if \<not> ok then io_return False
           else io_bind (sys K (SysIoctl source_evdev_fd
                           (EVIOCGBIT EV_ABS (BytesForBits (nat ABS_CNT))))) (\<lambda>r2.
             if ret r2 < 0 then io_return False
             else copy_axes K source_evdev_fd width height xres yres
                    (fill_buffer (BytesForBits (nat ABS_CNT)) (payload r2)) abs_codes)))"

section \<open>Supported events\<close>

lemma mask_bit: "n < 32 \<Longrightarrow> (w AND push_bit n (1 :: 32 word)) \<noteq> 0 \<longleftrightarrow> bit w n"
  by (simp add: bit_iff_and_push_bit_not_eq_0)

text \<open>
  The capability test is the bit of the event in the kernel's bit field, the byte
  \<open>event div 8\<close> and the bit \<open>event mod 8\<close> of it, and false for everything outside the buffer;
  in particular no byte outside the buffer is read.
\<close>

theorem IsEventSupported_bit:
  "IsEventSupported event (Some bytes) \<longleftrightarrow>
     0 \<le> event \<and> nat event div 8 < length bytes \<and> bit (bytes ! (nat event div 8)) (nat event mod 8)"
proof (cases "0 \<le> event")
  case False
  then show ?thesis by (simp add: IsEventSupported_def)
next
  case True
  then obtain n where n: "event = int n" by (metis nonneg_int_cases)
  have small: "n mod 8 < 32" using mod_less_divisor [of 8 n] by linarith
  have idx: "nat (int n div 8) = n div 8" "nat (int n mod 8) = n mod 8"
    by (simp_all add: nat_div_distrib nat_mod_distrib)
  have len: "int (length bytes) \<le> int n div 8 \<longleftrightarrow> length bytes \<le> n div 8"
    by (metis of_nat_le_iff of_nat_numeral zdiv_int)
  have "(ucast (bytes ! (n div 8)) AND push_bit (n mod 8) (1 :: 32 word)) \<noteq> 0 \<longleftrightarrow>
      bit (bytes ! (n div 8)) (n mod 8)"
    unfolding mask_bit [OF small] using small by (simp add: bit_ucast_iff)
  then show ?thesis
    unfolding IsEventSupported_def n option.case idx len nat_int by (simp add: not_le)
qed

section \<open>Sending\<close>

text \<open>
  The contract of a channel to the kernel: sending an element makes exactly one call, changes nothing but
  the trace, and returns iff the call was accepted. Sending a list then makes the calls of
  its elements in order, all of them or those up to the first that was not accepted.
\<close>

locale event_sink = emission send send_all
  for send :: "'e \<Rightarrow> unit io" and send_all :: "'e list \<Rightarrow> unit io" +
  fixes call :: "'e \<Rightarrow> proc \<Rightarrow> syscall"
    and accepted :: "sysret \<Rightarrow> bool"
  assumes send_one: "\<exists>r. snd (send e w) = w\<lparr>trace := trace w @ [(call e w, r)]\<rparr> \<and>
      (fst (send e w) = Inr () \<longleftrightarrow> accepted r)"
    and call_trace: "call e (w\<lparr>trace := tr\<rparr>) = call e w"
begin

lemma send_all_ok:
  "send_all es w = (Inr (), w') \<Longrightarrow>
     \<exists>rs. length rs = length es \<and> list_all accepted rs \<and>
       w' = w\<lparr>trace := trace w @ zip (map (\<lambda>e. call e w) es) rs\<rparr>"
proof (induction es arbitrary: w)
  case Nil
  then show ?case by (simp add: send_all_Nil)
next
  case (Cons e es)
  obtain r where r: "snd (send e w) = w\<lparr>trace := trace w @ [(call e w, r)]\<rparr>"
    "fst (send e w) = Inr () \<longleftrightarrow> accepted r" using send_one by blast
  from Cons.prems have one: "fst (send e w) = Inr ()"
    and rest: "send_all es (snd (send e w)) = (Inr (), w')"
    by (auto simp: send_all_Cons io_bind_def split: prod.splits sum.splits)
  from Cons.IH [OF rest] r(1) obtain rs where
    "length rs = length es" "list_all accepted rs"
    "w' = w\<lparr>trace := (trace w @ [(call e w, r)]) @ zip (map (\<lambda>x. call x w) es) rs\<rparr>"
    by (auto simp: call_trace)
  with one r(2) show ?case by (intro exI [of _ "r # rs"]) simp
qed

lemma send_all_any:
  "send_all es w = (res, w') \<Longrightarrow>
     \<exists>n rs. n \<le> length es \<and> length rs = n \<and>
       w' = w\<lparr>trace := trace w @ zip (map (\<lambda>e. call e w) (take n es)) rs\<rparr> \<and>
       (res = Inr () \<longleftrightarrow> n = length es \<and> list_all accepted rs)"
proof (induction es arbitrary: w)
  case Nil
  then show ?case by (simp add: send_all_Nil)
next
  case (Cons e es)
  obtain r where r: "snd (send e w) = w\<lparr>trace := trace w @ [(call e w, r)]\<rparr>"
    "fst (send e w) = Inr () \<longleftrightarrow> accepted r" using send_one by blast
  show ?case
  proof (cases "fst (send e w)")
    case (Inl x)
    with Cons.prems r show ?thesis
      by (intro exI [of _ 1] exI [of _ "[r]"])
        (auto simp: send_all_Cons io_bind_def split: prod.splits)
  next
    case (Inr u)
    with Cons.prems have rest: "send_all es (snd (send e w)) = (res, w')"
      by (auto simp: send_all_Cons io_bind_def split: prod.splits)
    from Cons.IH [OF rest] r(1) obtain n rs where
      "n \<le> length es" "length rs = n"
      "w' = w\<lparr>trace := (trace w @ [(call e w, r)]) @ zip (map (\<lambda>x. call x w) (take n es)) rs\<rparr>"
      "res = Inr () \<longleftrightarrow> n = length es \<and> list_all accepted rs"
      by (auto simp: call_trace)
    with Inr r(2) show ?thesis
      by (intro exI [of _ "Suc n"] exI [of _ "r # rs"]) simp
  qed
qed

end

definition event_call :: "input_event \<Rightarrow> proc \<Rightarrow> syscall" where
  "event_call e w =
     SysWrite (uinput_fd w) (input_ev (to_u16 (ev_type e)) (to_u16 (ev_code e)) (ev_value e))"

definition full_write :: "sysret \<Rightarrow> bool" where
  "full_write r \<longleftrightarrow> ret r = sizeof_input_event"

interpretation uinput_sink: event_sink
  "\<lambda>e. SendEvent K (ev_type e) (ev_code e) (ev_value e)" "SendEvents K" event_call full_write for K
proof (unfold_locales, goal_cases)
  case (3 e w)
  show ?case
    by (intro exI [of _ "K (trace w) (event_call e w)"])
      (simp add: SendEvent_def event_call_def full_write_def sizeof_input_event_def)
qed (simp_all add: event_call_def)

text \<open>
  Sending a list of events writes each of them to the device, in order and one record per
  call, with its type and code cut to 16 bits; if a write fails or is short nothing after it
  is written and an exception is thrown, and only then.
\<close>

theorem events_are_written_in_order:
  assumes "SendEvents K es w = (res, w')"
  shows "\<exists>n rs. n \<le> length es \<and> length rs = n \<and>
    w' = w\<lparr>trace := trace w @ zip (map (\<lambda>e. SysWrite (uinput_fd w)
            (input_ev (to_u16 (ev_type e)) (to_u16 (ev_code e)) (ev_value e))) (take n es)) rs\<rparr> \<and>
    (res = Inr () \<longleftrightarrow> n = length es \<and> (\<forall>r \<in> set rs. ret r = sizeof_input_event))"
  using uinput_sink.send_all_any [OF assms]
  by (simp add: event_call_def full_write_def [abs_def] list_all_iff)

text \<open>A kernel that accepts everything.\<close>

definition good_ret :: "syscall \<Rightarrow> int" where
  "good_ret c = (case c of SysWrite _ _ \<Rightarrow> sizeof_input_event | SysRead _ \<Rightarrow> sizeof_input_event
                 | SysOpen _ _ \<Rightarrow> 3 | SysSelect _ _ _ \<Rightarrow> 1 | _ \<Rightarrow> 0)"

definition good_kernel :: kernel where
  "good_kernel tr c = \<lparr>ret = good_ret c, err = 0, payload = NoData\<rparr>"

theorem events_are_written_in_order_witness:
  "\<exists>w'. SendEvents good_kernel [input_ev EV_KEY 30 1, input_ev EV_SYN SYN_REPORT 0] proc_initial =
      (Inr (), w') \<and> length (trace w') = 2"
proof -
  obtain res w' where
    run: "SendEvents good_kernel [input_ev EV_KEY 30 1, input_ev EV_SYN SYN_REPORT 0] proc_initial = (res, w')"
    by fastforce
  moreover have "res = Inr ()"
    using run by (simp add: SendEvent_def good_kernel_def good_ret_def sizeof_input_event_def)
  ultimately show ?thesis
    using events_are_written_in_order [OF run] by (fastforce simp: proc_initial_def)
qed

end
