(* ===== verification/Evdev_Source.thy ===== *)
theory Evdev_Source
  imports Syscalls
begin

text \<open>
  \<^verbatim>\<open>src/evdev_source.cc\<close>: opening the touch panel and waiting for its next event. Using
  \<^verbatim>\<open>FD_SET\<close> with a descriptor outside \<open>0 .. 1023\<close> is undefined behaviour.
\<close>

definition kNoTimeout :: int where
  "kNoTimeout = -1"

definition EvdevSource_destructor :: "kernel \<Rightarrow> unit io" where
  "EvdevSource_destructor K w =
     (if 0 \<le> source_fd w
      then io_bind (sys K (SysClose (source_fd w))) (\<lambda>_. io_return ())
      else io_return ()) w"

definition OpenSourceDevice :: "kernel \<Rightarrow> string \<Rightarrow> bool io" where
  "OpenSourceDevice K source_device_path w =
     (if 0 \<le> source_fd w then (Inr False, w)
      else io_bind (sys K (SysOpen source_device_path (O_RDONLY + O_CLOEXEC)))
        (\<lambda>r w1. let w2 = w1\<lparr>source_fd := ret r\<rparr> in
           if ret r < 0
           then (Inl (SystemError (err r) (''open source device '' @ source_device_path)), w2)
           else (Inr True, w2)) w)"

text \<open>The comparison of an error code with the two error conditions, on the generic category.\<close>

definition IsExpectedSourceDeviceError :: "int \<Rightarrow> bool" where
  "IsExpectedSourceDeviceError e \<longleftrightarrow> e = ENOENT \<or> e = ENODEV"

text \<open>The zero-initialised event the caller passes, as the read leaves it.\<close>

definition fill_event :: "payload \<Rightarrow> input_event" where
  "fill_event p = (case p of InputEvent e \<Rightarrow> e | _ \<Rightarrow> input_ev 0 0 0)"

definition read_event :: "kernel \<Rightarrow> input_event option io" where
  "read_event K w =
     io_bind (sys K (SysRead (source_fd w))) (\<lambda>r.
       if ret r < 0 then io_throw (SystemError (err r) ''read input device'')
       else if ret r \<noteq> sizeof_input_event
       then io_throw (RuntimeError ''short read from input device'')
       else io_return (Some (fill_event (payload r)))) w"

text \<open>\<open>None\<close> is the result false; \<open>ev_null\<close> says that the caller passed a null pointer.\<close>

definition GetNextEvent :: "kernel \<Rightarrow> int \<Rightarrow> bool \<Rightarrow> input_event option io" where
  "GetNextEvent K timeout_ms ev_null w =
     (if ev_null then (Inl (InvalidArgument ''input event destination is null''), w)
      else if 0 \<le> timeout_ms
      then if source_fd w < 0 \<or> FD_SETSIZE \<le> source_fd w
           then (Inl (UndefinedBehaviour ''FD_SET''), w)
           else io_bind (sys K (SysSelect (source_fd w) (timeout_ms div 1000)
                                 ((timeout_ms mod 1000) * 1000))) (\<lambda>r.
             if ret r < 0 then io_throw (SystemError (err r) ''select input device'')
             else if ret r = 0 then io_return None
             else read_event K) w
      else read_event K w)"

section \<open>Properties\<close>

lemma select_interval:
  fixes t :: int
  assumes "0 \<le> t"
  obtains sec usec where "t div 1000 = sec" "(t mod 1000) * 1000 = usec"
    "sec * 1000000 + usec = t * 1000" "0 \<le> sec" "0 \<le> usec" "usec < 1000000"
proof
  have "t div 1000 * 1000 + t mod 1000 = t" by (rule div_mult_mod_eq)
  then show "t div 1000 * 1000000 + t mod 1000 * 1000 = t * 1000" by linarith
qed (use assms in simp_all)

lemma read_event_run:
  "read_event K w =
     (let r = K (trace w) (SysRead (source_fd w))
      in (if ret r < 0 then Inl (SystemError (err r) ''read input device'')
          else if ret r = sizeof_input_event then Inr (Some (fill_event (payload r)))
          else Inl (RuntimeError ''short read from input device''),
          w\<lparr>trace := trace w @ [(SysRead (source_fd w), r)]\<rparr>))"
  by (simp add: read_event_def Let_def)

text \<open>
  C33: waiting for an event on a descriptor that fits an \<^verbatim>\<open>fd_set\<close>. With a timeout the panel is first polled for exactly that many
  milliseconds, given to the kernel as a valid \<^verbatim>\<open>timeval\<close>; without one it is read at once. The
  wait ends without an event exactly if the poll timed out, in which case nothing is read; it
  ends with an event exactly if one full record was read, and then it is the record read. In
  all other cases an exception is thrown, carrying the kernel's error. Only the trace changes.
\<close>

theorem GetNextEvent_correct:
  assumes "GetNextEvent K timeout_ms False w = (r, w')" and "0 \<le> source_fd w" and "source_fd w < 1024"
  shows "\<exists>polls reads. w' = w\<lparr>trace := trace w @ polls @ reads\<rparr> \<and>
    (if timeout_ms < 0 then polls = []
     else \<exists>sec usec p. polls = [(SysSelect (source_fd w) sec usec, p)] \<and>
        sec * 1000000 + usec = timeout_ms * 1000 \<and> 0 \<le> sec \<and> 0 \<le> usec \<and> usec < 1000000 \<and>
        (ret p < 0 \<longrightarrow> reads = [] \<and> r = Inl (SystemError (err p) ''select input device'')) \<and>
        (ret p = 0 \<longrightarrow> reads = [] \<and> r = Inr None) \<and> (0 < ret p \<longrightarrow> reads \<noteq> [])) \<and>
    (reads = [] \<and> timeout_ms \<ge> 0 \<or>
     (\<exists>p. reads = [(SysRead (source_fd w), p)] \<and>
        r = (if ret p < 0 then Inl (SystemError (err p) ''read input device'')
             else if ret p = sizeof_input_event then Inr (Some (fill_event (payload p)))
             else Inl (RuntimeError ''short read from input device''))))"
proof (cases "0 \<le> timeout_ms")
  case False
  with assms show ?thesis
    by (intro exI [of _ "[]"] exI [of _ "[(SysRead (source_fd w), K (trace w) (SysRead (source_fd w)))]"])
      (simp add: GetNextEvent_def read_event_run Let_def)
next
  case True
  obtain sec usec where t: "timeout_ms div 1000 = sec" "(timeout_ms mod 1000) * 1000 = usec"
    "sec * 1000000 + usec = timeout_ms * 1000" "0 \<le> sec" "0 \<le> usec" "usec < 1000000"
    by (rule select_interval [OF True])
  define c where "c = SysSelect (source_fd w) sec usec"
  define p where "p = K (trace w) c"
  define q where "q = K (trace w @ [(c, p)]) (SysRead (source_fd w))"
  have run: "GetNextEvent K timeout_ms False w =
      (if ret p < 0 then (Inl (SystemError (err p) ''select input device''),
                          w\<lparr>trace := trace w @ [(c, p)]\<rparr>)
       else if ret p = 0 then (Inr None, w\<lparr>trace := trace w @ [(c, p)]\<rparr>)
       else read_event K (w\<lparr>trace := trace w @ [(c, p)]\<rparr>))"
    using assms(2,3) True unfolding GetNextEvent_def t(1,2)
    by (simp add: c_def p_def FD_SETSIZE_def)
  show ?thesis
  proof (cases "0 < ret p")
    case pos: True
    then have "w' = w\<lparr>trace := trace w @ [(c, p)] @ [(SysRead (source_fd w), q)]\<rparr>"
      "r = (if ret q < 0 then Inl (SystemError (err q) ''read input device'')
            else if ret q = sizeof_input_event then Inr (Some (fill_event (payload q)))
            else Inl (RuntimeError ''short read from input device''))"
      using assms(1) unfolding run by (auto simp: read_event_run q_def Let_def)
    with t(3-6) pos True show ?thesis
      by (intro exI [of _ "[(c, p)]"] exI [of _ "[(SysRead (source_fd w), q)]"])
        (simp add: c_def)
  next
    case neg: False
    then have "w' = w\<lparr>trace := trace w @ [(c, p)] @ []\<rparr>"
      "r = (if ret p < 0 then Inl (SystemError (err p) ''select input device'') else Inr None)"
      using assms(1) run by (auto split: if_splits)
    with t(3-6) neg True show ?thesis
      by (intro exI [of _ "[(c, p)]"] exI [of _ "[]"]) (simp add: c_def)
  qed
qed

text \<open>A kernel whose panel always has an event.\<close>

definition touching_kernel :: kernel where
  "touching_kernel tr c =
     \<lparr>ret = (case c of SysRead _ \<Rightarrow> sizeof_input_event | SysSelect _ _ _ \<Rightarrow> 1 | _ \<Rightarrow> 0), err = 0,
      payload = InputEvent (input_ev EV_SYN SYN_REPORT 0)\<rparr>"

theorem GetNextEvent_correct_witness:
  "\<exists>w' sec usec p rest. GetNextEvent touching_kernel 1500 False (proc_initial\<lparr>source_fd := 4\<rparr>) =
      (Inr (Some (input_ev EV_SYN SYN_REPORT 0)), w') \<and>
    trace w' = (SysSelect 4 sec usec, p) # rest \<and> sec * 1000000 + usec = 1500000"
proof -
  let ?w = "proc_initial\<lparr>source_fd := 4\<rparr>"
  obtain r w' where run: "GetNextEvent touching_kernel 1500 False ?w = (r, w')" by fastforce
  have r: "r = Inr (Some (input_ev EV_SYN SYN_REPORT 0))"
    using run by (simp add: GetNextEvent_def read_event_def touching_kernel_def proc_initial_def
        FD_SETSIZE_def sizeof_input_event_def fill_event_def)
  from GetNextEvent_correct [OF run] have
    "\<exists>sec usec p rest. trace w' = (SysSelect 4 sec usec, p) # rest \<and> sec * 1000000 + usec = 1500000"
    by (clarsimp simp: proc_initial_def)
  with run r show ?thesis by blast
qed

end
