(* ===== verification/Floats.thy ===== *)
theory Floats
  imports Prelude Complex_Main "HOL-Library.Log_Nat"
begin

text \<open>
  The floating-point arithmetic of the configuration code: \<^verbatim>\<open>double\<close> and \<^verbatim>\<open>float\<close> as IEEE 754
  binary formats with rounding to nearest, ties to even. A value is a rational number, an
  infinity or not a number; the sign of zero is not kept, as no code here can observe it.
  Rounding is executable, and the properties that the rest of the development uses are
  monotonicity and exactness on representable integers.
\<close>

section \<open>Rounding a rational\<close>

definition round_half_even :: "rat \<Rightarrow> int" where
  "round_half_even y =
     (let f = floor y; d = y - of_int f
      in if d < 1/2 then f else if 1/2 < d then f + 1 else if even f then f else f + 1)"

lemma round_half_even_of_int [simp]: "round_half_even (of_int n) = n"
  by (simp add: round_half_even_def Let_def)

lemma round_half_even_floor: "floor y \<le> round_half_even y" "round_half_even y \<le> floor y + 1"
  by (auto simp: round_half_even_def Let_def)

lemma round_half_even_mono: "y \<le> z \<Longrightarrow> round_half_even y \<le> round_half_even z"
proof -
  assume yz: "y \<le> z"
  then have fl: "floor y \<le> floor z" by (rule floor_mono)
  show ?thesis
  proof (cases "floor y = floor z")
    case True
    have "y - of_int (floor z) \<le> z - of_int (floor z)" using yz by simp
    then show ?thesis by (auto simp: round_half_even_def Let_def True)
  next
    case False
    with fl have "floor y + 1 \<le> floor z" by simp
    with round_half_even_floor [of y] round_half_even_floor [of z] show ?thesis by linarith
  qed
qed

lemma round_half_even_ge: "of_int n \<le> y \<Longrightarrow> n \<le> round_half_even y"
  using round_half_even_mono [of "of_int n" y] by simp

lemma round_half_even_le: "y \<le> of_int n \<Longrightarrow> round_half_even y \<le> n"
  using round_half_even_mono [of y "of_int n"] by simp

section \<open>Formats\<close>

record float_format =
  precision :: nat
  min_exp :: int
  max_exp :: int

definition double_format :: float_format where
  "double_format = \<lparr>precision = 53, min_exp = -1074, max_exp = 1024\<rparr>"

definition single_format :: float_format where
  "single_format = \<lparr>precision = 24, min_exp = -149, max_exp = 128\<rparr>"

text \<open>The exponent of the leading bit of a positive rational.\<close>

definition leading_exp :: "rat \<Rightarrow> int" where
  "leading_exp x =
     (case quotient_of x of (p, q) \<Rightarrow>
        let e = bitlen p - bitlen q in if x < 2 powi e then e - 1 else e)"

lemma powi_split: "(2 :: rat) powi (m + n) = 2 powi m * 2 powi n"
  by (simp add: power_int_add)

lemma powi_less [simp]: "(2 :: rat) powi m < 2 powi n \<longleftrightarrow> m < n"
proof
  show "m < n" if "(2 :: rat) powi m < 2 powi n"
    using that power_int_increasing [of n m "2 :: rat"] by (cases "n \<le> m") auto
qed (simp add: power_int_strict_increasing)

lemma powi_mono [simp]: "(2 :: rat) powi m \<le> 2 powi n \<longleftrightarrow> m \<le> n"
  by (simp add: not_less [symmetric])

lemma bitlen_powi:
  assumes "0 < n"
  shows "2 powi (bitlen n - 1) \<le> (of_int n :: rat)" and "(of_int n :: rat) < 2 powi (bitlen n)"
proof -
  have b: "2 ^ nat (bitlen n - 1) \<le> n \<and> n < 2 ^ nat (bitlen n)" and pos: "0 < bitlen n"
    using bitlen_bounds [OF assms] bitlen_nonneg [of n] bitlen_eq_zero_iff [of n] assms
    by (simp, linarith)
  from b have "(of_int (2 ^ nat (bitlen n - 1)) :: rat) \<le> of_int n" by (simp only: of_int_le_iff)
  moreover from b have "(of_int n :: rat) < of_int (2 ^ nat (bitlen n))" by (simp only: of_int_less_iff)
  ultimately show "2 powi (bitlen n - 1) \<le> (of_int n :: rat)" "(of_int n :: rat) < 2 powi (bitlen n)"
    using pos by (simp_all add: power_int_def)
qed

lemma leading_exp_bounds:
  assumes "0 < x"
  shows "2 powi (leading_exp x) \<le> x" and "x < 2 powi (leading_exp x + 1)"
proof -
  obtain p q where pq: "quotient_of x = (p, q)" by fastforce
  have x: "x = of_int p / of_int q" and q: "0 < q"
    using quotient_of_div [OF pq] quotient_of_denom_pos [OF pq] by auto
  with assms have p: "0 < p" by (simp add: zero_less_divide_iff)
  define e where "e = bitlen p - bitlen q"
  have qr: "(0 :: rat) < of_int q" using q by simp
  have "2 powi (e - 1) * of_int q < 2 powi (e - 1) * (2 powi (bitlen q) :: rat)"
    using bitlen_powi(2) [OF q] by simp
  also have "\<dots> = 2 powi (bitlen p - 1)" by (simp add: e_def power_int_add [symmetric])
  also have "\<dots> \<le> of_int p" by (rule bitlen_powi(1) [OF p])
  finally have lo: "2 powi (e - 1) < x" using qr by (simp add: x pos_less_divide_eq)
  have "(of_int p :: rat) < 2 powi (bitlen p)" by (rule bitlen_powi(2) [OF p])
  also have "\<dots> = 2 powi (e + 1) * 2 powi (bitlen q - 1)"
    by (simp add: e_def power_int_add [symmetric])
  also have "\<dots> \<le> 2 powi (e + 1) * of_int q" using bitlen_powi(1) [OF q] by simp
  finally have hi: "x < 2 powi (e + 1)" using qr by (simp add: x pos_divide_less_eq)
  have l: "leading_exp x = (if x < 2 powi e then e - 1 else e)"
    by (simp add: leading_exp_def pq e_def Let_def)
  show "2 powi (leading_exp x) \<le> x" "x < 2 powi (leading_exp x + 1)"
    using lo hi by (auto simp: l)
qed

lemma leading_exp_mono:
  assumes "0 < x" and "x \<le> y" shows "leading_exp x \<le> leading_exp y"
proof -
  have "2 powi (leading_exp x) < (2 :: rat) powi (leading_exp y + 1)"
    using leading_exp_bounds(1) [of x] leading_exp_bounds(2) [of y] assms by linarith
  then have "leading_exp x < leading_exp y + 1" unfolding powi_less .
  then show ?thesis by simp
qed

text \<open>The exponent of the unit in the last place, and rounding of a non-negative rational.\<close>

definition ulp_exp :: "float_format \<Rightarrow> rat \<Rightarrow> int" where
  "ulp_exp F x = max (min_exp F) (leading_exp x - int (precision F) + 1)"

definition round_pos :: "float_format \<Rightarrow> rat \<Rightarrow> rat" where
  "round_pos F x =
     (if x = 0 then 0
      else let e = ulp_exp F x in of_int (round_half_even (x / 2 powi e)) * 2 powi e)"

definition round_rat :: "float_format \<Rightarrow> rat \<Rightarrow> rat" where
  "round_rat F x = (if x < 0 then - round_pos F (- x) else round_pos F x)"

lemma round_pos_nonneg: "0 \<le> x \<Longrightarrow> 0 \<le> round_pos F x"
  using round_half_even_ge [of 0 "x / 2 powi ulp_exp F x"]
  by (simp add: round_pos_def Let_def)

lemma round_pos_mono:
  assumes "0 \<le> x" and "x \<le> y" and prec: "0 < precision F"
  shows "round_pos F x \<le> round_pos F y"
proof (cases "x = 0")
  case True
  then show ?thesis using round_pos_nonneg [of y F] assms by (simp add: round_pos_def)
next
  case False
  with assms have x: "0 < x" and y: "0 < y" by auto
  define i j where "i = ulp_exp F x" and "j = ulp_exp F y"
  have ij: "i \<le> j" using leading_exp_mono [OF x assms(2)] by (simp add: i_def j_def ulp_exp_def)
  have rx: "round_pos F x = of_int (round_half_even (x / 2 powi i)) * 2 powi i"
    and ry: "round_pos F y = of_int (round_half_even (y / 2 powi j)) * 2 powi j"
    using x y by (simp_all add: round_pos_def Let_def i_def j_def)
  show ?thesis
  proof (cases "i = j")
    case True
    have "round_half_even (x / 2 powi j) \<le> round_half_even (y / 2 powi j)"
      by (rule round_half_even_mono) (simp add: assms(2) divide_right_mono)
    then show ?thesis by (simp add: rx ry True)
  next
    case False
    with ij have less: "i < j" by simp
    define P where "P = int (precision F)"
    have j: "j = leading_exp y - P + 1" using less by (auto simp: j_def i_def ulp_exp_def P_def max_def split: if_splits)
    have i: "leading_exp x - P + 1 \<le> i" by (simp add: i_def ulp_exp_def P_def)
    have P: "0 < P" using prec by (simp add: P_def)
    have pw: "(2 :: rat) powi P = of_int (2 ^ precision F)" "(2 :: rat) powi (P - 1) = of_int (2 ^ (precision F - 1))"
      using P by (simp_all add: P_def power_int_def nat_diff_distrib)
    have "x < 2 powi (leading_exp x + 1)" by (rule leading_exp_bounds(2) [OF x])
    also have "\<dots> \<le> 2 powi (P + i)" using i by simp
    finally have "x / 2 powi i \<le> of_int (2 ^ precision F)"
      unfolding pw(1) [symmetric] by (simp add: power_int_add pos_divide_le_eq)
    then have "round_half_even (x / 2 powi i) \<le> 2 ^ precision F" by (rule round_half_even_le)
    then have "(of_int (round_half_even (x / 2 powi i)) :: rat) \<le> of_int (2 ^ precision F)"
      by (simp only: of_int_le_iff)
    then have "round_pos F x \<le> 2 powi P * 2 powi i" by (simp add: rx pw)
    also have "\<dots> = 2 powi (P + i)" by (simp add: power_int_add)
    also have "\<dots> \<le> 2 powi (P - 1 + j)" using less by simp
    also have "\<dots> = of_int (2 ^ (precision F - 1)) * 2 powi j" by (simp add: powi_split [of "P - 1"] pw)
    also have "\<dots> \<le> round_pos F y"
    proof -
      have "2 powi (P - 1 + j) \<le> y" using leading_exp_bounds(1) [OF y] by (simp add: j)
      then have "of_int (2 ^ (precision F - 1)) \<le> y / 2 powi j"
        by (simp add: powi_split [of "P - 1"] pw pos_le_divide_eq)
      then have "2 ^ (precision F - 1) \<le> round_half_even (y / 2 powi j)" by (rule round_half_even_ge)
      then have "(of_int (2 ^ (precision F - 1)) :: rat) \<le> of_int (round_half_even (y / 2 powi j))"
        by (simp only: of_int_le_iff)
      then show ?thesis by (simp add: ry)
    qed
    finally show ?thesis .
  qed
qed

lemma round_rat_mono: "x \<le> y \<Longrightarrow> 0 < precision F \<Longrightarrow> round_rat F x \<le> round_rat F y"
  using round_pos_mono [of x y F] round_pos_mono [of "- y" "- x" F]
    round_pos_nonneg [of y F] round_pos_nonneg [of "- x" F]
  by (auto simp: round_rat_def)

text \<open>Multiples of a power of two of at most \<open>precision\<close> bits are exact, integers among them.\<close>

lemma round_pos_dyadic:
  assumes "0 \<le> n" and "n < 2 ^ precision F" and "min_exp F \<le> - int k" and "0 < precision F"
  shows "round_pos F (of_int n / 2 ^ k) = of_int n / 2 ^ k"
proof (cases "n = 0")
  case True
  then show ?thesis by (simp add: round_pos_def)
next
  case False
  define x :: rat where "x = of_int n / 2 ^ k"
  from False assms have x: "0 < x" by (simp add: x_def)
  have xk: "x = of_int n * 2 powi (- int k)" by (simp add: x_def power_int_minus divide_inverse)
  define e where "e = ulp_exp F x"
  have "2 powi (leading_exp x) \<le> x" by (rule leading_exp_bounds(1) [OF x])
  also have "x < of_int (2 ^ precision F) * 2 powi (- int k)"
    unfolding xk using assms(2) by (simp only: mult_less_cancel_right_pos of_int_less_iff zero_less_power_int zero_less_numeral)
  also have "\<dots> = 2 powi (int (precision F) - int k)" by (simp add: power_int_diff power_int_minus divide_inverse)
  finally have "leading_exp x < int (precision F) - int k" unfolding powi_less .
  with assms(3) have "e \<le> - int k" by (simp add: e_def ulp_exp_def)
  then obtain j where j: "e = - int k - int j" by (metis add_diff_cancel_left' diff_add_cancel nonneg_int_cases le_iff_diff_le_0 diff_ge_0_iff_ge)
  have "x / 2 powi e = of_int (n * 2 ^ j)"
    by (simp add: xk j power_int_diff power_int_minus divide_inverse)
  then have "round_half_even (x / 2 powi e) = n * 2 ^ j" by (simp only: round_half_even_of_int)
  then have "round_pos F x = x"
    using x by (simp add: round_pos_def Let_def e_def [symmetric])
      (simp add: xk j power_int_diff power_int_minus divide_inverse)
  then show ?thesis by (simp add: x_def)
qed

lemma round_rat_dyadic:
  assumes "\<bar>n\<bar> < 2 ^ precision F" and "min_exp F \<le> - int k" and "0 < precision F"
  shows "round_rat F (of_int n / 2 ^ k) = of_int n / 2 ^ k"
  using round_pos_dyadic [of n F k] round_pos_dyadic [of "- n" F k] assms
  by (auto simp: round_rat_def zero_le_divide_iff divide_less_0_iff)

lemma round_rat_of_int:
  "\<bar>n\<bar> < 2 ^ precision F \<Longrightarrow> min_exp F \<le> 0 \<Longrightarrow> 0 < precision F \<Longrightarrow>
     round_rat F (of_int n) = of_int n"
  using round_rat_dyadic [of n F 0] by simp

section \<open>Values and operations\<close>

text \<open>\<open>Inf True\<close> is minus infinity. Dividing by zero gives the infinity of the dividend's sign.\<close>

datatype fp = NaN | Inf bool | Fin rat

definition fp_of_rat :: "float_format \<Rightarrow> rat \<Rightarrow> fp" where
  "fp_of_rat F x =
     (let r = round_rat F x in if 2 powi (max_exp F) \<le> \<bar>r\<bar> then Inf (r < 0) else Fin r)"

definition fp_of_int :: "float_format \<Rightarrow> int \<Rightarrow> fp" where
  "fp_of_int F n = fp_of_rat F (of_int n)"

definition isfinite :: "fp \<Rightarrow> bool" where
  "isfinite a = (case a of Fin _ \<Rightarrow> True | _ \<Rightarrow> False)"

definition fp_convert :: "float_format \<Rightarrow> fp \<Rightarrow> fp" where
  "fp_convert F a = (case a of Fin x \<Rightarrow> fp_of_rat F x | _ \<Rightarrow> a)"

fun fp_less :: "fp \<Rightarrow> fp \<Rightarrow> bool" where
  "fp_less (Fin x) (Fin y) = (x < y)"
| "fp_less (Inf s) (Inf t) = (s \<and> \<not> t)"
| "fp_less (Inf s) (Fin y) = s"
| "fp_less (Fin x) (Inf t) = (\<not> t)"
| "fp_less NaN b = False"
| "fp_less a NaN = False"

fun fp_le :: "fp \<Rightarrow> fp \<Rightarrow> bool" where
  "fp_le (Fin x) (Fin y) = (x \<le> y)"
| "fp_le (Inf s) (Inf t) = (s \<or> \<not> t)"
| "fp_le (Inf s) (Fin y) = s"
| "fp_le (Fin x) (Inf t) = (\<not> t)"
| "fp_le NaN b = False"
| "fp_le a NaN = False"

fun fp_neg :: "fp \<Rightarrow> fp" where
  "fp_neg (Fin x) = Fin (- x)"
| "fp_neg (Inf s) = Inf (\<not> s)"
| "fp_neg NaN = NaN"

fun fp_add :: "float_format \<Rightarrow> fp \<Rightarrow> fp \<Rightarrow> fp" where
  "fp_add F (Fin x) (Fin y) = fp_of_rat F (x + y)"
| "fp_add F (Inf s) (Inf t) = (if s = t then Inf s else NaN)"
| "fp_add F (Inf s) (Fin y) = Inf s"
| "fp_add F (Fin x) (Inf t) = Inf t"
| "fp_add F NaN b = NaN"
| "fp_add F a NaN = NaN"

definition fp_sub :: "float_format \<Rightarrow> fp \<Rightarrow> fp \<Rightarrow> fp" where
  "fp_sub F a b = fp_add F a (fp_neg b)"

fun fp_mul :: "float_format \<Rightarrow> fp \<Rightarrow> fp \<Rightarrow> fp" where
  "fp_mul F (Fin x) (Fin y) = fp_of_rat F (x * y)"
| "fp_mul F (Inf s) (Inf t) = Inf (s \<noteq> t)"
| "fp_mul F (Inf s) (Fin y) = (if y = 0 then NaN else Inf (s \<noteq> (y < 0)))"
| "fp_mul F (Fin x) (Inf t) = (if x = 0 then NaN else Inf ((x < 0) \<noteq> t))"
| "fp_mul F NaN b = NaN"
| "fp_mul F a NaN = NaN"

fun fp_div :: "float_format \<Rightarrow> fp \<Rightarrow> fp \<Rightarrow> fp" where
  "fp_div F (Fin x) (Fin y) =
     (if y = 0 then (if x = 0 then NaN else Inf (x < 0)) else fp_of_rat F (x / y))"
| "fp_div F (Inf s) (Inf t) = NaN"
| "fp_div F (Inf s) (Fin y) = Inf (s \<noteq> (y < 0))"
| "fp_div F (Fin x) (Inf t) = Fin 0"
| "fp_div F NaN b = NaN"
| "fp_div F a NaN = NaN"

text \<open>
  Conversion to an integer type: truncation towards zero, undefined when the result does not
  fit. \<^verbatim>\<open>std::lround\<close> rounds half away from zero to a \<^verbatim>\<open>long\<close>.
\<close>

definition trunc_rat :: "rat \<Rightarrow> int" where
  "trunc_rat x = (if x < 0 then - floor (- x) else floor x)"

definition fp_to_int :: "fp \<Rightarrow> exn + int" where
  "fp_to_int a =
     (case a of Fin x \<Rightarrow> if int32 (trunc_rat x) then Inr (trunc_rat x)
                        else Inl (UndefinedBehaviour ''double to int'')
      | _ \<Rightarrow> Inl (UndefinedBehaviour ''double to int''))"

definition lround :: "rat \<Rightarrow> int" where
  "lround x = (if x < 0 then - floor (- x + 1/2) else floor (x + 1/2))"

lemma trunc_rat_mono: "x \<le> y \<Longrightarrow> trunc_rat x \<le> trunc_rat y"
proof -
  assume xy: "x \<le> y"
  have fl: "0 \<le> floor z" if "0 \<le> z" for z :: rat using that by simp
  consider "0 \<le> x" | "x < 0" "0 \<le> y" | "x < 0" "y < 0" by linarith
  then show ?thesis
  proof cases
    case 1
    with xy floor_mono [OF xy] show ?thesis by (simp add: trunc_rat_def)
  next
    case 2
    then have "- floor (- x) \<le> floor y" using fl [of y] fl [of "- x"] by linarith
    with 2 show ?thesis unfolding trunc_rat_def by simp
  next
    case 3
    with xy floor_mono [of "- y" "- x"] show ?thesis by (simp add: trunc_rat_def)
  qed
qed

lemma fp_to_int_Inr [simp]:
  "fp_to_int a = Inr n \<longleftrightarrow> (\<exists>x. a = Fin x \<and> n = trunc_rat x \<and> int32 n)"
  by (cases a) (auto simp: fp_to_int_def)

lemma fp_of_rat_Fin: "fp_of_rat F x = Fin r \<Longrightarrow> r = round_rat F x"
  by (auto simp: fp_of_rat_def Let_def split: if_splits)

lemma fp_add_Fin:
  "fp_add F a b = Fin r \<longleftrightarrow> (\<exists>x y. a = Fin x \<and> b = Fin y \<and> fp_of_rat F (x + y) = Fin r)"
  by (cases a; cases b) auto

lemma fp_neg_Fin: "fp_neg a = Fin x \<longleftrightarrow> a = Fin (- x)"
  by (cases a) auto

lemma fp_mul_Fin:
  "fp_mul F a b = Fin r \<longleftrightarrow> (\<exists>x y. a = Fin x \<and> b = Fin y \<and> fp_of_rat F (x * y) = Fin r)"
  by (cases a; cases b) auto

lemma fp_of_rat_mono:
  "fp_of_rat F x = Fin r \<Longrightarrow> fp_of_rat F y = Fin s \<Longrightarrow> x \<le> y \<Longrightarrow> 0 < precision F \<Longrightarrow> r \<le> s"
  using fp_of_rat_Fin [of F x r] fp_of_rat_Fin [of F y s] round_rat_mono [of x y F] by simp

lemma double_format_simps [simp]:
  "precision double_format = 53" "min_exp double_format = -1074" "max_exp double_format = 1024"
  by (simp_all add: double_format_def)

text \<open>An \<^verbatim>\<open>int\<close> is a \<^verbatim>\<open>double\<close> without loss.\<close>

lemma fp_of_rat_dyadic:
  assumes "\<bar>n\<bar> < 2 ^ 53" and "k \<le> 1074"
  shows "fp_of_rat double_format (of_int n / 2 ^ k) = Fin (of_int n / 2 ^ k)"
proof -
  let ?x = "of_int n / 2 ^ k :: rat"
  have r: "round_rat double_format ?x = ?x"
    using assms by (intro round_rat_dyadic) simp_all
  have "\<bar>of_int n\<bar> / 2 ^ k \<le> (\<bar>of_int n\<bar> :: rat) / 1" by (intro divide_left_mono) simp_all
  then have "\<bar>?x\<bar> \<le> \<bar>of_int n\<bar>" by (simp add: abs_divide)
  also have "(\<bar>of_int n\<bar> :: rat) < of_int (2 ^ 53)"
    using assms(1) by (simp only: of_int_abs [symmetric] of_int_less_iff)
  also have "\<dots> = 2 powi 53" by simp
  also have "\<dots> < 2 powi 1024" unfolding powi_less by simp
  finally show ?thesis by (simp add: fp_of_rat_def r not_le)
qed

lemma fp_of_int_exact: "int32 n \<Longrightarrow> fp_of_int double_format n = Fin (of_int n)"
  using fp_of_rat_dyadic [of n 0] by (auto simp: int32_def fp_of_int_def)

lemma fp_of_rat_numeral [simp]:
  "(numeral k :: int) < 2 ^ 53 \<Longrightarrow> fp_of_rat double_format (numeral k) = Fin (numeral k)"
  "fp_of_rat double_format 0 = Fin 0" "fp_of_rat double_format 1 = Fin 1"
  using fp_of_rat_dyadic [of "numeral k" 0] fp_of_rat_dyadic [of 0 0] fp_of_rat_dyadic [of 1 0]
  by simp_all

end
