(* ===== verification/Haptics.thy ===== *)
theory Haptics
  imports Syscalls Floats
begin

text \<open>
  \<^verbatim>\<open>src/haptics\<close>: the driver of one vibration motor (\<^verbatim>\<open>FFDriver\<close>) and the manager that uploads
  an effect to both motors and plays it on the one near the finger (\<^verbatim>\<open>TouchFFManager\<close>). The
  descriptors of the two drivers are the members \<open>left_fd\<close> and \<open>right_fd\<close> of the process.
\<close>

section \<open>One motor\<close>

datatype motor = LeftMotor | RightMotor

definition motor_fd :: "motor \<Rightarrow> proc \<Rightarrow> int" where
  "motor_fd m w = (case m of LeftMotor \<Rightarrow> left_fd w | RightMotor \<Rightarrow> right_fd w)"

definition set_motor_fd :: "motor \<Rightarrow> int \<Rightarrow> proc \<Rightarrow> proc" where
  "set_motor_fd m fd w = (case m of LeftMotor \<Rightarrow> w\<lparr>left_fd := fd\<rparr> | RightMotor \<Rightarrow> w\<lparr>right_fd := fd\<rparr>)"

definition kMaxDriverInput :: int where
  "kMaxDriverInput = 65535"

definition CloseFDIfValid :: "kernel \<Rightarrow> motor \<Rightarrow> unit io" where
  "CloseFDIfValid K m w =
     (if motor_fd m w \<noteq> -1
      then io_bind (sys K (SysClose (motor_fd m w))) (\<lambda>_ w1. (Inr (), set_motor_fd m (-1) w1)) w
      else (Inr (), w))"

text \<open>The result of setting the gain is only logged.\<close>

definition set_gain :: "kernel \<Rightarrow> motor \<Rightarrow> unit io" where
  "set_gain K m w =
     io_bind (sys K (SysWrite (motor_fd m w) (input_ev EV_FF FF_GAIN kMaxDriverInput)))
       (\<lambda>_. io_return ()) w"

definition FFDriver_Init :: "kernel \<Rightarrow> motor \<Rightarrow> string \<Rightarrow> bool io" where
  "FFDriver_Init K m device_path =
     io_bind (CloseFDIfValid K m) (\<lambda>_.
     io_bind (sys K (SysOpen device_path (O_RDWR + O_CLOEXEC))) (\<lambda>r w1.
       let w2 = set_motor_fd m (ret r) w1 in
       if ret r = -1 then (Inr False, w2)
       else io_bind (set_gain K m) (\<lambda>_. io_return True) w2))"

text \<open>
  \<open>static_cast<unsigned short>\<close> of the magnitude, clamped to the interval from 0 to 1, times the
  maximum, all in \<^verbatim>\<open>float\<close>. A value that does not fit is undefined behaviour.
\<close>

definition clamp01 :: "fp \<Rightarrow> fp" where
  "clamp01 v = (if fp_less v (Fin 0) then Fin 0 else if fp_less (Fin 1) v then Fin 1 else v)"

definition float_to_u16 :: "fp \<Rightarrow> exn + int" where
  "float_to_u16 a =
     (case a of
        Fin x \<Rightarrow> if 0 \<le> trunc_rat x \<and> trunc_rat x < 2 ^ 16 then Inr (trunc_rat x)
                 else Inl (UndefinedBehaviour ''float to unsigned short'')
      | _ \<Rightarrow> Inl (UndefinedBehaviour ''float to unsigned short''))"

definition strong_magnitude :: "fp \<Rightarrow> exn + int" where
  "strong_magnitude magnitude =
     float_to_u16 (fp_mul single_format (clamp01 magnitude) (fp_of_int single_format kMaxDriverInput))"

text \<open>The kernel writes the identifier of the effect into the 16-bit field of the structure.\<close>

definition fill_effect_id :: "payload \<Rightarrow> int" where
  "fill_effect_id p = (case p of EffectId i \<Rightarrow> sint (word_of_int i :: 16 word) | _ \<Rightarrow> -1)"

definition UploadEffect :: "kernel \<Rightarrow> motor \<Rightarrow> fp \<Rightarrow> int \<Rightarrow> int io" where
  "UploadEffect K m magnitude time_ms w =
     (if motor_fd m w = -1 then (Inr (-1), w)
      else if \<not> isfinite magnitude \<or> fp_less magnitude (Fin 0) \<or> fp_less (Fin 1) magnitude \<or>
              time_ms \<le> 0 \<or> time_ms > 1000
      then (Inr (-1), w)
      else case strong_magnitude magnitude of
          Inl e \<Rightarrow> (Inl e, w)
        | Inr strong \<Rightarrow>
            io_bind (sys K (SysIoctl (motor_fd m w) (EVIOCSFF
                \<lparr>ff_type = FF_RUMBLE, ff_id = -1, ff_strong_magnitude = strong,
                 ff_weak_magnitude = 0, ff_length = to_u16 time_ms, ff_delay = 0\<rparr>)))
              (\<lambda>r. io_return (if ret r = -1 then -1 else fill_effect_id (payload r))) w)"

definition PlayEffect :: "kernel \<Rightarrow> motor \<Rightarrow> int \<Rightarrow> bool io" where
  "PlayEffect K m effect_id w =
     (if motor_fd m w = -1 then (Inr False, w)
      else if effect_id < 0 then (Inr False, w)
      else io_bind (sys K (SysWrite (motor_fd m w) (input_ev EV_FF (to_u16 effect_id) 1)))
             (\<lambda>r. io_return (ret r = sizeof_input_event)) w)"

section \<open>The manager\<close>

datatype TouchKeyboardEvent = FingerDown | SendKey | FingerUp

record ff_manager =
  left_driver_fflib :: "TouchKeyboardEvent \<rightharpoonup> int"
  right_driver_fflib :: "TouchKeyboardEvent \<rightharpoonup> int"
  touch_max_x :: int
  touch_rotation :: int

definition kLeftVibratorPath :: string where "kLeftVibratorPath = ''/dev/left_vibrator''"
definition kRightVibratorPath :: string where "kRightVibratorPath = ''/dev/right_vibrator''"

text \<open>The \<^verbatim>\<open>double\<close> magnitude is converted to the \<^verbatim>\<open>float\<close> parameter of \<open>UploadEffect\<close>.\<close>

definition RegisterFF ::
  "kernel \<Rightarrow> TouchKeyboardEvent \<Rightarrow> fp \<Rightarrow> int \<Rightarrow> ff_manager \<Rightarrow> ff_manager io" where
  "RegisterFF K event magnitude length_ms mgr =
     io_bind (UploadEffect K LeftMotor (fp_convert single_format magnitude) length_ms) (\<lambda>left_id.
       let mgr1 = (if left_id \<ge> 0
                   then mgr\<lparr>left_driver_fflib := (left_driver_fflib mgr)(event \<mapsto> left_id)\<rparr>
                   else mgr) in
     io_bind (UploadEffect K RightMotor (fp_convert single_format magnitude) length_ms) (\<lambda>right_id.
       io_return (if right_id \<ge> 0
                  then mgr1\<lparr>right_driver_fflib := (right_driver_fflib mgr1)(event \<mapsto> right_id)\<rparr>
                  else mgr1)))"

text \<open>The width of the surface as the user holds it; \<open>None\<close> for an unsupported rotation.\<close>

definition upright_width :: "int \<Rightarrow> int \<Rightarrow> int \<Rightarrow> int option" where
  "upright_width max_x max_y r =
     (if r = 0 \<or> r = 180 then Some max_x else if r = 90 \<or> r = 270 then Some max_y else None)"

definition TouchFFManager_new ::
  "kernel \<Rightarrow> int \<Rightarrow> int \<Rightarrow> int \<Rightarrow> fp \<Rightarrow> int \<Rightarrow> ff_manager io" where
  "TouchFFManager_new K max_x max_y r magnitude duration_ms =
     (if max_x \<le> 0 \<or> max_y \<le> 0
      then io_throw (InvalidArgument ''touch dimensions must be positive'')
      else if \<not> isfinite magnitude \<or> fp_less magnitude (Fin 0) \<or> fp_less (Fin 1) magnitude
      then io_throw (InvalidArgument ''haptic magnitude must be between 0.0 and 1.0'')
      else if duration_ms < 1 \<or> duration_ms > 1000
      then io_throw (InvalidArgument ''haptic duration must be between 1 and 1000 ms'')
      else case upright_width max_x max_y r of
          None \<Rightarrow> io_throw (InvalidArgument ''touch rotation must be 0, 90, 180, or 270'')
        | Some width \<Rightarrow>
            io_bind (FFDriver_Init K LeftMotor kLeftVibratorPath) (\<lambda>_.
            io_bind (FFDriver_Init K RightMotor kRightVibratorPath) (\<lambda>_.
              RegisterFF K FingerDown magnitude duration_ms
                \<lparr>left_driver_fflib = Map.empty, right_driver_fflib = Map.empty,
                 touch_max_x = width, touch_rotation = r\<rparr>)))"

definition PlayEffectOfEvent ::
  "kernel \<Rightarrow> TouchKeyboardEvent \<Rightarrow> motor \<Rightarrow> (TouchKeyboardEvent \<rightharpoonup> int) \<Rightarrow> unit io" where
  "PlayEffectOfEvent K event m lib =
     (case lib event of
        None \<Rightarrow> io_return ()
      | Some effect_id \<Rightarrow> io_bind (PlayEffect K m effect_id) (\<lambda>_. io_return ()))"

text \<open>The differences are unbounded here; for a touch on the panel they fit the \<open>int\<close> of the code.\<close>

definition touch_side :: "ff_manager \<Rightarrow> int \<Rightarrow> int \<Rightarrow> int" where
  "touch_side mgr x y =
     (if touch_rotation mgr = 0 then x
      else if touch_rotation mgr = 90 then touch_max_x mgr - y
      else if touch_rotation mgr = 180 then touch_max_x mgr - x
      else if touch_rotation mgr = 270 then y
      else x)"

definition EventTriggered ::
  "kernel \<Rightarrow> ff_manager \<Rightarrow> TouchKeyboardEvent \<Rightarrow> int \<Rightarrow> int \<Rightarrow> unit io" where
  "EventTriggered K mgr event x y =
     (if touch_side mgr x y < c_quot (touch_max_x mgr) 2
      then PlayEffectOfEvent K event LeftMotor (left_driver_fflib mgr)
      else PlayEffectOfEvent K event RightMotor (right_driver_fflib mgr))"

text \<open>The members are destroyed in the reverse order of their declaration.\<close>

definition TouchFFManager_destructor :: "kernel \<Rightarrow> unit io" where
  "TouchFFManager_destructor K =
     io_bind (CloseFDIfValid K RightMotor) (\<lambda>_. CloseFDIfValid K LeftMotor)"

section \<open>Magnitudes\<close>

lemma single_format_simps [simp]:
  "precision single_format = 24" "min_exp single_format = -149" "max_exp single_format = 128"
  by (simp_all add: single_format_def)

text \<open>Rounding to \<^verbatim>\<open>float\<close> keeps a value between two small integers.\<close>

lemma single_between:
  assumes "of_int m \<le> x" and "x \<le> of_int n" and "\<bar>m\<bar> < 2 ^ 24" and "\<bar>n\<bar> < 2 ^ 24"
  shows "\<exists>r. fp_of_rat single_format x = Fin r \<and> of_int m \<le> r \<and> r \<le> of_int n"
proof -
  let ?r = "round_rat single_format x"
  have ex: "round_rat single_format (of_int k) = of_int k" if "\<bar>k\<bar> < 2 ^ 24" for k
    using that by (intro round_rat_of_int) simp_all
  have lo: "of_int m \<le> ?r" and hi: "?r \<le> of_int n"
    using round_rat_mono [OF assms(1), of single_format] round_rat_mono [OF assms(2), of single_format]
    by (simp_all only: ex [OF assms(3)] ex [OF assms(4)] single_format_simps zero_less_numeral)
  have "\<bar>?r\<bar> \<le> of_int (max \<bar>m\<bar> \<bar>n\<bar>)" using lo hi by (simp add: abs_le_iff max_def) linarith
  also have "\<dots> < of_int (2 ^ 24)" using assms(3,4) by (simp only: of_int_less_iff)
  also have "\<dots> \<le> (2 :: rat) powi 128" by (simp add: power_int_def)
  finally have "\<not> 2 powi (max_exp single_format) \<le> \<bar>?r\<bar>" by simp
  with lo hi show ?thesis by (simp add: fp_of_rat_def Let_def)
qed

lemma convert_unit_interval:
  assumes "isfinite v" and "\<not> fp_less v (Fin 0)" and "\<not> fp_less (Fin 1) v"
  obtains x where "fp_convert single_format v = Fin x" and "0 \<le> x" and "x \<le> 1"
proof -
  obtain x where x: "v = Fin x" "0 \<le> x" "x \<le> 1"
    using assms by (cases v) (auto simp: isfinite_def)
  then show thesis using single_between [of 0 x 1] that by (auto simp: fp_convert_def)
qed

text \<open>
  The strong magnitude is the exact product rounded down or up to an integer; there is no
  undefined behaviour.
\<close>

lemma strong_magnitude_range:
  assumes "0 \<le> x" and "x \<le> 1"
  obtains s where "strong_magnitude (Fin x) = Inr s" and "0 \<le> s" and "s \<le> 65535"
    and "floor (x * 65535) \<le> s" and "s \<le> ceiling (x * 65535)"
proof -
  let ?y = "x * 65535"
  have y: "0 \<le> ?y" "?y \<le> 65535" using assms by simp_all
  have fl: "0 \<le> floor ?y" "ceiling ?y \<le> 65535" "floor ?y \<le> 65535" "0 \<le> ceiling ?y"
    using y by (simp_all add: le_floor_iff ceiling_le_iff floor_le_iff)
  obtain r where r: "fp_of_rat single_format ?y = Fin r" "of_int (floor ?y) \<le> r" "r \<le> of_int (ceiling ?y)"
    using single_between [of "floor ?y" ?y "ceiling ?y"] fl by (auto simp: le_of_int_ceiling)
  have c: "fp_of_int single_format 65535 = Fin 65535"
    using single_between [of 65535 65535 65535] by (force simp: fp_of_int_def)
  have r0: "0 \<le> r" using r(2) fl(1) by (meson of_int_0_le_iff order_trans)
  then have t: "trunc_rat r = floor r" by (simp add: trunc_rat_def)
  have lo: "floor ?y \<le> floor r" using r(2) by (simp add: le_floor_iff)
  have hi: "floor r \<le> ceiling ?y" using r(3) by (metis floor_mono floor_of_int)
  obtain n where n: "floor r = n" by simp
  have bnd: "0 \<le> n" "n \<le> 65535" using lo hi fl unfolding n by linarith+
  show thesis
  proof (rule that [of n])
    show "strong_magnitude (Fin x) = Inr n"
      using assms bnd
      by (simp add: strong_magnitude_def kMaxDriverInput_def clamp01_def c r(1) float_to_u16_def t n)
  qed (use lo hi bnd in \<open>simp_all only: n\<close>)
qed

end
