(* ===== verification/Keyboard_Worker.thy ===== *)
theory Keyboard_Worker
  imports Keyboard_Safety Uinput_Device Evdev_Source Haptics
begin

text \<open>
  \<^verbatim>\<open>FakeKeyboard::Run\<close> and \<open>Consume\<close> with their system calls: setting up the two devices, then
  reading the clock and the panel, computing what to do with the model of theory Keyboard, and
  doing it. The results of the computation are written out after it has finished; as it never
  fails on a reachable state, no write is lost by that.
\<close>

section \<open>Setting up\<close>

fun enable_keys :: "kernel \<Rightarrow> key list \<Rightarrow> bool io" where
  "enable_keys K [] = io_return True"
| "enable_keys K (k # ks) =
     io_bind (EnableKeyEvent K (key_event_code k)) (\<lambda>ok.
       if \<not> ok then io_return False
       else if key_event_code_fn k \<noteq> 0
       then io_bind (EnableKeyEvent K (key_event_code_fn k)) (\<lambda>ok_fn.
              if \<not> ok_fn then io_return False else enable_keys K ks)
       else enable_keys K ks)"

definition EnableKeyboardEvents :: "kernel \<Rightarrow> key list \<Rightarrow> bool io" where
  "EnableKeyboardEvents K ks =
     io_bind (EnableEventType K EV_KEY) (\<lambda>ok. if \<not> ok then io_return False else enable_keys K ks)"

text \<open>A chain of conditions: the next one is evaluated only if the one before it holds.\<close>

definition and_then :: "bool io \<Rightarrow> bool io \<Rightarrow> bool io" where
  "and_then m n = io_bind m (\<lambda>ok. if ok then n else io_return False)"

definition keyboard_setup :: "kernel \<Rightarrow> string \<Rightarrow> string \<Rightarrow> key list \<Rightarrow> unit io" where
  "keyboard_setup K source_device_path keyboard_device_name ks =
     io_bind (OpenSourceDevice K source_device_path) (\<lambda>opened.
       if \<not> opened
       then io_throw (RuntimeError ''failed to open Halo keyboard input device'')
       else io_bind (and_then (CreateUinputFD K)
              (and_then (EnableKeyboardEvents K ks) (FinalizeUinputCreation K keyboard_device_name)))
         (\<lambda>created. if \<not> created
            then io_throw (RuntimeError ''failed to create virtual keyboard device'')
            else io_return ()))"

section \<open>One iteration\<close>

text \<open>
  The time, which \<^verbatim>\<open>clock_gettime\<close> stores; a call that stores none would leave the variable
  uninitialised.
\<close>

definition read_clock :: "kernel \<Rightarrow> timespec io" where
  "read_clock K =
     io_bind (sys K SysClock) (\<lambda>r. case payload r of
         Clock ts \<Rightarrow> io_return ts
       | _ \<Rightarrow> io_throw (UndefinedBehaviour ''clock_gettime''))"

definition kb_wait :: "kernel \<Rightarrow> keyboard \<Rightarrow> (timespec \<times> input_event option) io" where
  "kb_wait K kb =
     io_bind (read_clock K) (\<lambda>now1.
     io_bind (GetNextEvent K (consume_timeout now1 (pending_events kb)) False) (\<lambda>ready.
     io_bind (read_clock K) (\<lambda>now. io_return (now, ready))))"

fun perform :: "kernel \<Rightarrow> ff_manager \<Rightarrow> kb_output \<Rightarrow> unit io" where
  "perform K mgr (Haptic x y) = EventTriggered K mgr FingerDown x y"
| "perform K mgr (Emit t c v) = SendEvent K t c v"

fun perform_all :: "kernel \<Rightarrow> ff_manager \<Rightarrow> kb_output list \<Rightarrow> unit io" where
  "perform_all K mgr [] = io_return ()"
| "perform_all K mgr (out # outs) = io_bind (perform K mgr out) (\<lambda>_. perform_all K mgr outs)"

interpretation kb_channel: emission "perform K mgr" "perform_all K mgr" for K mgr
  by unfold_locales simp_all

definition kb_react ::
  "kernel \<Rightarrow> ff_manager \<Rightarrow> timespec \<Rightarrow> input_event option \<Rightarrow> int list \<Rightarrow> int list \<Rightarrow>
     keyboard \<Rightarrow> keyboard io" where
  "kb_react K mgr now ready order tids kb =
     (case consume_event now ready order tids kb of
        Inl e \<Rightarrow> io_throw e
      | Inr (outs, kb') \<Rightarrow> io_bind (perform_all K mgr outs) (\<lambda>_. io_return kb'))"

definition kb_iteration ::
  "kernel \<Rightarrow> ff_manager \<Rightarrow> int list \<Rightarrow> int list \<Rightarrow> keyboard \<Rightarrow> keyboard io" where
  "kb_iteration K mgr order tids kb =
     io_bind (kb_wait K kb) (\<lambda>(now, ready). kb_react K mgr now ready order tids kb)"

text \<open>
  The endless loop, for as many iterations as there are orders given; it ends earlier only with
  an exception.
\<close>

fun kb_Consume ::
  "kernel \<Rightarrow> ff_manager \<Rightarrow> (int list \<times> int list) list \<Rightarrow> keyboard \<Rightarrow> keyboard io" where
  "kb_Consume K mgr [] kb = io_return kb"
| "kb_Consume K mgr ((order, tids) # rest) kb =
     io_bind (kb_iteration K mgr order tids kb) (\<lambda>kb'. kb_Consume K mgr rest kb')"

definition kb_Run ::
  "kernel \<Rightarrow> ff_manager \<Rightarrow> string \<Rightarrow> string \<Rightarrow> (int list \<times> int list) list \<Rightarrow> keyboard \<Rightarrow> keyboard io" where
  "kb_Run K mgr source_device_path keyboard_device_name orders kb =
     io_bind (keyboard_setup K source_device_path keyboard_device_name (layout kb))
       (\<lambda>_. kb_Consume K mgr orders kb)"

end
