(* ===== verification/Device_Trace.thy ===== *)
theory Device_Trace
  imports Uinput_Device Evdev_Source
begin

text \<open>
  What the workers' device operations do, seen from the trace of system calls: the events a
  virtual device has accepted, the codes enabled on it, and the errors that end a worker.
\<close>

section \<open>Writes to a device\<close>

text \<open>The events that were written to a descriptor and accepted.\<close>

fun accepted_write :: "int \<Rightarrow> syscall \<times> sysret \<Rightarrow> input_event option" where
  "accepted_write fd (SysWrite fd' e, r) = (if fd' = fd \<and> ret r = sizeof_input_event then Some e else None)"
| "accepted_write fd (c, r) = None"

definition device_writes :: "int \<Rightarrow> trace \<Rightarrow> input_event list" where
  "device_writes fd tr = List.map_filter (accepted_write fd) tr"

lemma device_writes_simps [simp]:
  "device_writes fd [] = []"
  "device_writes fd (x # tr) = (case accepted_write fd x of None \<Rightarrow> [] | Some e \<Rightarrow> [e]) @ device_writes fd tr"
  "device_writes fd (tr @ tr') = device_writes fd tr @ device_writes fd tr'"
  by (simp_all add: device_writes_def map_filter_simps split: option.splits)
    (simp add: List.map_filter_def)

text \<open>The events that were read from a descriptor.\<close>

fun panel_event :: "int \<Rightarrow> syscall \<times> sysret \<Rightarrow> input_event option" where
  "panel_event fd (SysRead fd', r) =
     (if fd' = fd \<and> ret r = sizeof_input_event then Some (fill_event (payload r)) else None)"
| "panel_event fd (c, r) = None"

definition panel_events :: "int \<Rightarrow> trace \<Rightarrow> input_event list" where
  "panel_events fd tr = List.map_filter (panel_event fd) tr"

lemma panel_events_simps [simp]:
  "panel_events fd [] = []"
  "panel_events fd (x # tr) = (case panel_event fd x of None \<Rightarrow> [] | Some e \<Rightarrow> [e]) @ panel_events fd tr"
  "panel_events fd (tr @ tr') = panel_events fd tr @ panel_events fd tr'"
  by (simp_all add: panel_events_def map_filter_simps split: option.splits)
    (simp add: List.map_filter_def)

definition no_writes :: "trace \<Rightarrow> bool" where
  "no_writes tr \<longleftrightarrow> (\<forall>fd. device_writes fd tr = [])"

lemma no_writes_simps [simp]:
  "no_writes []"
  "no_writes ((c, r) # tr) \<longleftrightarrow> (\<forall>fd. accepted_write fd (c, r) = None) \<and> no_writes tr"
  "no_writes (tr @ tr') \<longleftrightarrow> no_writes tr \<and> no_writes tr'"
  by (auto simp: no_writes_def split: option.splits)

lemma no_writes_device: "no_writes tr \<Longrightarrow> device_writes fd tr = []"
  by (simp add: no_writes_def)

lemma sizeof_not_negative [simp]: "\<not> sizeof_input_event < 0"
  by (simp add: sizeof_input_event_def)

section \<open>Errors of the kernel\<close>

definition kernel_error :: "exn \<Rightarrow> bool" where
  "kernel_error e \<longleftrightarrow> (\<exists>n msg. e = SystemError n msg) \<or>
     e = RuntimeError ''short write while sending uinput event'' \<or>
     e = RuntimeError ''short read from input device''"

lemma kernel_errors [simp]:
  "kernel_error (SystemError n msg)"
  "kernel_error (RuntimeError ''short write while sending uinput event'')"
  "kernel_error (RuntimeError ''short read from input device'')"
  by (simp_all only: kernel_error_def simp_thms) blast

section \<open>Operations\<close>

lemma SendEvent_run:
  "SendEvent K t c v w =
     (let call = SysWrite (uinput_fd w) (input_ev (to_u16 t) (to_u16 c) v); r = K (trace w) call
      in (if ret r < 0 then Inl (SystemError (err r) ''write uinput event'')
          else if ret r = sizeof_input_event then Inr ()
          else Inl (RuntimeError ''short write while sending uinput event''),
          w\<lparr>trace := trace w @ [(call, r)]\<rparr>))"
  by (simp add: SendEvent_def Let_def)

lemma GetNextEvent_run:
  assumes "0 \<le> source_fd w" and "source_fd w < FD_SETSIZE" and "GetNextEvent K t False w = (r, w')"
  shows "\<exists>ext. w' = w\<lparr>trace := trace w @ ext\<rparr> \<and> no_writes ext \<and> (\<forall>e. r = Inl e \<longrightarrow> kernel_error e)"
proof (cases "0 \<le> t")
  case False
  with assms(3) show ?thesis
    by (intro exI [of _ "[(SysRead (source_fd w), K (trace w) (SysRead (source_fd w)))]"])
      (auto simp: GetNextEvent_def read_event_run Let_def split: if_splits)
next
  case True
  define c where "c = SysSelect (source_fd w) (t div 1000) ((t mod 1000) * 1000)"
  define p where "p = K (trace w) c"
  have run: "GetNextEvent K t False w =
      (if ret p < 0 then (Inl (SystemError (err p) ''select input device''),
                          w\<lparr>trace := trace w @ [(c, p)]\<rparr>)
       else if ret p = 0 then (Inr None, w\<lparr>trace := trace w @ [(c, p)]\<rparr>)
       else read_event K (w\<lparr>trace := trace w @ [(c, p)]\<rparr>))"
    using assms(1,2) True unfolding GetNextEvent_def by (simp add: c_def p_def)
  have nw: "accepted_write fd (c, p) = None" for fd by (simp add: c_def)
  let ?q = "(SysRead (source_fd w), K (trace w @ [(c, p)]) (SysRead (source_fd w)))"
  show ?thesis
  proof (cases "0 < ret p")
    case True
    with assms(3) nw show ?thesis
      by (intro exI [of _ "[(c, p), ?q]"]) (auto simp: run read_event_run Let_def split: if_splits)
  next
    case False
    with assms(3) nw show ?thesis
      by (intro exI [of _ "[(c, p)]"]) (auto simp: run split: if_splits)
  qed
qed

text \<open>A code was enabled on a device: the request is in the trace and succeeded.\<close>

definition key_enabled :: "int \<Rightarrow> int \<Rightarrow> trace \<Rightarrow> bool" where
  "key_enabled fd c tr \<longleftrightarrow> (\<exists>x. (SysIoctl fd (UI_SET_KEYBIT c), x) \<in> set tr \<and> ret x = 0)"

lemma key_enabled_simps [simp]:
  "key_enabled fd c (tr @ tr') \<longleftrightarrow> key_enabled fd c tr \<or> key_enabled fd c tr'"
  "key_enabled fd c ((call, x) # tr) \<longleftrightarrow>
     (call = SysIoctl fd (UI_SET_KEYBIT c) \<and> ret x = 0) \<or> key_enabled fd c tr"
  by (auto simp: key_enabled_def)

lemma EnableKeyEvent_run:
  "EnableKeyEvent K c w =
     (let call = SysIoctl (uinput_fd w) (UI_SET_KEYBIT c); x = K (trace w) call
      in (Inr (ret x = 0), w\<lparr>trace := trace w @ [(call, x)]\<rparr>))"
  by (simp add: EnableKeyEvent_def Let_def)

definition setup_requests :: "int \<Rightarrow> string \<Rightarrow> sysret \<Rightarrow> sysret \<Rightarrow> trace" where
  "setup_requests fd name x y =
     [(SysIoctl fd (UI_DEV_SETUP (device_info name)), x),
      (SysIoctl fd UI_DEV_CREATE, y)]"

lemma Finalize_run:
  assumes "FinalizeUinputCreation K name w = (r, w')"
  obtains ok ext where "r = Inr ok" and "no_writes ext"
    and "w' = w\<lparr>trace := trace w @ ext, device_created := ok \<or> device_created w\<rparr>"
    and "ok \<Longrightarrow> \<exists>x y. ext = setup_requests (uinput_fd w) name x y \<and> ret x = 0 \<and> ret y = 0"
proof -
  define c1 where "c1 = SysIoctl (uinput_fd w)
    (UI_DEV_SETUP (device_info name))"
  define x where "x = K (trace w) c1"
  define c2 where "c2 = SysIoctl (uinput_fd w) UI_DEV_CREATE"
  define y where "y = K (trace w @ [(c1, x)]) c2"
  have run: "FinalizeUinputCreation K name w =
      (if ret x \<noteq> 0 then (Inr False, w\<lparr>trace := trace w @ [(c1, x)]\<rparr>)
       else if ret y \<noteq> 0 then (Inr False, w\<lparr>trace := trace w @ [(c1, x), (c2, y)]\<rparr>)
       else (Inr True, w\<lparr>trace := trace w @ [(c1, x), (c2, y)], device_created := True\<rparr>))"
    unfolding FinalizeUinputCreation_def c1_def [symmetric] c2_def [symmetric]
    by (simp add: x_def y_def c2_def)
  have nw: "no_writes [(c1, x)]" "no_writes [(c1, x), (c2, y)]" by (simp_all add: c1_def c2_def)
  have "setup_requests (uinput_fd w) name x y = [(c1, x), (c2, y)]"
    by (simp add: setup_requests_def c1_def c2_def)
  then have eq: "\<exists>x' y'. [(c1, x), (c2, y)] = setup_requests (uinput_fd w) name x' y' \<and>
      ret x' = 0 \<and> ret y' = 0" if "ret x = 0" "ret y = 0"
    using that by metis
  show thesis
  proof (cases "ret x \<noteq> 0 \<or> ret y \<noteq> 0")
    case True
    with assms nw show thesis
      by (intro that [of False "if ret x \<noteq> 0 then [(c1, x)] else [(c1, x), (c2, y)]"])
        (auto simp: run split: if_splits)
  next
    case False
    with assms nw eq show thesis
      by (intro that [of True "[(c1, x), (c2, y)]"]) (auto simp: run)
  qed
qed

lemma OpenSourceDevice_run:
  assumes "source_fd w < 0"
  obtains c x where "no_writes [(c, x)]"
    and "OpenSourceDevice K path w =
      (if ret x < 0 then Inl (SystemError (err x) (''open source device '' @ path)) else Inr True,
       w\<lparr>source_fd := ret x, trace := trace w @ [(c, x)]\<rparr>)"
  using assms that
    [of "SysOpen path (O_RDONLY + O_CLOEXEC)" "K (trace w) (SysOpen path (O_RDONLY + O_CLOEXEC))"]
  by (simp add: OpenSourceDevice_def io_bind_def sys_def Let_def)

lemma CreateUinputFD_run:
  assumes "uinput_fd w < 0"
  obtains c x where "no_writes [(c, x)]"
    and "CreateUinputFD K w = (Inr (0 \<le> ret x), w\<lparr>uinput_fd := ret x, trace := trace w @ [(c, x)]\<rparr>)"
  using assms that [of "SysOpen kUinputControlFilename (O_WRONLY + O_NONBLOCK + O_CLOEXEC)"
      "K (trace w) (SysOpen kUinputControlFilename (O_WRONLY + O_NONBLOCK + O_CLOEXEC))"]
  by (simp add: CreateUinputFD_def io_bind_def sys_def)

end
