(* ===== verification/Keyboard_Worker_Props.thy ===== *)
theory Keyboard_Worker_Props
  imports Keyboard_Worker Device_Trace
begin

text \<open>
  What the keyboard worker writes to its virtual device, for every kernel and every number of
  iterations, is what the model of theory Keyboard sends.
\<close>

section \<open>The outputs of the model\<close>

text \<open>The events among the outputs of the model, in the kernel's field widths.\<close>

fun emitted_event :: "kb_output \<Rightarrow> input_event option" where
  "emitted_event (Haptic x y) = None"
| "emitted_event (Emit t c v) = Some (input_ev (to_u16 t) (to_u16 c) v)"

definition emitted :: "kb_output list \<Rightarrow> input_event list" where
  "emitted outs = List.map_filter emitted_event outs"

lemma emitted_simps [simp]:
  "emitted [] = []"
  "emitted (Haptic x y # outs) = emitted outs"
  "emitted (Emit t c v # outs) = input_ev (to_u16 t) (to_u16 c) v # emitted outs"
  "emitted (xs @ ys) = emitted xs @ emitted ys"
  by (simp_all add: emitted_def map_filter_simps) (simp add: List.map_filter_def)

text \<open>\<^verbatim>\<open>clock_gettime(CLOCK_MONOTONIC)\<close> stores a time.\<close>

definition clock_works :: "kernel \<Rightarrow> bool" where
  "clock_works K \<longleftrightarrow> (\<forall>tr. \<exists>ts. payload (K tr SysClock) = Clock ts)"

section \<open>Performing the outputs\<close>

lemma EventTriggered_run:
  obtains ext where "EventTriggered K mgr event x y w = (Inr (), w\<lparr>trace := trace w @ ext\<rparr>)"
    and "\<And>fd. fd \<noteq> left_fd w \<Longrightarrow> fd \<noteq> right_fd w \<Longrightarrow> device_writes fd ext = []"
proof -
  have "\<exists>ext. PlayEffectOfEvent K event m lib w = (Inr (), w\<lparr>trace := trace w @ ext\<rparr>) \<and>
      (\<forall>fd. fd \<noteq> motor_fd m w \<longrightarrow> device_writes fd ext = [])" for m lib
  proof (cases "\<exists>i. lib event = Some i \<and> motor_fd m w \<noteq> -1 \<and> \<not> i < 0")
    case True
    then obtain i where i: "lib event = Some i" "motor_fd m w \<noteq> -1" "\<not> i < 0" by blast
    let ?c = "SysWrite (motor_fd m w) (input_ev EV_FF (to_u16 i) 1)"
    show ?thesis
      by (intro exI [of _ "[(?c, K (trace w) ?c)]"])
        (use i in \<open>simp add: PlayEffectOfEvent_def PlayEffect_def io_bind_def sys_def\<close>)
  next
    case False
    then show ?thesis
      by (intro exI [of _ "[]"])
        (auto simp: PlayEffectOfEvent_def PlayEffect_def io_bind_def split: option.splits)
  qed
  then obtain ext where "EventTriggered K mgr event x y w = (Inr (), w\<lparr>trace := trace w @ ext\<rparr>)"
    "\<forall>fd. fd \<noteq> left_fd w \<longrightarrow> fd \<noteq> right_fd w \<longrightarrow> device_writes fd ext = []"
    unfolding EventTriggered_def
    by (cases "touch_side mgr x y < c_quot (touch_max_x mgr) 2") (force simp: motor_fd_def)+
  then show thesis using that by blast
qed

lemma perform_all_run:
  assumes "uinput_fd w \<noteq> left_fd w" and "uinput_fd w \<noteq> right_fd w"
    and "perform_all K mgr outs w = (r, w')"
  shows "\<exists>n ext. w' = w\<lparr>trace := trace w @ ext\<rparr> \<and>
    device_writes (uinput_fd w) ext = emitted (take n outs) \<and>
    (r = Inr () \<and> n = length outs \<or> (\<exists>e. r = Inl e \<and> kernel_error e))"
  using assms
proof (induction outs arbitrary: w)
  case Nil
  then show ?case by (intro exI [of _ 0] exI [of _ "[]"]) auto
next
  case (Cons out outs)
  show ?case
  proof (cases "\<exists>w1 ext1. perform K mgr out w = (Inr (), w1) \<and> w1 = w\<lparr>trace := trace w @ ext1\<rparr> \<and>
      device_writes (uinput_fd w) ext1 = emitted [out]")
    case True
    then obtain ext1 where one: "perform K mgr out w = (Inr (), w\<lparr>trace := trace w @ ext1\<rparr>)"
      "device_writes (uinput_fd w) ext1 = emitted [out]" by blast
    with Cons.prems have "perform_all K mgr outs (w\<lparr>trace := trace w @ ext1\<rparr>) = (r, w')" by simp
    from Cons.IH [OF _ _ this] Cons.prems obtain n ext where
      "w' = w\<lparr>trace := trace w @ ext1 @ ext\<rparr>" "device_writes (uinput_fd w) ext = emitted (take n outs)"
      "r = Inr () \<and> n = length outs \<or> (\<exists>e. r = Inl e \<and> kernel_error e)" by auto
    moreover have "emitted (take (Suc n) (out # outs)) = emitted [out] @ emitted (take n outs)"
      using emitted_simps(4) [of "[out]" "take n outs"] by simp
    ultimately show ?thesis
      using one(2) by (intro exI [of _ "Suc n"] exI [of _ "ext1 @ ext"]) simp
  next
    case False
    show ?thesis
    proof (cases out)
      case (Haptic x y)
      obtain ext1 where "EventTriggered K mgr FingerDown x y w = (Inr (), w\<lparr>trace := trace w @ ext1\<rparr>)"
        "device_writes (uinput_fd w) ext1 = []"
        using EventTriggered_run [of K mgr FingerDown x y w] Cons.prems(1,2) by metis
      with False Haptic show ?thesis by auto
    next
      case (Emit t c v)
      let ?call = "SysWrite (uinput_fd w) (input_ev (to_u16 t) (to_u16 c) v)"
      let ?r = "K (trace w) ?call"
      from False Emit have fail: "ret ?r \<noteq> sizeof_input_event"
        by (auto simp: SendEvent_run Let_def)
      then obtain e where "perform K mgr out w = (Inl e, w\<lparr>trace := trace w @ [(?call, ?r)]\<rparr>)"
        "kernel_error e"
        using Emit by (cases "ret ?r < 0") (simp_all add: SendEvent_run Let_def)
      with Cons.prems fail show ?thesis
        by (intro exI [of _ 0] exI [of _ "[(?call, ?r)]"]) auto
    qed
  qed
qed

section \<open>Waiting\<close>

lemma read_clock_run:
  assumes "clock_works K"
  obtains ts where "read_clock K w = (Inr ts, w\<lparr>trace := trace w @ [(SysClock, K (trace w) SysClock)]\<rparr>)"
proof -
  obtain ts where "payload (K (trace w) SysClock) = Clock ts"
    using assms by (auto simp: clock_works_def)
  then show thesis using that [of ts] by (simp add: read_clock_def)
qed

lemma kb_wait_run:
  assumes "clock_works K" and "0 \<le> source_fd w" and "source_fd w < FD_SETSIZE"
    and "kb_wait K kb w = (r, w')"
  shows "\<exists>ext. w' = w\<lparr>trace := trace w @ ext\<rparr> \<and> no_writes ext \<and> (\<forall>e. r = Inl e \<longrightarrow> kernel_error e)"
proof -
  let ?e1 = "[(SysClock, K (trace w) SysClock)]"
  obtain now1 where now1: "read_clock K w = (Inr now1, w\<lparr>trace := trace w @ ?e1\<rparr>)"
    by (rule read_clock_run [OF assms(1)])
  obtain r2 w2 where g: "GetNextEvent K (consume_timeout now1 (pending_events kb)) False
      (w\<lparr>trace := trace w @ ?e1\<rparr>) = (r2, w2)" by fastforce
  from GetNextEvent_run [OF _ _ g] assms(2,3) obtain e2 where
    e2: "w2 = w\<lparr>trace := trace w @ ?e1 @ e2\<rparr>" "no_writes e2" "\<forall>e. r2 = Inl e \<longrightarrow> kernel_error e"
    by auto
  show ?thesis
  proof (cases r2)
    case (Inl e)
    with assms(4) now1 g e2 show ?thesis
      by (auto simp: kb_wait_def intro!: exI [of _ "?e1 @ e2"])
  next
    case (Inr ready)
    obtain now where "read_clock K w2 = (Inr now, w2\<lparr>trace := trace w2 @ [(SysClock, K (trace w2) SysClock)]\<rparr>)"
      by (rule read_clock_run [OF assms(1)])
    with Inr assms(4) now1 g e2 show ?thesis
      by (auto simp: kb_wait_def intro!: exI [of _ "?e1 @ e2 @ [(SysClock, K (trace w2) SysClock)]"])
  qed
qed

section \<open>Setting up\<close>

lemma enable_keys_run:
  "enable_keys K ks w = (r, w') \<Longrightarrow>
   \<exists>ok ext. r = Inr ok \<and> w' = w\<lparr>trace := trace w @ ext\<rparr> \<and> no_writes ext \<and>
     (ok \<longrightarrow> (\<forall>c \<in> enabled_codes ks. key_enabled (uinput_fd w) c ext))"
proof (induction ks arbitrary: w)
  case Nil
  then show ?case by (intro exI [of _ True] exI [of _ "[]"]) (auto simp: enabled_codes_def)
next
  case (Cons k ks)
  define call where "call = SysIoctl (uinput_fd w) (UI_SET_KEYBIT (key_event_code k))"
  define x where "x = K (trace w) call"
  let ?w1 = "w\<lparr>trace := trace w @ [(call, x)]\<rparr>"
  have one: "EnableKeyEvent K (key_event_code k) w = (Inr (ret x = 0), ?w1)"
    by (simp add: EnableKeyEvent_run Let_def call_def x_def)
  define call2 where "call2 = SysIoctl (uinput_fd w) (UI_SET_KEYBIT (key_event_code_fn k))"
  define x2 where "x2 = K (trace w @ [(call, x)]) call2"
  let ?w2 = "w\<lparr>trace := trace w @ [(call, x), (call2, x2)]\<rparr>"
  have two: "EnableKeyEvent K (key_event_code_fn k) ?w1 = (Inr (ret x2 = 0), ?w2)"
    by (simp add: EnableKeyEvent_run Let_def call2_def x2_def)
  have nw: "no_writes [(call, x), (call2, x2)]" "no_writes [(call, x)]"
    by (simp_all add: call_def call2_def)
  consider (fail) "ret x \<noteq> 0" | (fail_fn) "ret x = 0" "key_event_code_fn k \<noteq> 0" "ret x2 \<noteq> 0"
    | (both) "ret x = 0" "key_event_code_fn k \<noteq> 0" "ret x2 = 0"
    | (plain) "ret x = 0" "key_event_code_fn k = 0" by blast
  then show ?case
  proof cases
    case fail
    with Cons.prems one nw show ?thesis by (intro exI [of _ False] exI [of _ "[(call, x)]"]) simp
  next
    case fail_fn
    with Cons.prems one two nw show ?thesis
      by (intro exI [of _ False] exI [of _ "[(call, x), (call2, x2)]"]) simp
  next
    case both
    with Cons.prems one two have "enable_keys K ks ?w2 = (r, w')" by simp
    from Cons.IH [OF this] obtain ok ext where "r = Inr ok"
      "w' = w\<lparr>trace := trace w @ [(call, x), (call2, x2)] @ ext\<rparr>" "no_writes ext"
      "ok \<longrightarrow> (\<forall>c \<in> enabled_codes ks. key_enabled (uinput_fd w) c ext)" by auto
    with both nw show ?thesis
      by (intro exI [of _ ok] exI [of _ "[(call, x), (call2, x2)] @ ext"])
        (auto simp: enabled_codes_def call_def call2_def)
  next
    case plain
    with Cons.prems one have "enable_keys K ks ?w1 = (r, w')" by simp
    from Cons.IH [OF this] obtain ok ext where "r = Inr ok"
      "w' = w\<lparr>trace := trace w @ [(call, x)] @ ext\<rparr>" "no_writes ext"
      "ok \<longrightarrow> (\<forall>c \<in> enabled_codes ks. key_enabled (uinput_fd w) c ext)" by auto
    with plain nw show ?thesis
      by (intro exI [of _ ok] exI [of _ "[(call, x)] @ ext"]) (auto simp: enabled_codes_def call_def)
  qed
qed

lemma EnableKeyboardEvents_run:
  assumes "EnableKeyboardEvents K ks w = (r, w')"
  shows "\<exists>ok ext. r = Inr ok \<and> w' = w\<lparr>trace := trace w @ ext\<rparr> \<and> no_writes ext \<and>
     (ok \<longrightarrow> (\<forall>c \<in> enabled_codes ks. key_enabled (uinput_fd w) c ext))"
proof -
  let ?call = "SysIoctl (uinput_fd w) (UI_SET_EVBIT EV_KEY)"
  let ?x = "K (trace w) ?call"
  let ?w1 = "w\<lparr>trace := trace w @ [(?call, ?x)]\<rparr>"
  have one: "EnableEventType K EV_KEY w = (Inr (ret ?x = 0), ?w1)" by (simp add: EnableEventType_def)
  show ?thesis
  proof (cases "ret ?x = 0")
    case False
    with assms one show ?thesis
      by (intro exI [of _ False] exI [of _ "[(?call, ?x)]"]) (auto simp: EnableKeyboardEvents_def)
  next
    case True
    with assms one have "enable_keys K ks ?w1 = (r, w')" by (simp add: EnableKeyboardEvents_def)
    from enable_keys_run [OF this] obtain ok ext where "r = Inr ok"
      "w' = w\<lparr>trace := trace w @ [(?call, ?x)] @ ext\<rparr>" "no_writes ext"
      "ok \<longrightarrow> (\<forall>c \<in> enabled_codes ks. key_enabled (uinput_fd w) c ext)" by auto
    then show ?thesis by (intro exI [of _ ok] exI [of _ "[(?call, ?x)] @ ext"]) auto
  qed
qed

definition setup_error :: "exn \<Rightarrow> bool" where
  "setup_error e \<longleftrightarrow> (\<exists>n msg. e = SystemError n msg) \<or>
     e = RuntimeError ''failed to create virtual keyboard device''"

text \<open>A successful set-up ends with the creation of the device, after all codes are enabled.\<close>

definition created_with :: "int \<Rightarrow> key list \<Rightarrow> trace \<Rightarrow> bool" where
  "created_with fd ks tr \<longleftrightarrow> (\<exists>pre name x y. tr = pre @ setup_requests fd name x y \<and>
     ret x = 0 \<and> ret y = 0 \<and> (\<forall>c \<in> enabled_codes ks. key_enabled fd c pre))"

lemma keyboard_setup_run:
  assumes "uinput_fd w < 0" and "source_fd w < 0"
    and "keyboard_setup K path name ks w = (r, w')"
  shows "\<exists>ext. trace w' = trace w @ ext \<and> no_writes ext \<and> left_fd w' = left_fd w \<and>
    right_fd w' = right_fd w \<and> (r = Inr () \<and> 0 \<le> uinput_fd w' \<and> 0 \<le> source_fd w' \<and>
      device_created w' \<and> created_with (uinput_fd w') ks ext \<or> (\<exists>e. r = Inl e \<and> setup_error e))"
proof -
  obtain c x where o: "no_writes [(c, x)]" "OpenSourceDevice K path w =
      (if ret x < 0 then Inl (SystemError (err x) (''open source device '' @ path)) else Inr True,
       w\<lparr>source_fd := ret x, trace := trace w @ [(c, x)]\<rparr>)"
    by (rule OpenSourceDevice_run [OF assms(2)])
  define w1 where "w1 = w\<lparr>source_fd := ret x, trace := trace w @ [(c, x)]\<rparr>"
  have w1: "uinput_fd w1 = uinput_fd w" "source_fd w1 = ret x" "left_fd w1 = left_fd w"
    "right_fd w1 = right_fd w" "trace w1 = trace w @ [(c, x)]" by (simp_all add: w1_def)
  obtain c2 x2 where u: "no_writes [(c2, x2)]" "CreateUinputFD K w1 =
      (Inr (0 \<le> ret x2), w1\<lparr>uinput_fd := ret x2, trace := trace w1 @ [(c2, x2)]\<rparr>)"
    by (rule CreateUinputFD_run [of w1]) (use assms(1) w1 in simp)
  define w2 where "w2 = w1\<lparr>uinput_fd := ret x2, trace := trace w1 @ [(c2, x2)]\<rparr>"
  have w2: "uinput_fd w2 = ret x2" "source_fd w2 = ret x" "left_fd w2 = left_fd w"
    "right_fd w2 = right_fd w" "trace w2 = trace w @ [(c, x), (c2, x2)]" by (simp_all add: w2_def w1)
  have cr: "CreateUinputFD K w1 = (Inr (0 \<le> ret x2), w2)" using u(2) by (simp add: w2_def)
  show ?thesis
  proof (cases "ret x < 0")
    case True
    with assms(3) o show ?thesis
      by (intro exI [of _ "[(c, x)]"]) (auto simp: keyboard_setup_def setup_error_def)
  next
    case False
    with o(2) have op: "OpenSourceDevice K path w = (Inr True, w1)" by (simp add: w1_def)
    show ?thesis
    proof (cases "0 \<le> ret x2")
      case neg: False
      with assms(3) op cr o(1) u(1) w2 show ?thesis
        by (intro exI [of _ "[(c, x), (c2, x2)]"])
          (auto simp: keyboard_setup_def and_then_def setup_error_def)
    next
      case pos: True
      obtain r3 w3 where en: "EnableKeyboardEvents K ks w2 = (r3, w3)" by fastforce
      from EnableKeyboardEvents_run [OF en] obtain ok3 ext3 where r3: "r3 = Inr ok3"
        "w3 = w2\<lparr>trace := trace w2 @ ext3\<rparr>" "no_writes ext3"
        "ok3 \<longrightarrow> (\<forall>c \<in> enabled_codes ks. key_enabled (uinput_fd w2) c ext3)" by blast
      show ?thesis
      proof (cases ok3)
        case False
        with assms(3) op cr en pos r3 o(1) u(1) w2 show ?thesis
          by (intro exI [of _ "[(c, x), (c2, x2)] @ ext3"])
            (auto simp: keyboard_setup_def and_then_def setup_error_def)
      next
        case ok3: True
        obtain r4 w4 where fin: "FinalizeUinputCreation K name w3 = (r4, w4)" by fastforce
        obtain ok4 ext4 where r4: "r4 = Inr ok4" "no_writes ext4"
          "w4 = w3\<lparr>trace := trace w3 @ ext4, device_created := ok4 \<or> device_created w3\<rparr>"
          "ok4 \<Longrightarrow> \<exists>x y. ext4 = setup_requests (uinput_fd w3) name x y \<and> ret x = 0 \<and> ret y = 0"
          by (rule Finalize_run [OF fin]) blast
        let ?ext = "([(c, x), (c2, x2)] @ ext3) @ ext4"
        have w': "w' = w4" "r = (if ok4 then Inr () else Inl (RuntimeError ''failed to create virtual keyboard device''))"
          using assms(3) op cr en pos r3 ok3 fin r4(1)
          by (auto simp: keyboard_setup_def and_then_def split: if_splits)
        have "trace w' = trace w @ ?ext" "no_writes ?ext" "left_fd w' = left_fd w" "right_fd w' = right_fd w"
          using w'(1) r4(2,3) r3(2,3) w2 o(1) u(1) by simp_all
        moreover have "0 \<le> uinput_fd w' \<and> 0 \<le> source_fd w' \<and> device_created w' \<and>
            created_with (uinput_fd w') ks ?ext" if ok4
        proof -
          have fd: "uinput_fd w' = ret x2" "source_fd w' = ret x" "uinput_fd w3 = ret x2"
            using w'(1) r4(3) r3(2) w2 by simp_all
          have "\<forall>c' \<in> enabled_codes ks. key_enabled (ret x2) c' ([(c, x), (c2, x2)] @ ext3)"
            using r3(4) ok3 w2(1) by simp
          with r4(4) [OF that] fd have "created_with (uinput_fd w') ks ?ext"
            unfolding created_with_def by metis
          then show ?thesis using that fd False pos w'(1) r4(3) by simp
        qed
        ultimately show ?thesis
          using w'(2) by (intro exI [of _ ?ext]) (auto simp: setup_error_def)
      qed
    qed
  qed
qed

section \<open>The loop\<close>

text \<open>
  What the environment must do along a run: the clock does not run backwards, frames bring new
  tracking ids, and the iteration orders visit every entry once.
\<close>

fun kb_environment ::
  "kernel \<Rightarrow> ff_manager \<Rightarrow> (int list \<times> int list) list \<Rightarrow> timespec \<Rightarrow> keyboard \<Rightarrow> proc \<Rightarrow> bool" where
  "kb_environment K mgr [] clock kb w \<longleftrightarrow> True"
| "kb_environment K mgr ((order, tids) # rest) clock kb w \<longleftrightarrow>
     (case kb_wait K kb w of
        (Inl _, _) \<Rightarrow> True
      | (Inr (now, ready), w1) \<Rightarrow>
          iteration_ok clock now ready order tids kb \<and>
          (case kb_react K mgr now ready order tids kb w1 of
             (Inl _, _) \<Rightarrow> True
           | (Inr kb', w2) \<Rightarrow> kb_environment K mgr rest now kb' w2))"

text \<open>The descriptors in the state a worker runs in.\<close>

definition fds_ok :: "proc \<Rightarrow> bool" where
  "fds_ok w \<longleftrightarrow> uinput_fd w \<noteq> left_fd w \<and> uinput_fd w \<noteq> right_fd w \<and>
     0 \<le> source_fd w \<and> source_fd w < FD_SETSIZE"

lemma kb_react_run:
  assumes reach: "reachable ks s" and ok: "iteration_ok (conf_clock s) now ready order tids (conf_kb s)"
    and fds: "fds_ok w" and run: "kb_react K mgr now ready order tids (conf_kb s) w = (r, w')"
  obtains s' ext n where "reachable ks s'" and "w' = w\<lparr>trace := trace w @ ext\<rparr>"
    and "conf_clock s' = now"
    and "emitted (conf_sent s) @ device_writes (uinput_fd w) ext = take n (emitted (conf_sent s'))"
    and "r = Inr (conf_kb s') \<and> length (emitted (conf_sent s')) \<le> n \<or> (\<exists>e. r = Inl e \<and> kernel_error e)"
proof -
  obtain outs kb' where c: "consume_event now ready order tids (conf_kb s) = Inr (outs, kb')"
    using conf_inv_iteration [OF reachable_inv [OF reach] ok] by blast
  let ?s' = "\<lparr>conf_kb = kb', conf_clock = now, conf_sent = conf_sent s @ outs\<rparr>"
  have reach': "reachable ks ?s'" by (rule reachable_step [OF reach kb_step.intros [OF ok c]])
  obtain r1 w1 where p: "perform_all K mgr outs w = (r1, w1)" by fastforce
  have "uinput_fd w \<noteq> left_fd w" "uinput_fd w \<noteq> right_fd w" using fds by (simp_all add: fds_ok_def)
  from perform_all_run [OF this p] obtain n ext where e: "w1 = w\<lparr>trace := trace w @ ext\<rparr>"
    "device_writes (uinput_fd w) ext = emitted (take n outs)"
    "r1 = Inr () \<and> n = length outs \<or> (\<exists>e. r1 = Inl e \<and> kernel_error e)" by blast
  have w': "w' = w1" "r = (case r1 of Inl x \<Rightarrow> Inl x | Inr _ \<Rightarrow> Inr kb')"
    using run p by (auto simp: kb_react_def c io_bind_def split: sum.splits)
  have "emitted (conf_sent s @ outs) = (emitted (conf_sent s) @ emitted (take n outs)) @ emitted (drop n outs)"
    using emitted_simps(4) [of "take n outs" "drop n outs"] by simp
  then have "emitted (conf_sent s) @ emitted (take n outs) =
      take (length (emitted (conf_sent s) @ emitted (take n outs))) (emitted (conf_sent ?s'))" by simp
  with e w' reach' show thesis
    by (intro that [of ?s' ext "length (emitted (conf_sent s) @ emitted (take n outs))"]) auto
qed

lemma kb_Consume_run:
  assumes "reachable ks s" and "clock_works K" and "fds_ok w"
    and "kb_environment K mgr orders (conf_clock s) (conf_kb s) w"
    and "kb_Consume K mgr orders (conf_kb s) w = (r, w')"
  shows "\<exists>s' ext n. reachable ks s' \<and> w' = w\<lparr>trace := trace w @ ext\<rparr> \<and>
    emitted (conf_sent s) @ device_writes (uinput_fd w) ext = take n (emitted (conf_sent s')) \<and>
    (r = Inr (conf_kb s') \<and> length (emitted (conf_sent s')) \<le> n \<or> (\<exists>e. r = Inl e \<and> kernel_error e))"
  using assms
proof (induction orders arbitrary: s w)
  case Nil
  then show ?case
    by (intro exI [of _ s] exI [of _ "[]"] exI [of _ "length (emitted (conf_sent s))"]) auto
next
  case (Cons ord rest)
  obtain order tids where ord: "ord = (order, tids)" by fastforce
  obtain r1 w1 where wait: "kb_wait K (conf_kb s) w = (r1, w1)" by fastforce
  have src: "0 \<le> source_fd w" "source_fd w < FD_SETSIZE" using Cons.prems(3) by (simp_all add: fds_ok_def)
  obtain e1 where e1: "w1 = w\<lparr>trace := trace w @ e1\<rparr>" "no_writes e1" "\<forall>e. r1 = Inl e \<longrightarrow> kernel_error e"
    using kb_wait_run [OF Cons.prems(2) src wait] by blast
  note nw = no_writes_device [OF e1(2), of "uinput_fd w"]
  show ?case
  proof (cases r1)
    case (Inl e)
    with Cons.prems(5) wait have "r = Inl e" "w' = w1" by (simp_all add: ord kb_iteration_def)
    with e1 Inl nw Cons.prems(1) show ?thesis
      by (intro exI [of _ s] exI [of _ e1] exI [of _ "length (emitted (conf_sent s))"]) auto
  next
    case (Inr p)
    obtain now ready where p: "p = (now, ready)" by fastforce
    have ok: "iteration_ok (conf_clock s) now ready order tids (conf_kb s)"
      using Cons.prems(4) wait by (simp add: ord Inr p)
    have fds1: "fds_ok w1" using Cons.prems(3) by (simp add: e1(1) fds_ok_def)
    obtain r2 w2 where react: "kb_react K mgr now ready order tids (conf_kb s) w1 = (r2, w2)" by fastforce
    obtain s2 e2 n where s2: "reachable ks s2" "w2 = w1\<lparr>trace := trace w1 @ e2\<rparr>" "conf_clock s2 = now"
      "emitted (conf_sent s) @ device_writes (uinput_fd w1) e2 = take n (emitted (conf_sent s2))"
      "r2 = Inr (conf_kb s2) \<and> length (emitted (conf_sent s2)) \<le> n \<or> (\<exists>e. r2 = Inl e \<and> kernel_error e)"
      by (rule kb_react_run [OF Cons.prems(1) ok fds1 react])
    have w2: "w2 = w\<lparr>trace := trace w @ e1 @ e2\<rparr>" and fd: "uinput_fd w1 = uinput_fd w"
      by (simp_all add: s2(2) e1(1))
    show ?thesis
    proof (cases r2)
      case inl: (Inl e)
      with Cons.prems(5) wait Inr p react have "r = Inl e" "w' = w2"
        by (simp_all add: ord kb_iteration_def)
      with s2(1,4,5) inl w2 nw fd show ?thesis
        by (intro exI [of _ s2] exI [of _ "e1 @ e2"] exI [of _ n]) auto
    next
      case inr: (Inr kb')
      with s2(4,5) nw fd have kb': "kb' = conf_kb s2"
        "emitted (conf_sent s) @ device_writes (uinput_fd w) (e1 @ e2) = emitted (conf_sent s2)" by auto
      have env: "kb_environment K mgr rest (conf_clock s2) (conf_kb s2) w2"
        using Cons.prems(4) wait Inr p react inr kb'(1) s2(3) by (simp add: ord)
      have fds2: "fds_ok w2" using Cons.prems(3) by (simp add: w2 fds_ok_def)
      have rest: "kb_Consume K mgr rest (conf_kb s2) w2 = (r, w')"
        using Cons.prems(5) wait Inr p react inr kb'(1) by (simp add: ord kb_iteration_def)
      obtain s' e3 n' where s': "reachable ks s'" "w' = w2\<lparr>trace := trace w2 @ e3\<rparr>"
        "emitted (conf_sent s2) @ device_writes (uinput_fd w2) e3 = take n' (emitted (conf_sent s'))"
        "r = Inr (conf_kb s') \<and> length (emitted (conf_sent s')) \<le> n' \<or> (\<exists>e. r = Inl e \<and> kernel_error e)"
        using Cons.IH [OF s2(1) Cons.prems(2) fds2 env rest] by blast
      have "emitted (conf_sent s) @ device_writes (uinput_fd w) ((e1 @ e2) @ e3) =
          take n' (emitted (conf_sent s'))"
        using kb'(2) s'(3) by (simp add: w2 flip: append_assoc)
      with s'(1,2,4) show ?thesis
        by (intro exI [of _ s'] exI [of _ "(e1 @ e2) @ e3"] exI [of _ n']) (simp add: w2)
    qed
  qed
qed

end
