(* ===== verification/Touchpad.thy ===== *)
theory Touchpad
  imports Multitouch_Spec
begin

text \<open>
  \<^verbatim>\<open>src/fake_touchpad.cc\<close> without its device I/O: the region of the panel that acts as the
  touchpad, which source slots are members of it, and the body of the \<open>Consume\<close> loop as a
  function from the state and the event read to the new state and the events sent to the
  virtual touchpad, in order.
\<close>

section \<open>State\<close>

record touchpad =
  tp_xmin :: int
  tp_xmax :: int
  tp_ymin :: int
  tp_ymax :: int
  tp_rotation :: int
  tp_sm :: mt_state
  slot_memberships :: "bool list"

definition tp_initial :: "int \<Rightarrow> int \<Rightarrow> int \<Rightarrow> int \<Rightarrow> int \<Rightarrow> touchpad" where
  "tp_initial x0 x1 y0 y1 r =
     \<lparr>tp_xmin = x0, tp_xmax = x1, tp_ymin = y0, tp_ymax = y1, tp_rotation = r,
      tp_sm = mt_initial, slot_memberships = replicate kNumSlots False\<rparr>"

text \<open>The size of the virtual device's axes, as \<open>Run\<close> computes it.\<close>

definition tp_size :: "touchpad \<Rightarrow> int \<times> int" where
  "tp_size tp =
     (if tp_rotation tp = 0 \<or> tp_rotation tp = 180
      then (tp_xmax tp - tp_xmin tp, tp_ymax tp - tp_ymin tp)
      else if tp_rotation tp = 90 \<or> tp_rotation tp = 270
      then (tp_ymax tp - tp_ymin tp, tp_xmax tp - tp_xmin tp)
      else (0, 0))"

section \<open>Passing a slot through\<close>

definition tp_Contains :: "touchpad \<Rightarrow> slot \<Rightarrow> bool" where
  "tp_Contains tp s =
     (let x = FindValueByEvent s EV_ABS ABS_MT_POSITION_X;
          y = FindValueByEvent s EV_ABS ABS_MT_POSITION_Y
      in if x < tp_xmin tp \<or> x > tp_xmax tp then False
         else if y < tp_ymin tp \<or> y > tp_ymax tp then False
         else True)"

text \<open>The event for one entry of the slot, with the axes moved, swapped and inverted.\<close>

definition transform :: "touchpad \<Rightarrow> event_key \<Rightarrow> int \<Rightarrow> input_event" where
  "transform tp k value =
     (if IsX k then
        let value = value - tp_xmin tp in
        if tp_rotation tp = 90 then input_ev (key_type k) ABS_MT_POSITION_Y value
        else if tp_rotation tp = 180
        then input_ev (key_type k) (key_code k) ((tp_xmax tp - tp_xmin tp) - value)
        else if tp_rotation tp = 270
        then input_ev (key_type k) ABS_MT_POSITION_Y ((tp_xmax tp - tp_xmin tp) - value)
        else input_ev (key_type k) (key_code k) value
      else if IsY k then
        let value = value - tp_ymin tp in
        if tp_rotation tp = 90
        then input_ev (key_type k) ABS_MT_POSITION_X ((tp_ymax tp - tp_ymin tp) - value)
        else if tp_rotation tp = 180
        then input_ev (key_type k) (key_code k) ((tp_ymax tp - tp_ymin tp) - value)
        else if tp_rotation tp = 270 then input_ev (key_type k) ABS_MT_POSITION_X value
        else input_ev (key_type k) (key_code k) value
      else input_ev (key_type k) (key_code k) value)"

text \<open>\<open>order\<close> is the order in which the iteration visits the entries of the slot.\<close>

fun PassEventsThrough :: "touchpad \<Rightarrow> slot \<Rightarrow> event_key list \<Rightarrow> input_event list \<times> bool" where
  "PassEventsThrough tp s [] = ([], False)"
| "PassEventsThrough tp s (k # order) =
     (case s k of
        None \<Rightarrow> PassEventsThrough tp s order
      | Some value \<Rightarrow>
          if \<not> IsSupportedForTouchpads k then PassEventsThrough tp s order
          else let (outs, is_valid) = PassEventsThrough tp s order
               in (transform tp k value # outs, (IsTrackingID k \<and> value \<noteq> -1) \<or> is_valid))"

section \<open>Synchronising all slots\<close>

text \<open>
  One turn of the loop: the events for slot number \<open>i\<close>, its new membership, and whether it
  counts as a touch.
\<close>

definition sync_slot ::
  "touchpad \<Rightarrow> event_key list \<Rightarrow> nat \<Rightarrow> bool \<Rightarrow> slot \<Rightarrow> input_event list \<times> bool \<times> bool" where
  "sync_slot tp order i member s =
     (let select = input_ev EV_ABS ABS_MT_SLOT (int i) in
      if \<not> tp_Contains tp s
      then (select # (if member then [input_ev EV_ABS ABS_MT_TRACKING_ID (-1)] else []),
            False, False)
      else let arrive = (if member then []
                         else [input_ev EV_ABS ABS_MT_TRACKING_ID
                                 (FindValueByEvent s EV_ABS ABS_MT_TRACKING_ID)]);
               (outs, valid) = PassEventsThrough tp s order
           in (select # arrive @ outs, True, valid))"

fun sync_slots ::
  "(nat \<Rightarrow> event_key list) \<Rightarrow> nat list \<Rightarrow> touchpad \<Rightarrow> exn + input_event list \<times> int \<times> touchpad" where
  "sync_slots orders [] tp = Inr ([], 0, tp)"
| "sync_slots orders (i # is) tp =
     (case slot_at (tp_sm tp) i of
        Inl e \<Rightarrow> Inl e
      | Inr s \<Rightarrow>
          if length (slot_memberships tp) \<le> i
          then Inl (UndefinedBehaviour ''slot_memberships_ index out of range'')
          else let (outs, member, counted) =
                     sync_slot tp (orders i) i (slot_memberships tp ! i) s;
                   tp1 = tp\<lparr>slot_memberships := (slot_memberships tp)[i := member]\<rparr>
               in (case sync_slots orders is tp1 of
                     Inl e \<Rightarrow> Inl e
                   | Inr (outs', n, tp2) \<Rightarrow> Inr (outs @ outs', (if counted then 1 else 0) + n, tp2)))"

definition SyncTouchEvents ::
  "(nat \<Rightarrow> event_key list) \<Rightarrow> touchpad \<Rightarrow> exn + input_event list \<times> int \<times> touchpad" where
  "SyncTouchEvents orders tp = sync_slots orders [0..<kNumSlots] tp"

definition SendTouchpadBtnEvents :: "int \<Rightarrow> input_event list" where
  "SendTouchpadBtnEvents touch_count =
     [input_ev EV_KEY BTN_TOUCH (if touch_count > 0 then 1 else 0),
      input_ev EV_KEY BTN_TOOL_FINGER (if touch_count = 1 then 1 else 0),
      input_ev EV_KEY BTN_TOOL_DOUBLETAP (if touch_count = 2 then 1 else 0),
      input_ev EV_KEY BTN_TOOL_TRIPLETAP (if touch_count = 3 then 1 else 0),
      input_ev EV_KEY BTN_TOOL_QUADTAP (if touch_count = 4 then 1 else 0)]"

section \<open>The loop body of Consume\<close>

definition tp_consume ::
  "input_event \<Rightarrow> (nat \<Rightarrow> event_key list) \<Rightarrow> touchpad \<Rightarrow> exn + input_event list \<times> touchpad" where
  "tp_consume ev orders tp =
     (case AddEvent ev None (tp_sm tp) of
        (frame, _, sm') \<Rightarrow>
          let tp1 = tp\<lparr>tp_sm := sm'\<rparr> in
          if frame then
            (case SyncTouchEvents orders tp1 of
               Inl e \<Rightarrow> Inl e
             | Inr (outs, touch_count, tp2) \<Rightarrow>
                 Inr (outs @ SendTouchpadBtnEvents touch_count @
                        [input_ev EV_SYN SYN_REPORT 0], tp2))
          else Inr ([], tp1))"

section \<open>The loop, slot by slot\<close>

text \<open>
  The loop writes only the memberships, and each turn reads only its own, so its result is
  that of the turns taken separately.
\<close>

definition slot_sync :: "touchpad \<Rightarrow> (nat \<Rightarrow> event_key list) \<Rightarrow> nat \<Rightarrow> input_event list \<times> bool \<times> bool" where
  "slot_sync tp orders i = sync_slot tp (orders i) i (slot_memberships tp ! i) (slots (tp_sm tp) ! i)"

definition slot_outs :: "touchpad \<Rightarrow> (nat \<Rightarrow> event_key list) \<Rightarrow> nat \<Rightarrow> input_event list" where
  "slot_outs tp orders i = fst (slot_sync tp orders i)"

definition counted :: "touchpad \<Rightarrow> (nat \<Rightarrow> event_key list) \<Rightarrow> nat \<Rightarrow> bool" where
  "counted tp orders i = snd (snd (slot_sync tp orders i))"

lemma sync_slot_member: "fst (snd (sync_slot tp order i m s)) = tp_Contains tp s"
  by (simp add: sync_slot_def Let_def split: prod.splits)

lemma tp_Contains_members [simp]:
  "tp_Contains (tp\<lparr>slot_memberships := ms\<rparr>) s = tp_Contains tp s"
  by (simp add: tp_Contains_def)

lemma transform_members [simp]:
  "transform (tp\<lparr>slot_memberships := ms\<rparr>) k v = transform tp k v"
  by (simp add: transform_def Let_def)

lemma PassEventsThrough_members [simp]:
  "PassEventsThrough (tp\<lparr>slot_memberships := ms\<rparr>) s order = PassEventsThrough tp s order"
  by (induction order) (simp_all split: option.split)

lemma sync_slot_members [simp]:
  "sync_slot (tp\<lparr>slot_memberships := ms\<rparr>) order i m s = sync_slot tp order i m s"
  by (simp add: sync_slot_def Let_def)

lemma sync_slots_eq:
  assumes "length (slots (tp_sm tp)) = kNumSlots" and "length (slot_memberships tp) = kNumSlots"
    and "distinct is" and "\<forall>i \<in> set is. i < kNumSlots"
  shows "\<exists>ms. sync_slots orders is tp =
      Inr (concat (map (slot_outs tp orders) is), int (length (filter (counted tp orders) is)),
           tp\<lparr>slot_memberships := ms\<rparr>) \<and>
    length ms = kNumSlots \<and>
    (\<forall>i < kNumSlots. ms ! i = (if i \<in> set is then tp_Contains tp (slots (tp_sm tp) ! i)
                               else slot_memberships tp ! i))"
  using assms
proof (induction "is" arbitrary: tp)
  case Nil
  then show ?case by (intro exI [of _ "slot_memberships tp"]) simp
next
  case (Cons i "is")
  let ?s = "slots (tp_sm tp) ! i"
  let ?tp1 = "tp\<lparr>slot_memberships := (slot_memberships tp)[i := tp_Contains tp ?s]\<rparr>"
  have i: "i < kNumSlots" "i \<notin> set is" "distinct is" using Cons.prems by auto
  obtain o1 m c where one: "slot_sync tp orders i = (o1, m, c)"
    by (cases "slot_sync tp orders i") blast
  then have m: "m = tp_Contains tp ?s"
    using sync_slot_member [of tp "orders i" i "slot_memberships tp ! i" ?s]
    by (simp add: slot_sync_def)
  have same: "slot_sync ?tp1 orders j = slot_sync tp orders j" if "j \<in> set is" for j
  proof -
    have "j \<noteq> i" using that i(2) by auto
    then show ?thesis by (simp add: slot_sync_def)
  qed
  from Cons.IH [of ?tp1] Cons.prems obtain ms where
    rest: "sync_slots orders is ?tp1 =
        Inr (concat (map (slot_outs ?tp1 orders) is), int (length (filter (counted ?tp1 orders) is)),
             ?tp1\<lparr>slot_memberships := ms\<rparr>)" "length ms = kNumSlots"
      "\<forall>j < kNumSlots. ms ! j = (if j \<in> set is then tp_Contains ?tp1 (slots (tp_sm ?tp1) ! j)
                                 else slot_memberships ?tp1 ! j)"
    by auto
  have maps: "map (slot_outs ?tp1 orders) is = map (slot_outs tp orders) is"
    using same by (simp add: slot_outs_def)
  have filters: "filter (counted ?tp1 orders) is = filter (counted tp orders) is"
    using same by (intro filter_cong refl) (simp add: counted_def)
  have "sync_slots orders (i # is) tp =
      Inr (concat (map (slot_outs tp orders) (i # is)),
           int (length (filter (counted tp orders) (i # is))), tp\<lparr>slot_memberships := ms\<rparr>)"
    using rest(1) [unfolded maps filters] one m Cons.prems i(1)
    by (simp add: slot_at_def slot_outs_def counted_def slot_sync_def Let_def)
  moreover have "\<forall>j < kNumSlots. ms ! j = (if j \<in> set (i # is)
      then tp_Contains tp (slots (tp_sm tp) ! j) else slot_memberships tp ! j)"
    using rest(3) Cons.prems i by (auto simp: nth_list_update)
  ultimately show ?case using rest(2) by blast
qed

definition wf_tp :: "touchpad \<Rightarrow> bool" where
  "wf_tp tp \<longleftrightarrow> wf_mt (tp_sm tp) \<and> length (slot_memberships tp) = kNumSlots"

lemma wf_tp_initial [simp]: "wf_tp (tp_initial x0 x1 y0 y1 r)"
  by (simp add: wf_tp_def tp_initial_def)

text \<open>The memberships after a frame: the slots that lie in the region.\<close>

definition members_now :: "touchpad \<Rightarrow> bool list" where
  "members_now tp = map (\<lambda>i. tp_Contains tp (slots (tp_sm tp) ! i)) [0..<kNumSlots]"

lemma SyncTouchEvents_eq:
  assumes "wf_tp tp"
  shows "SyncTouchEvents orders tp =
    Inr (concat (map (slot_outs tp orders) [0..<kNumSlots]),
         int (length (filter (counted tp orders) [0..<kNumSlots])),
         tp\<lparr>slot_memberships := members_now tp\<rparr>)"
proof -
  from sync_slots_eq [of tp "[0..<kNumSlots]" orders] assms obtain ms where
    ms: "sync_slots orders [0..<kNumSlots] tp =
      Inr (concat (map (slot_outs tp orders) [0..<kNumSlots]),
           int (length (filter (counted tp orders) [0..<kNumSlots])), tp\<lparr>slot_memberships := ms\<rparr>)"
    "length ms = kNumSlots"
    "\<forall>i < kNumSlots. ms ! i = (if i \<in> set [0..<kNumSlots] then tp_Contains tp (slots (tp_sm tp) ! i)
                               else slot_memberships tp ! i)"
    by (auto simp: wf_tp_def wf_mt_def)
  have "ms = members_now tp"
    using ms(2,3) by (intro nth_equalityI) (simp_all add: members_now_def)
  with ms(1) show ?thesis by (simp add: SyncTouchEvents_def)
qed

lemma AddEvent_frame:
  "fst (AddEvent ev out sm) \<longleftrightarrow> is_report ev \<and> \<not> dropping_events sm"
  by (auto simp: AddEvent_def is_report_def Let_def event_key_class_defs event_key_of_def)

lemma tp_consume_eq:
  assumes "wf_tp tp"
  shows "tp_consume ev orders tp =
    (let tp1 = tp\<lparr>tp_sm := mt_step ev (tp_sm tp)\<rparr> in
     if is_report ev \<and> \<not> dropping_events (tp_sm tp)
     then Inr (concat (map (slot_outs tp1 orders) [0..<kNumSlots]) @
               SendTouchpadBtnEvents (int (length (filter (counted tp1 orders) [0..<kNumSlots]))) @
               [input_ev EV_SYN SYN_REPORT 0],
               tp1\<lparr>slot_memberships := members_now tp1\<rparr>)
     else Inr ([], tp1))"
proof -
  obtain r out sm' where a: "AddEvent ev None (tp_sm tp) = (r, out, sm')"
    by (cases "AddEvent ev None (tp_sm tp)") blast
  then have "sm' = mt_step ev (tp_sm tp)" "r \<longleftrightarrow> is_report ev \<and> \<not> dropping_events (tp_sm tp)"
    using AddEvent_state [of ev None "tp_sm tp"] AddEvent_frame [of ev None "tp_sm tp"] by simp_all
  moreover have "wf_tp (tp\<lparr>tp_sm := mt_step ev (tp_sm tp)\<rparr>)"
    using assms by (simp add: wf_tp_def wf_mt_step)
  ultimately show ?thesis
    using a by (simp add: tp_consume_def SyncTouchEvents_eq Let_def)
qed

lemma tp_consume_total: "wf_tp tp \<Longrightarrow> \<exists>outs tp'. tp_consume ev orders tp = Inr (outs, tp')"
  by (cases "is_report ev \<and> \<not> dropping_events (tp_sm tp)") (simp_all add: tp_consume_eq Let_def)

lemma wf_tp_consume:
  "wf_tp tp \<Longrightarrow> tp_consume ev orders tp = Inr (outs, tp') \<Longrightarrow> wf_tp tp'"
  by (auto simp: tp_consume_eq Let_def wf_tp_def wf_mt_step members_now_def split: if_splits)

end
