(* ===== verification/Config.thy ===== *)
theory Config
  imports Floats Touchpad Keyboard
begin

text \<open>
  Loading the configuration: \<^verbatim>\<open>src/hardware_config.cc\<close> and the \<open>LoadLayout\<close> functions of the two
  devices. The CSV reader is the vendored library \<^verbatim>\<open>csv.h\<close> and a parameter here: what it
  delivers for a file, row by row, an exception included. A layout column that the file does
  not have is \<open>None\<close>: the reader then leaves the variable alone, which for the coordinates
  means that an uninitialised \<^verbatim>\<open>double\<close> is read.
\<close>

abbreviation (input) dadd :: "fp \<Rightarrow> fp \<Rightarrow> fp" where "dadd \<equiv> fp_add double_format"
abbreviation (input) dsub :: "fp \<Rightarrow> fp \<Rightarrow> fp" where "dsub \<equiv> fp_sub double_format"
abbreviation (input) dmul :: "fp \<Rightarrow> fp \<Rightarrow> fp" where "dmul \<equiv> fp_mul double_format"
abbreviation (input) ddiv :: "fp \<Rightarrow> fp \<Rightarrow> fp" where "ddiv \<equiv> fp_div double_format"
abbreviation (input) dint :: "int \<Rightarrow> fp" where "dint \<equiv> fp_of_int double_format"

section \<open>Hardware\<close>

record hardware_config =
  rotation :: int
  res_x :: int
  res_y :: int
  width_mm :: fp
  height_mm :: fp
  left_margin_mm :: fp
  top_margin_mm :: fp

definition IsSupportedRotation :: "int \<Rightarrow> bool" where
  "IsSupportedRotation r \<longleftrightarrow> r = 0 \<or> r = 90 \<or> r = 180 \<or> r = 270"

definition Validate :: "hardware_config \<Rightarrow> exn + unit" where
  "Validate config =
     (if res_x config \<le> 0 \<or> res_y config \<le> 0
      then Inl (RuntimeError ''hardware resolution must be positive'')
      else if \<not> isfinite (width_mm config) \<or> fp_le (width_mm config) (Fin 0) \<or>
              \<not> isfinite (height_mm config) \<or> fp_le (height_mm config) (Fin 0)
      then Inl (RuntimeError ''hardware dimensions must be finite and positive'')
      else if \<not> isfinite (left_margin_mm config) \<or> fp_less (left_margin_mm config) (Fin 0) \<or>
              \<not> isfinite (top_margin_mm config) \<or> fp_less (top_margin_mm config) (Fin 0)
      then Inl (RuntimeError ''hardware margins must be finite and non-negative'')
      else if \<not> IsSupportedRotation (rotation config)
      then Inl (RuntimeError ''hardware rotation must be 0, 90, 180, or 270 degrees'')
      else Inr ())"

text \<open>\<open>row\<close> is what the reader delivers as the first data row, \<open>None\<close> if there is none.\<close>

definition LoadHardwareConfig :: "string \<Rightarrow> exn + hardware_config option \<Rightarrow> exn + hardware_config" where
  "LoadHardwareConfig path row =
     res_bind row (\<lambda>r. case r of
         None \<Rightarrow> Inl (RuntimeError (''hardware configuration has no data row: '' @ path))
       | Some config \<Rightarrow> res_bind (Validate config) (\<lambda>_. Inr config))"

section \<open>Keyboard layout\<close>

record layout_row =
  row_x :: "fp option"
  row_y :: "fp option"
  row_w :: "fp option"
  row_h :: "fp option"
  row_name :: string
  row_code :: "int option"
  row_code_fn :: "int option"

text \<open>\<open>x1\<close>, \<open>x2\<close>, \<open>y1\<close>, \<open>y2\<close> of a key; \<open>None\<close> for a rotation that is not supported.\<close>

definition key_bounds ::
  "hardware_config \<Rightarrow> fp \<Rightarrow> fp \<Rightarrow> fp \<Rightarrow> fp \<Rightarrow> (fp \<times> fp \<times> fp \<times> fp) option" where
  "key_bounds hw x y w h =
     (let hw_pitch_x = ddiv (dint (res_x hw)) (width_mm hw);
          hw_pitch_y = ddiv (dint (res_y hw)) (height_mm hw);
          left_margin = left_margin_mm hw;
          top_margin = top_margin_mm hw
      in if rotation hw = 0 then
           Some (dmul (dadd left_margin x) hw_pitch_x,
                 dmul (dadd (dadd left_margin x) w) hw_pitch_x,
                 dmul (dadd top_margin y) hw_pitch_y,
                 dmul (dadd (dadd top_margin y) h) hw_pitch_y)
         else if rotation hw = 90 then
           Some (dmul (dadd top_margin y) hw_pitch_x,
                 dmul (dadd (dadd top_margin y) h) hw_pitch_x,
                 dmul (dsub (height_mm hw) (dadd (dadd left_margin x) w)) hw_pitch_y,
                 dmul (dsub (height_mm hw) (dadd left_margin x)) hw_pitch_y)
         else if rotation hw = 180 then
           Some (dmul (dsub (width_mm hw) (dadd (dadd left_margin x) w)) hw_pitch_x,
                 dmul (dsub (width_mm hw) (dadd left_margin x)) hw_pitch_x,
                 dmul (dsub (height_mm hw) (dadd (dadd top_margin y) h)) hw_pitch_y,
                 dmul (dsub (height_mm hw) (dadd top_margin y)) hw_pitch_y)
         else if rotation hw = 270 then
           Some (dmul (dsub (width_mm hw) (dadd (dadd y h) top_margin)) hw_pitch_x,
                 dmul (dsub (width_mm hw) (dadd y top_margin)) hw_pitch_x,
                 dmul (dadd left_margin x) hw_pitch_y,
                 dmul (dadd (dadd left_margin x) w) hw_pitch_y)
         else None)"

definition the_or :: "'a \<Rightarrow> 'a option \<Rightarrow> 'a" where
  "the_or d x = (case x of None \<Rightarrow> d | Some y \<Rightarrow> y)"

definition uninitialised :: exn where
  "uninitialised = UndefinedBehaviour ''read of an uninitialised double''"

definition initialised :: "fp option \<Rightarrow> exn + fp" where
  "initialised v = (case v of None \<Rightarrow> Inl uninitialised | Some x \<Rightarrow> Inr x)"

text \<open>
  The body of the loop for one row; \<open>None\<close> is the \<open>return false\<close> of the default case. All four
  doubles are read before the test, although the code's \<open>||\<close> may throw before it reaches the last
  of them: the model finds undefined behaviour in more files, never in fewer.
\<close>

definition load_key :: "hardware_config \<Rightarrow> layout_row \<Rightarrow> exn + key option" where
  "load_key hw row =
     res_bind (initialised (row_x row)) (\<lambda>x.
     res_bind (initialised (row_y row)) (\<lambda>y.
     res_bind (initialised (row_w row)) (\<lambda>w.
     res_bind (initialised (row_h row)) (\<lambda>h.
       let keycode = the_or 0 (row_code row); keycode_fn = the_or 0 (row_code_fn row) in
       if \<not> isfinite x \<or> \<not> isfinite y \<or> \<not> isfinite w \<or> \<not> isfinite h \<or>
          fp_le w (Fin 0) \<or> fp_le h (Fin 0) \<or> keycode \<le> 0 \<or> keycode > KEY_MAX \<or>
          keycode_fn < 0 \<or> keycode_fn > KEY_MAX
       then Inl (RuntimeError (''keyboard layout contains an invalid key: '' @ row_name row))
       else case key_bounds hw x y w h of
           None \<Rightarrow> Inr None
         | Some (bx1, bx2, by1, by2) \<Rightarrow>
             res_bind (fp_to_int bx1) (\<lambda>x1.
             res_bind (fp_to_int bx2) (\<lambda>x2.
             res_bind (fp_to_int by1) (\<lambda>y1.
             res_bind (fp_to_int by2) (\<lambda>y2.
               if x1 \<ge> x2 \<or> y1 \<ge> y2
               then Inl (RuntimeError (''keyboard layout produces invalid bounds for: '' @ row_name row))
               else Inr (Some \<lparr>key_event_code = keycode, key_event_code_fn = keycode_fn,
                               key_xmin = x1, key_xmax = x2, key_ymin = y1, key_ymax = y2\<rparr>)))))))))"

fun load_rows :: "hardware_config \<Rightarrow> (exn + layout_row) list \<Rightarrow> key list \<Rightarrow> exn + bool \<times> key list" where
  "load_rows hw [] acc = Inr (acc \<noteq> [], acc)"
| "load_rows hw (r # rows) acc =
     res_bind r (\<lambda>row. res_bind (load_key hw row) (\<lambda>k. case k of
         None \<Rightarrow> Inr (False, acc)
       | Some key \<Rightarrow> load_rows hw rows (acc @ [key])))"

definition keyboard_LoadLayout ::
  "hardware_config \<Rightarrow> (exn + layout_row) list \<Rightarrow> exn + bool \<times> key list" where
  "keyboard_LoadLayout hw rows = load_rows hw rows []"

definition FakeKeyboard_new ::
  "hardware_config \<Rightarrow> string \<Rightarrow> (exn + layout_row) list \<Rightarrow> exn + keyboard" where
  "FakeKeyboard_new hw path rows =
     res_bind (keyboard_LoadLayout hw rows) (\<lambda>(ok, ks).
       if \<not> ok then Inl (RuntimeError (''keyboard layout has no keys: '' @ path))
       else Inr (kb_initial ks))"

section \<open>Touchpad region\<close>

record region_row =
  reg_x1 :: "fp option"
  reg_y1 :: "fp option"
  reg_x2 :: "fp option"
  reg_y2 :: "fp option"

text \<open>The four sums of the switch, before they are stored in \<^verbatim>\<open>int\<close> members.\<close>

definition region_bounds ::
  "hardware_config \<Rightarrow> fp \<Rightarrow> fp \<Rightarrow> fp \<Rightarrow> fp \<Rightarrow> (fp \<times> fp \<times> fp \<times> fp) option" where
  "region_bounds hw xmin_mm ymin_mm xmax_mm ymax_mm =
     (let left_margin = left_margin_mm hw; top_margin = top_margin_mm hw in
      if rotation hw = 0 then
        Some (dadd xmin_mm left_margin, dadd xmax_mm left_margin,
              dadd ymin_mm top_margin, dadd ymax_mm top_margin)
      else if rotation hw = 90 then
        Some (dadd top_margin ymin_mm, dadd top_margin ymax_mm,
              dsub (height_mm hw) (dadd left_margin xmax_mm),
              dsub (height_mm hw) (dadd left_margin xmin_mm))
      else if rotation hw = 180 then
        Some (dsub (width_mm hw) (dadd xmax_mm left_margin),
              dsub (width_mm hw) (dadd xmin_mm left_margin),
              dsub (height_mm hw) (dadd ymax_mm top_margin),
              dsub (height_mm hw) (dadd ymin_mm top_margin))
      else if rotation hw = 270 then
        Some (dsub (width_mm hw) (dadd ymax_mm top_margin),
              dsub (width_mm hw) (dadd ymin_mm top_margin),
              dadd left_margin xmin_mm, dadd left_margin xmax_mm)
      else None)"

text \<open>An \<^verbatim>\<open>int\<close> member set to a \<^verbatim>\<open>double\<close> and then multiplied in place by the pitch.\<close>

definition scaled :: "fp \<Rightarrow> fp \<Rightarrow> exn + int" where
  "scaled mm pitch = res_bind (fp_to_int mm) (\<lambda>n. fp_to_int (dmul (dint n) pitch))"

text \<open>What \<open>LoadLayout\<close> does with the values of the row: the region and its size in millimetres.\<close>

definition set_region ::
  "hardware_config \<Rightarrow> fp \<Rightarrow> fp \<Rightarrow> fp \<Rightarrow> fp \<Rightarrow> exn + touchpad \<times> fp \<times> fp" where
  "set_region hw xmin_mm ymin_mm xmax_mm ymax_mm =
     (if \<not> isfinite xmin_mm \<or> \<not> isfinite ymin_mm \<or> \<not> isfinite xmax_mm \<or>
         \<not> isfinite ymax_mm \<or> fp_le xmax_mm xmin_mm \<or> fp_le ymax_mm ymin_mm
      then Inl (RuntimeError ''touchpad geometry is invalid'')
      else case region_bounds hw xmin_mm ymin_mm xmax_mm ymax_mm of
          None \<Rightarrow> Inl (RuntimeError ''unsupported touchpad rotation'')
        | Some (bx1, bx2, by1, by2) \<Rightarrow>
            let hw_pitch_x = ddiv (dint (res_x hw)) (width_mm hw);
                hw_pitch_y = ddiv (dint (res_y hw)) (height_mm hw)
            in res_bind (scaled bx1 hw_pitch_x) (\<lambda>x1.
               res_bind (scaled bx2 hw_pitch_x) (\<lambda>x2.
               res_bind (scaled by1 hw_pitch_y) (\<lambda>y1.
               res_bind (scaled by2 hw_pitch_y) (\<lambda>y2.
                 Inr (tp_initial x1 x2 y1 y2 (rotation hw),
                      dsub xmax_mm xmin_mm, dsub ymax_mm ymin_mm))))))"

text \<open>\<open>None\<close> is the result false: the file has no data row.\<close>

definition touchpad_LoadLayout ::
  "hardware_config \<Rightarrow> exn + region_row option \<Rightarrow> exn + (touchpad \<times> fp \<times> fp) option" where
  "touchpad_LoadLayout hw row =
     res_bind row (\<lambda>r. case r of
         None \<Rightarrow> Inr None
       | Some reg \<Rightarrow>
           res_bind (initialised (reg_x1 reg)) (\<lambda>xmin_mm.
           res_bind (initialised (reg_y1 reg)) (\<lambda>ymin_mm.
           res_bind (initialised (reg_x2 reg)) (\<lambda>xmax_mm.
           res_bind (initialised (reg_y2 reg)) (\<lambda>ymax_mm.
           res_bind (set_region hw xmin_mm ymin_mm xmax_mm ymax_mm) (\<lambda>tp. Inr (Some tp)))))))"

definition FakeTouchpad_new ::
  "hardware_config \<Rightarrow> string \<Rightarrow> exn + region_row option \<Rightarrow> exn + touchpad \<times> fp \<times> fp" where
  "FakeTouchpad_new hw path row =
     res_bind (touchpad_LoadLayout hw row) (\<lambda>r. case r of
         None \<Rightarrow> Inl (RuntimeError (''touchpad configuration has no data row: '' @ path))
       | Some tp \<Rightarrow> Inr tp)"

end
