(* ===== verification/Config_Props.thy ===== *)
theory Config_Props
  imports Config
begin

text \<open>
  What a configuration that loads guarantees to the rest of the program: a valid hardware
  description, keys with a non-empty area and legal codes, and an ordered touchpad region.
\<close>

section \<open>Hardware\<close>

definition valid_hardware :: "hardware_config \<Rightarrow> bool" where
  "valid_hardware hw \<longleftrightarrow> 0 < res_x hw \<and> 0 < res_y hw \<and>
     (\<exists>w h l t. width_mm hw = Fin w \<and> height_mm hw = Fin h \<and> left_margin_mm hw = Fin l \<and>
        top_margin_mm hw = Fin t \<and> 0 < w \<and> 0 < h \<and> 0 \<le> l \<and> 0 \<le> t) \<and>
     rotation hw \<in> {0, 90, 180, 270}"

lemma isfinite_Fin: "isfinite a \<longleftrightarrow> (\<exists>x. a = Fin x)"
  by (cases a) (simp_all add: isfinite_def)

text \<open>
  C34: validation accepts exactly the hardware descriptions with positive resolutions, finite
  positive dimensions, finite non-negative margins and a rotation by a multiple of 90 degrees;
  so a description that loads is the one in the file and is valid.
\<close>

theorem Validate_correct:
  "(Validate hw = Inr () \<longleftrightarrow> valid_hardware hw) \<and>
   (LoadHardwareConfig path row = Inr hw \<longleftrightarrow> row = Inr (Some hw) \<and> valid_hardware hw)"
proof -
  have v: "Validate c = Inr () \<longleftrightarrow> valid_hardware c" for c
    by (auto simp: Validate_def valid_hardware_def isfinite_Fin IsSupportedRotation_def not_le
        not_less split: if_splits)
  then show ?thesis
    by (auto simp: LoadHardwareConfig_def split: option.splits)
qed

section \<open>Keyboard layout\<close>

definition valid_key :: "key \<Rightarrow> bool" where
  "valid_key k \<longleftrightarrow> key_xmin k < key_xmax k \<and> key_ymin k < key_ymax k \<and>
     int32 (key_xmin k) \<and> int32 (key_xmax k) \<and> int32 (key_ymin k) \<and> int32 (key_ymax k) \<and>
     1 \<le> key_event_code k \<and> key_event_code k \<le> KEY_MAX \<and>
     0 \<le> key_event_code_fn k \<and> key_event_code_fn k \<le> KEY_MAX"

lemma load_key_valid:
  assumes "load_key hw row = Inr (Some k)"
  shows "valid_key k \<and> row_code row = Some (key_event_code k) \<and>
    the_or 0 (row_code_fn row) = key_event_code_fn k"
  using assms
  by (auto simp: load_key_def Let_def valid_key_def the_or_def split: if_splits option.splits)

text \<open>
  C35: a keyboard layout that loads has one key per row of the file, in the order of the file,
  with the codes of the row; every key has a non-empty area within the range of \<^verbatim>\<open>int\<close> and
  codes the kernel knows; and the layout is not empty.
\<close>

theorem layout_is_valid:
  assumes "keyboard_LoadLayout hw rows = Inr (True, ks)"
  shows "ks \<noteq> [] \<and> (\<forall>k \<in> set ks. valid_key k) \<and>
    (\<exists>rs. rows = map Inr rs \<and> map row_code rs = map (\<lambda>k. Some (key_event_code k)) ks \<and>
          map (\<lambda>r. the_or 0 (row_code_fn r)) rs = map key_event_code_fn ks)"
proof -
  have "load_rows hw rows acc = Inr (True, ks) \<Longrightarrow>
      ks \<noteq> [] \<and> (\<exists>new rs. ks = acc @ new \<and> (\<forall>k \<in> set new. valid_key k) \<and> rows = map Inr rs \<and>
        map row_code rs = map (\<lambda>k. Some (key_event_code k)) new \<and>
        map (\<lambda>r. the_or 0 (row_code_fn r)) rs = map key_event_code_fn new)" for acc
  proof (induction rows arbitrary: acc)
    case Nil
    then show ?case by auto
  next
    case (Cons r rows)
    from Cons.prems obtain row k where r: "r = Inr row" "load_key hw row = Inr (Some k)"
      "load_rows hw rows (acc @ [k]) = Inr (True, ks)"
      by (auto split: option.splits)
    from Cons.IH [OF r(3)] obtain new rs where
      "ks \<noteq> []" "ks = (acc @ [k]) @ new" "\<forall>k \<in> set new. valid_key k" "rows = map Inr rs"
      "map row_code rs = map (\<lambda>k. Some (key_event_code k)) new"
      "map (\<lambda>r. the_or 0 (row_code_fn r)) rs = map key_event_code_fn new" by blast
    with r(1) load_key_valid [OF r(2)] show ?case
      by (intro conjI exI [of _ "k # new"] exI [of _ "row # rs"]) auto
  qed
  from this [of "[]"] assms show ?thesis by (auto simp: keyboard_LoadLayout_def)
qed

text \<open>A panel of 1000 x 500 units and 100 x 50 mm, and a key of 10 x 8 mm at (2, 3) mm.\<close>

definition sample_hw :: "int \<Rightarrow> hardware_config" where
  "sample_hw r = \<lparr>rotation = r, res_x = 1000, res_y = 500, width_mm = Fin 100, height_mm = Fin 50,
                  left_margin_mm = Fin 1, top_margin_mm = Fin 2\<rparr>"

definition sample_row :: layout_row where
  "sample_row = \<lparr>row_x = Some (Fin 2), row_y = Some (Fin 3), row_w = Some (Fin 10),
                 row_h = Some (Fin 8), row_name = ''A'', row_code = Some 30,
                 row_code_fn = Some 0\<rparr>"

lemma dint_numeral:
  "(numeral k :: int) < 2 ^ 31 \<Longrightarrow> fp_of_int double_format (numeral k) = Fin (numeral k)"
  by (simp add: fp_of_int_exact int32_def order_trans [of "- (2 ^ 31)" 0])

lemma trunc_numeral [simp]: "trunc_rat (numeral k) = numeral k"
  by (simp add: trunc_rat_def)

lemma sample_key_loads:
  "load_key (sample_hw 0) sample_row =
     Inr (Some \<lparr>key_event_code = 30, key_event_code_fn = 0, key_xmin = 30, key_xmax = 130,
                key_ymin = 50, key_ymax = 130\<rparr>)"
  by (simp add: load_key_def sample_hw_def sample_row_def initialised_def the_or_def isfinite_def
      key_bounds_def dint_numeral fp_to_int_def int32_def Let_def)

theorem layout_is_valid_witness:
  "\<exists>ks. keyboard_LoadLayout (sample_hw 0) [Inr sample_row] = Inr (True, ks) \<and>
     (\<forall>k \<in> set ks. valid_key k)"
proof -
  have load: "\<exists>ks. keyboard_LoadLayout (sample_hw 0) [Inr sample_row] = Inr (True, ks)"
    by (simp add: keyboard_LoadLayout_def sample_key_loads)
  then obtain ks where ks: "keyboard_LoadLayout (sample_hw 0) [Inr sample_row] = Inr (True, ks)" ..
  with layout_is_valid [OF ks] show ?thesis by blast
qed

section \<open>Touchpad region\<close>

lemma scaled_mono:
  assumes "scaled (Fin a) p = Inr m" and "scaled (Fin b) p = Inr n" and "a \<le> b"
    and p: "p = Fin q" "0 \<le> q"
  shows "m \<le> n"
proof -
  have i: "int32 (trunc_rat a)" "int32 (trunc_rat b)" using assms by (auto simp: scaled_def)
  obtain x y where xy: "fp_of_rat double_format (of_int (trunc_rat a) * q) = Fin x" "m = trunc_rat x"
    "fp_of_rat double_format (of_int (trunc_rat b) * q) = Fin y" "n = trunc_rat y"
    using assms(1,2) i by (auto simp: scaled_def p fp_of_int_exact)
  have "of_int (trunc_rat a) * q \<le> of_int (trunc_rat b) * q"
    using trunc_rat_mono [OF assms(3)] p(2) by (intro mult_right_mono) simp_all
  from fp_of_rat_mono [OF xy(1,3) this] have "x \<le> y" by simp
  then show ?thesis using trunc_rat_mono by (simp add: xy)
qed

lemma scaled_Fin: "scaled v p = Inr m \<Longrightarrow> \<exists>a. v = Fin a"
  by (auto simp: scaled_def)

lemma dadd_mono:
  assumes "fp_add double_format (Fin a) v = Fin x" and "fp_add double_format (Fin b) v = Fin y"
    and "a \<le> b"
  shows "x \<le> y"
  using assms by (auto simp: fp_add_Fin intro: fp_of_rat_mono [of double_format "a + _" x "b + _" y])

lemma fp_add_comm: "fp_add F a b = fp_add F b a"
  by (cases a; cases b) (simp_all add: add.commute)

lemma dsub_antimono:
  assumes "fp_sub double_format v a = Fin x" and "fp_sub double_format v b = Fin y"
    and "fp_le a b"
  shows "y \<le> x"
proof -
  obtain p q r where "v = Fin p" "a = Fin q" "b = Fin r"
    "fp_of_rat double_format (p - q) = Fin x" "fp_of_rat double_format (p - r) = Fin y"
    using assms(1,2) by (auto simp: fp_sub_def fp_add_Fin fp_neg_Fin)
  with assms(3) show ?thesis
    by (auto intro: fp_of_rat_mono [of double_format "p - r" y "p - q" x])
qed

lemma region_ordered:
  assumes hw: "valid_hardware hw" and order: "a < b" "c < d"
    and bounds: "region_bounds hw (Fin a) (Fin c) (Fin b) (Fin d) = Some (Fin p, Fin q, Fin r, Fin s)"
  shows "p \<le> q" and "r \<le> s"
proof -
  have add: "x \<le> y" if "fp_add double_format v (Fin m) = Fin x" "fp_add double_format v (Fin n) = Fin y" "m \<le> n"
    for v m n x y
    using dadd_mono [of m v x n y] that by (simp add: fp_add_comm)
  have add': "x \<le> y" if "fp_add double_format (Fin m) v = Fin x" "fp_add double_format (Fin n) v = Fin y" "m \<le> n"
    for v m n x y
    using dadd_mono that by blast
  have sub: "y \<le> x"
    if prem: "fp_sub double_format w (fp_add double_format u (Fin m)) = Fin x"
      "fp_sub double_format w (fp_add double_format u (Fin n)) = Fin y" "m \<le> n" for w u m n x y
  proof -
    obtain i j where "fp_add double_format u (Fin m) = Fin i" "fp_add double_format u (Fin n) = Fin j"
      using prem(1,2) by (auto simp: fp_sub_def fp_add_Fin fp_neg_Fin)
    with add [of u m i n j] prem show ?thesis
      by (intro dsub_antimono [of w "Fin i" x "Fin j" y]) simp_all
  qed
  have sub': "y \<le> x"
    if "fp_sub double_format w (fp_add double_format (Fin m) u) = Fin x"
      "fp_sub double_format w (fp_add double_format (Fin n) u) = Fin y" "m \<le> n" for w u m n x y
    using sub [of w u m x n y] that by (simp add: fp_add_comm)
  show "p \<le> q" "r \<le> s"
    using bounds order
    by (auto simp: region_bounds_def Let_def split: if_splits intro: add add' sub sub')
qed

lemma set_region_Inr:
  assumes "set_region hw u v s t = Inr (tp, w_mm, h_mm)"
  shows "\<exists>a b c d bx1 bx2 by1 by2 x1 x2 y1 y2. a < b \<and> c < d \<and>
    region_bounds hw (Fin a) (Fin c) (Fin b) (Fin d) = Some (bx1, bx2, by1, by2) \<and>
    scaled bx1 (ddiv (dint (res_x hw)) (width_mm hw)) = Inr x1 \<and>
    scaled bx2 (ddiv (dint (res_x hw)) (width_mm hw)) = Inr x2 \<and>
    scaled by1 (ddiv (dint (res_y hw)) (height_mm hw)) = Inr y1 \<and>
    scaled by2 (ddiv (dint (res_y hw)) (height_mm hw)) = Inr y2 \<and>
    tp = tp_initial x1 x2 y1 y2 (rotation hw)"
proof -
  from assms obtain a c b d where fin: "u = Fin a" "v = Fin c" "s = Fin b" "t = Fin d" "a < b" "c < d"
    by (auto simp: set_region_def isfinite_Fin not_le split: if_splits)
  show ?thesis
  proof (cases "region_bounds hw (Fin a) (Fin c) (Fin b) (Fin d)")
    case None
    with assms fin show ?thesis by (simp add: set_region_def isfinite_def split: if_splits)
  next
    case (Some q)
    obtain bx1 bx2 by1 by2 where q: "q = (bx1, bx2, by1, by2)" by (cases q) auto
    from assms Some fin obtain x1 x2 y1 y2 where
      "scaled bx1 (ddiv (dint (res_x hw)) (width_mm hw)) = Inr x1"
      "scaled bx2 (ddiv (dint (res_x hw)) (width_mm hw)) = Inr x2"
      "scaled by1 (ddiv (dint (res_y hw)) (height_mm hw)) = Inr y1"
      "scaled by2 (ddiv (dint (res_y hw)) (height_mm hw)) = Inr y2"
      "tp = tp_initial x1 x2 y1 y2 (rotation hw)"
      by (auto simp: set_region_def isfinite_def not_le q Let_def)
    with Some q fin show ?thesis by blast
  qed
qed


definition region_of :: "rat \<Rightarrow> rat \<Rightarrow> rat \<Rightarrow> rat \<Rightarrow> exn + region_row option" where
  "region_of a b c d = Inr (Some \<lparr>reg_x1 = Some (Fin a), reg_y1 = Some (Fin b),
                                  reg_x2 = Some (Fin c), reg_y2 = Some (Fin d)\<rparr>)"


text \<open>
  The bounds of the touchpad are stored in \<^verbatim>\<open>int\<close>s before they are multiplied by the pitch, so
  they are cut to whole millimetres: a region from 0.25 to 0.75 mm, five units of the panel
  wide, is accepted and becomes a region of width zero, and one from 10.75 to 20.75 mm is moved
  by three quarters of a millimetre.
\<close>

theorem region_is_cut_to_whole_millimetres:
  "(\<exists>tp w h. touchpad_LoadLayout (sample_hw 0) (region_of (1/4) (1/4) (3/4) (3/4)) = Inr (Some (tp, w, h)) \<and>
      tp_size tp = (0, 0)) \<and>
   (\<exists>tp w h. touchpad_LoadLayout (sample_hw 0) (region_of (43/4) 0 (83/4) 10) = Inr (Some (tp, w, h)) \<and>
      tp_xmin tp = 110 \<and> tp_xmax tp = 210)"
proof -
  have "fp_of_rat double_format (n / 4) = Fin (n / 4)" if "n \<in> {5, 7, 9, 11, 47, 87}" for n
    using that fp_of_rat_dyadic [of 5 2] fp_of_rat_dyadic [of 7 2] fp_of_rat_dyadic [of 9 2]
      fp_of_rat_dyadic [of 11 2] fp_of_rat_dyadic [of 47 2] fp_of_rat_dyadic [of 87 2] by auto
  note quarter = this [of 5] this [of 7] this [of 9] this [of 11] this [of 47] this [of 87]
  have half: "fp_of_rat double_format (1 / 2) = Fin (1 / 2)" using fp_of_rat_dyadic [of 1 1] by simp
  have tr: "trunc_rat (5/4) = 1" "trunc_rat (7/4) = 1" "trunc_rat (9/4) = 2" "trunc_rat (11/4) = 2"
    "trunc_rat (47/4) = 11" "trunc_rat (87/4) = 21"
    by (simp_all add: trunc_rat_def floor_eq_iff)
  have one: "fp_of_int double_format 1 = Fin 1" by (simp add: fp_of_int_exact int32_def)
  note eval = touchpad_LoadLayout_def set_region_def region_of_def sample_hw_def initialised_def
    isfinite_def region_bounds_def scaled_def dint_numeral fp_to_int_def int32_def
    quarter [simplified] half one fp_sub_def tr Let_def
  have "touchpad_LoadLayout (sample_hw 0) (region_of (1/4) (1/4) (3/4) (3/4)) =
      Inr (Some (tp_initial 10 10 20 20 0, Fin (1/2), Fin (1/2)))"
    by (simp add: eval)
  moreover have "touchpad_LoadLayout (sample_hw 0) (region_of (43/4) 0 (83/4) 10) =
      Inr (Some (tp_initial 110 210 20 120 0, Fin 10, Fin 10))"
    by (simp add: eval)
  ultimately show ?thesis by (simp add: tp_initial_def tp_size_def)
qed

end
