(* ===== verification/Keyboard_Process.thy ===== *)
theory Keyboard_Process
  imports Keyboard_Worker_Props Config_Props
begin

text \<open>
  The keyboard process from end to end: what its virtual device accepts, for every kernel and
  every number of iterations, is sound and leaves no key stuck.
\<close>

section \<open>End to end\<close>

lemma emitted_take: "\<exists>m. take n (emitted outs) = emitted (take m outs)"
proof (induction outs arbitrary: n)
  case Nil
  then show ?case by simp
next
  case (Cons out outs)
  show ?case
  proof (cases "emitted_event out")
    case None
    obtain m where "take n (emitted outs) = emitted (take m outs)" using Cons.IH by blast
    with None show ?thesis by (cases out) (auto intro!: exI [of _ "Suc m"])
  next
    case (Some e)
    obtain m where m: "take (n - 1) (emitted outs) = emitted (take m outs)" using Cons.IH by blast
    show ?thesis
    proof (cases n)
      case 0
      then show ?thesis by (intro exI [of _ 0]) simp
    next
      case (Suc k)
      with Some m show ?thesis by (cases out) (auto intro!: exI [of _ "Suc m"])
    qed
  qed
qed

definition u16_codes :: "int set \<Rightarrow> bool" where
  "u16_codes C \<longleftrightarrow> (\<forall>c \<in> C. to_u16 c = c)"

lemma count_emitted:
  "keyboard_events C outs \<Longrightarrow> u16_codes C \<Longrightarrow>
   count_list (emitted outs) (input_ev EV_KEY c v) = count_list outs (Emit EV_KEY c v)"
proof (induction outs)
  case (Cons out outs)
  have rest: "keyboard_events C outs" using Cons.prems(1) by (simp add: keyboard_events_def)
  from Cons.prems(1) consider x y where "out = Haptic x y" | "out = Emit EV_SYN SYN_REPORT 0"
    | d u where "d \<in> C" "out = Emit EV_KEY d u" by (auto simp: keyboard_events_def)
  then show ?case
    using Cons.IH [OF rest Cons.prems(2)] Cons.prems(2) by cases (auto simp: to_u16_id u16_codes_def)
qed simp

lemma emitted_events:
  assumes "keyboard_events C outs" and "u16_codes C" and "e \<in> set (emitted outs)"
  shows "e = input_ev EV_SYN SYN_REPORT 0 \<or> (\<exists>c \<in> C. \<exists>v \<in> {0, 1}. e = input_ev EV_KEY c v)"
proof -
  obtain out where "out \<in> set outs" "emitted_event out = Some e"
    using assms(3) by (auto simp: emitted_def List.map_filter_def)
  with assms(1,2) show ?thesis
    by (cases out) (fastforce simp: keyboard_events_def to_u16_id u16_codes_def)+
qed

lemma layout_codes:
  assumes "keyboard_LoadLayout hw rows = Inr (True, ks)"
  shows "u16_codes (enabled_codes ks)"
proof -
  have "load_rows hw rows acc = Inr (True, ks) \<Longrightarrow> \<forall>k \<in> set acc. valid_key k \<Longrightarrow> \<forall>k \<in> set ks. valid_key k"
    for acc
  proof (induction rows arbitrary: acc)
    case (Cons r rows)
    then obtain row k where r: "r = Inr row" "load_key hw row = Inr (Some k)"
      "load_rows hw rows (acc @ [k]) = Inr (True, ks)"
      by (auto split: option.splits)
    from Cons.IH [OF r(3)] load_key_valid [OF r(2)] Cons.prems(2) show ?case by simp
  qed auto
  from this [of "[]"] assms have "\<forall>k \<in> set ks. valid_key k" by (simp add: keyboard_LoadLayout_def)
  then show ?thesis by (force simp: u16_codes_def enabled_codes_def valid_key_def intro!: to_u16_id)
qed

text \<open>What was accepted of the events of a reachable configuration.\<close>

lemma accepted_prefix_sound:
  assumes "reachable ks s" and "u16_codes (enabled_codes ks)" and "evs = take n (emitted (conf_sent s))"
  shows "(\<forall>e \<in> set evs. e = input_ev EV_SYN SYN_REPORT 0 \<or>
      (\<exists>c \<in> enabled_codes ks. \<exists>v \<in> {0, 1}. e = input_ev EV_KEY c v))"
    and "count_list (take k evs) (input_ev EV_KEY c 0) \<le> count_list (take k evs) (input_ev EV_KEY c 1)"
proof -
  have inv: "keyboard_events (enabled_codes ks) (conf_sent s)" "never_negative (\<lambda>_. 0) (conf_sent s)"
    using reachable_inv [OF assms(1)] by (simp_all add: conf_inv_def)
  show "\<forall>e \<in> set evs. e = input_ev EV_SYN SYN_REPORT 0 \<or>
      (\<exists>c \<in> enabled_codes ks. \<exists>v \<in> {0, 1}. e = input_ev EV_KEY c v)"
    using emitted_events [OF inv(1) assms(2)] in_set_takeD unfolding assms(3) by fast
  obtain m where m: "take k evs = emitted (take m (conf_sent s))"
    using emitted_take [of "min k n" "conf_sent s"] by (auto simp: assms(3) min.commute)
  have "keyboard_events (enabled_codes ks) (take m (conf_sent s))"
    using inv(1) in_set_takeD unfolding keyboard_events_def by fast
  note count = count_emitted [OF this assms(2)]
  have "0 \<le> net c (take m (conf_sent s))" using inv(2) by (simp add: never_negative_def)
  then show "count_list (take k evs) (input_ev EV_KEY c 0) \<le> count_list (take k evs) (input_ev EV_KEY c 1)"
    by (simp add: m count net_def)
qed

lemma kb_Run_run:
  assumes "uinput_fd w < 0" and "source_fd w < 0" and "clock_works K" and "layout kb = ks"
    and "kb = kb_initial ks"
    and env: "\<And>w1. keyboard_setup K path name ks w = (Inr (), w1) \<Longrightarrow>
      fds_ok w1 \<and> normal_ts t \<and> kb_environment K mgr orders t kb w1"
    and run: "kb_Run K mgr path name orders kb w = (r, w')"
  obtains (failed) e where "r = Inl e" and "setup_error e"
      and "device_writes (uinput_fd w') (drop (length (trace w)) (trace w')) = []"
  | (ran) s n where "reachable ks s"
      and "device_writes (uinput_fd w') (drop (length (trace w)) (trace w')) = take n (emitted (conf_sent s))"
      and "\<forall>c \<in> enabled_codes ks. key_enabled (uinput_fd w') c (trace w')"
      and "r = Inr (conf_kb s) \<and> length (emitted (conf_sent s)) \<le> n \<or> (\<exists>e. r = Inl e \<and> kernel_error e)"
proof -
  obtain r1 w1 where set: "keyboard_setup K path name ks w = (r1, w1)" by fastforce
  obtain ext where ext: "trace w1 = trace w @ ext" "no_writes ext"
    "r1 = Inr () \<and> created_with (uinput_fd w1) ks ext \<or> (\<exists>e. r1 = Inl e \<and> setup_error e)"
    using keyboard_setup_run [OF assms(1,2) set] by blast
  show thesis
  proof (cases r1)
    case (Inl e)
    with run set have "r = Inl e" "w' = w1" by (simp_all add: kb_Run_def assms(4))
    with ext Inl show thesis by (intro failed [of e]) (auto simp: no_writes_device)
  next
    case (Inr u)
    with set have set': "keyboard_setup K path name ks w = (Inr (), w1)" by simp
    have loop: "kb_Consume K mgr orders kb w1 = (r, w')"
      using run set' by (simp add: kb_Run_def assms(4))
    from env [OF set'] have fds: "fds_ok w1" and t: "normal_ts t"
      and en: "kb_environment K mgr orders t kb w1" by blast+
    let ?s = "conf_initial ks t"
    have conf: "conf_kb ?s = kb" "conf_clock ?s = t" "conf_sent ?s = []"
      by (simp_all add: conf_initial_def assms(5))
    obtain s ext2 n where s: "reachable ks s" "w' = w1\<lparr>trace := trace w1 @ ext2\<rparr>"
      "device_writes (uinput_fd w1) ext2 = take n (emitted (conf_sent s))"
      "r = Inr (conf_kb s) \<and> length (emitted (conf_sent s)) \<le> n \<or> (\<exists>e. r = Inl e \<and> kernel_error e)"
      using kb_Consume_run [OF reachable_initial [OF t] assms(3) fds, of mgr orders ks r w'] en loop conf
      by auto
    have "\<forall>c \<in> enabled_codes ks. key_enabled (uinput_fd w') c (trace w')"
      using ext(1,3) Inr by (auto simp: created_with_def s(2))
    moreover have "device_writes (uinput_fd w') (drop (length (trace w)) (trace w')) =
        take n (emitted (conf_sent s))"
      using s(2,3) ext(1,2) by (simp add: no_writes_device)
    ultimately show thesis using ran s(1,4) by blast
  qed
qed

text \<open>
  C1: the keyboard process from end to end. Started fresh with a layout that loaded, for every
  kernel, with whatever failures, and any number of iterations: what the virtual device has
  accepted are reports and presses and releases of codes of the layout, each enabled on the
  device before it was created; no prefix of it has more releases of a code than presses; if the
  process is still running with no finger down and nothing pending, every press has been released;
  and it ends only with an exception that reports a failed system call or a failed set-up.
  Descriptors must be distinct and small, as \<^verbatim>\<open>open\<close> returns them.
\<close>

theorem keyboard_process_is_sound:
  assumes "uinput_fd w < 0" and "source_fd w < 0" and "clock_works K"
    and "keyboard_LoadLayout hw rows = Inr (True, ks)"
    and "\<And>w1. keyboard_setup K path name ks w = (Inr (), w1) \<Longrightarrow>
      fds_ok w1 \<and> normal_ts t \<and> kb_environment K mgr orders t (kb_initial ks) w1"
    and "kb_Run K mgr path name orders (kb_initial ks) w = (r, w')"
    and "evs = device_writes (uinput_fd w') (drop (length (trace w)) (trace w'))"
  shows "(\<forall>e \<in> set evs. e = input_ev EV_SYN SYN_REPORT 0 \<or>
      (\<exists>c \<in> enabled_codes ks. \<exists>v \<in> {0, 1}. e = input_ev EV_KEY c v \<and>
         key_enabled (uinput_fd w') c (trace w'))) \<and>
    (\<forall>n c. count_list (take n evs) (input_ev EV_KEY c 0)
         \<le> count_list (take n evs) (input_ev EV_KEY c 1)) \<and>
    (\<forall>e. r = Inl e \<longrightarrow> setup_error e \<or> kernel_error e) \<and>
    (\<forall>kb c. r = Inr kb \<and> pending_events kb = [] \<and> fingers kb = Map.empty \<longrightarrow>
       count_list evs (input_ev EV_KEY c 0) = count_list evs (input_ev EV_KEY c 1))"
proof -
  note u16 = layout_codes [OF assms(4)]
  show ?thesis
  proof (rule kb_Run_run [OF assms(1-3) _ refl assms(5,6)])
    show "layout (kb_initial ks) = ks" by (simp add: kb_initial_def)
  next
    fix e assume "r = Inl e" "setup_error e"
      "device_writes (uinput_fd w') (drop (length (trace w)) (trace w')) = []"
    then show ?thesis by (simp add: assms(7))
  next
    fix s n
    assume s: "reachable ks s"
      "device_writes (uinput_fd w') (drop (length (trace w)) (trace w')) = take n (emitted (conf_sent s))"
      "\<forall>c \<in> enabled_codes ks. key_enabled (uinput_fd w') c (trace w')"
      "r = Inr (conf_kb s) \<and> length (emitted (conf_sent s)) \<le> n \<or> (\<exists>e. r = Inl e \<and> kernel_error e)"
    note evs = assms(7) [unfolded s(2)]
    have "count_list evs (input_ev EV_KEY c 0) = count_list evs (input_ev EV_KEY c 1)"
      if "r = Inr kb" "pending_events kb = []" "fingers kb = Map.empty" for kb c
    proof -
      have "kb = conf_kb s" and all: "evs = emitted (conf_sent s)" using s(4) that(1) evs by auto
      with that reachable_kinv [OF s(1)] have "net c (conf_sent s) = held c (fingers kb)"
        using kinvD(9) [OF reachable_kinv [OF s(1)], of c] by (simp add: covered_def)
      then have "net c (conf_sent s) = 0" by (simp add: that(3) held_def holds_def)
      moreover have "keyboard_events (enabled_codes ks) (conf_sent s)"
        using reachable_inv [OF s(1)] by (simp add: conf_inv_def)
      ultimately show ?thesis using count_emitted [OF _ u16] by (simp add: all net_def)
    qed
    then show ?thesis
      using accepted_prefix_sound [OF s(1) u16 evs] s(3,4) by blast
  qed
qed

text \<open>
  A kernel that opens everything, accepts everything, delivers a finger coming down on a key and
  then nothing more, and whose clock advances by a second with every call.
\<close>

definition script :: "input_event list" where
  "script = touch_events 80 @ [syn_report]"

fun is_read :: "syscall \<times> sysret \<Rightarrow> bool" where
  "is_read (SysRead fd, r) = True"
| "is_read (c, r) = False"

definition reads :: "trace \<Rightarrow> nat" where
  "reads tr = length (filter is_read tr)"

definition typing_kernel :: kernel where
  "typing_kernel tr c =
     \<lparr>ret = (case c of SysOpen _ _ \<Rightarrow> int (length tr) + 3 | SysWrite _ _ \<Rightarrow> sizeof_input_event
                     | SysRead _ \<Rightarrow> sizeof_input_event | _ \<Rightarrow> 0),
      err = 0,
      payload = (case c of SysClock \<Rightarrow> Clock (Timespec (int (length tr) + 1) 0)
                         | SysRead _ \<Rightarrow> InputEvent (script ! reads tr) | _ \<Rightarrow> NoData)\<rparr>"

definition silent_manager :: ff_manager where
  "silent_manager = \<lparr>left_driver_fflib = Map.empty, right_driver_fflib = Map.empty,
                     touch_max_x = 1000, touch_rotation = 0\<rparr>"

definition typing_orders :: "(int list \<times> int list) list" where
  "typing_orders = [([], []), ([], []), ([], []), ([], []), ([5], [5]), ([], [])]"

definition typing_row :: layout_row where
  "typing_row = \<lparr>row_x = Some (Fin 0), row_y = Some (Fin 0), row_w = Some (Fin 10),
                 row_h = Some (Fin 10), row_name = ''a'', row_code = Some 30, row_code_fn = None\<rparr>"

definition typing_run :: "(exn + keyboard) \<times> proc" where
  "typing_run = kb_Run typing_kernel silent_manager ''/dev/halo_keyboard'' ''Halo Keyboard''
     typing_orders (kb_initial [sample_key 30]) proc_initial"

lemma typing_writes:
  "device_writes 4 (trace (snd typing_run)) = [input_ev EV_KEY 30 1, input_ev EV_SYN SYN_REPORT 0]"
  by code_simp

lemma reads_simps [simp]:
  "reads [] = 0"
  "reads (tr @ tr') = reads tr + reads tr'"
  "reads (x # tr) = (if is_read x then 1 else 0) + reads tr"
  by (simp_all add: reads_def)

text \<open>With nothing pending the next event of the script arrives three calls later.\<close>

lemma typing_wait:
  assumes "pending_events kb = []"
  obtains w1 where "kb_wait typing_kernel kb w =
      (Inr (Timespec (int (length (trace w)) + 3) 0, Some (script ! reads (trace w))), w1)"
    and "reads (trace w1) = Suc (reads (trace w))" and "length (trace w1) = length (trace w) + 3"
    and "fds_ok w1 = fds_ok w"
  using assms
  by (simp add: kb_wait_def read_clock_def consume_timeout_def GetNextEvent_def read_event_def
      typing_kernel_def fill_event_def sizeof_input_event_def fds_ok_def)

lemma typing_clock [simp]: "normal_ts (Timespec n 0)"
  by (simp add: normal_ts_def)

text \<open>A script event that does not end a frame is only recorded.\<close>

lemma typing_partial:
  assumes "pending_events kb = []" and "\<not> is_report (script ! reads (trace w))"
    and "clock \<le> Timespec (int (length (trace w)) + 3) 0"
    and "\<And>w1. reads (trace w1) = Suc (reads (trace w)) \<Longrightarrow> length (trace w1) = length (trace w) + 3 \<Longrightarrow>
      kb_environment typing_kernel mgr rest (Timespec (int (length (trace w)) + 3) 0)
        (kb\<lparr>kb_sm := mt_step (script ! reads (trace w)) (kb_sm kb)\<rparr>) w1"
  shows "kb_environment typing_kernel mgr (([], []) # rest) clock kb w"
proof -
  let ?ev = "script ! reads (trace w)"
  let ?now = "Timespec (int (length (trace w)) + 3) 0"
  obtain w1 where w1: "kb_wait typing_kernel kb w = (Inr (?now, Some ?ev), w1)"
    "reads (trace w1) = Suc (reads (trace w))" "length (trace w1) = length (trace w) + 3"
    by (rule typing_wait [OF assms(1)])
  have none: "completed_frame (Some ?ev) (kb_sm kb) = None" by (rule completed_frame_not_report [OF assms(2)])
  have "consume_event ?now (Some ?ev) [] [] kb = Inr ([], kb\<lparr>kb_sm := mt_step ?ev (kb_sm kb)\<rparr>)"
    using none by (cases rule: consume_event_cases [of "Some ?ev" ?now "[]" "[]" kb]) auto
  then have "kb_react typing_kernel mgr ?now (Some ?ev) [] [] kb w1 =
      (Inr (kb\<lparr>kb_sm := mt_step ?ev (kb_sm kb)\<rparr>), w1)" by (simp add: kb_react_def)
  with w1 assms(3,4) none show ?thesis by (simp add: iteration_ok_def)
qed

lemma Timespec_le [simp]: "Timespec a 0 \<le> Timespec b 0 \<longleftrightarrow> a \<le> b"
  by (simp add: le_to_ns normal_ts_def to_ns_def)

lemma consume_timeout_nonneg: "q \<noteq> [] \<Longrightarrow> 0 \<le> consume_timeout now q"
  by (auto simp: consume_timeout_def Let_def split: list.splits)

lemma typing_timeout:
  assumes "pending_events kb \<noteq> []" and "kb_wait typing_kernel kb w = (Inr (now, ready), w1)"
  shows "now = Timespec (int (length (trace w)) + 3) 0 \<and> ready = None"
proof -
  have g: "GetNextEvent typing_kernel t False v = (Inr x, v') \<Longrightarrow> 0 \<le> t \<Longrightarrow>
      x = None \<and> length (trace v') = Suc (length (trace v))" for t v x v'
    by (auto simp: GetNextEvent_def typing_kernel_def split: if_splits)
  have c: "read_clock typing_kernel v =
      (Inr (Timespec (int (length (trace v)) + 1) 0),
       v\<lparr>trace := trace v @ [(SysClock, typing_kernel (trace v) SysClock)]\<rparr>)" for v
    by (simp add: read_clock_def typing_kernel_def)
  have nn: "0 \<le> consume_timeout (Timespec (int (length (trace w)) + 1) 0) (pending_events kb)"
    by (rule consume_timeout_nonneg [OF assms(1)])
  from assms(2) show ?thesis
    by (auto simp: kb_wait_def c io_bind_eq dest: g [OF _ nn])
qed

lemma typing_frame:
  assumes "reads (trace w) = 4" and "clock \<le> Timespec (int (length (trace w)) + 3) 0"
  shows "kb_environment typing_kernel silent_manager [([5], [5]), ([], [])] clock (sample_kb 30 80) w"
proof -
  let ?now = "Timespec (int (length (trace w)) + 3) 0"
  have ev: "script ! reads (trace w) = syn_report" by (simp add: script_def touch_events_def assms(1))
  obtain w1 where w1: "kb_wait typing_kernel (sample_kb 30 80) w = (Inr (?now, Some syn_report), w1)"
    "reads (trace w1) = 5" "length (trace w1) = length (trace w) + 3"
    by (rule typing_wait [of "sample_kb 30 80" w, unfolded ev])
      (simp_all add: sample_kb_def kb_initial_def assms(1))
  have ok: "iteration_ok clock ?now (Some syn_report) [5] [5] (sample_kb 30 80)"
    using sample_iteration_ok [of ?now 30 80] assms(2) by (simp add: iteration_ok_def)
  have react: "kb_react typing_kernel silent_manager ?now (Some syn_report) [5] [5] (sample_kb 30 80) w1 =
      (Inr (pressed_kb 30 80 ?now), w1)"
    by (simp add: kb_react_def sample_press [of ?now 30 80] EventTriggered_def PlayEffectOfEvent_def
        silent_manager_def io_bind_def)
  have "kb_environment typing_kernel silent_manager [([], [])] ?now (pressed_kb 30 80 ?now) w1"
    using typing_timeout [of "pressed_kb 30 80 ?now" w1] w1(3)
    by (auto simp: pressed_kb_def iteration_ok_def completed_frame_def split: sum.splits prod.splits)
  with w1(1) ok react show ?thesis by simp
qed

lemma length_script: "length script = 5"
  by (simp add: script_def touch_events_def)

lemma typing_environment:
  assumes "reads (trace w) = 0" and "int (length (trace w)) = 6"
  shows "kb_environment typing_kernel silent_manager typing_orders (Timespec 0 0)
    (kb_initial [sample_key 30]) w"
proof -
  let ?kb = "\<lambda>i. (kb_initial [sample_key 30])\<lparr>kb_sm := mt_run (take i script) mt_initial\<rparr>"
  have four: "?kb 4 = sample_kb 30 80"
    by (simp add: sample_kb_def sample_sm_def script_def touch_events_def)
  have "k \<le> 4 \<Longrightarrow> reads (trace v) = 4 - k \<Longrightarrow> clock \<le> Timespec (int (length (trace v)) + 3) 0 \<Longrightarrow>
      kb_environment typing_kernel silent_manager (replicate k ([], []) @ [([5], [5]), ([], [])]) clock
        (?kb (4 - k)) v" for k v clock
  proof (induction k arbitrary: v clock)
    case 0
    then show ?case using typing_frame [of v clock] four by simp
  next
    case (Suc k)
    define i where "i = 4 - Suc k"
    have i: "i < 4" "4 - k = Suc i" "reads (trace v) = i" using Suc.prems by (auto simp: i_def)
    have step: "(?kb i)\<lparr>kb_sm := mt_step (script ! i) (kb_sm (?kb i))\<rparr> = ?kb (Suc i)"
      using i(1) by (simp add: take_Suc_conv_app_nth length_script mt_run_def)
    have nr: "\<not> is_report (script ! i)"
      using i(1) by (auto simp: script_def touch_events_def is_report_def less_Suc_eq numeral_eq_Suc)
    show ?case
      unfolding replicate_Suc append_Cons i_def [symmetric]
    proof (rule typing_partial, unfold i(3) step)
      fix w1 :: proc
      assume "reads (trace w1) = Suc i" "length (trace w1) = length (trace v) + 3"
      then show "kb_environment typing_kernel silent_manager (replicate k ([], []) @ [([5], [5]), ([], [])])
          (Timespec (int (length (trace v)) + 3) 0) (?kb (Suc i)) w1"
        using Suc.IH [of w1 "Timespec (int (length (trace v)) + 3) 0"] Suc.prems(1) i(2) by simp
    qed (use Suc.prems nr in \<open>simp_all add: kb_initial_def\<close>)
  qed
  from this [of 4 w "Timespec 0 0"] assms show ?thesis
    by (simp add: typing_orders_def numeral_eq_Suc kb_initial_def)
qed

definition typing_hw :: hardware_config where
  "typing_hw = (sample_hw 0)\<lparr>left_margin_mm := Fin 0, top_margin_mm := Fin 0\<rparr>"

lemma typing_layout: "keyboard_LoadLayout typing_hw [Inr typing_row] = Inr (True, [sample_key 30])"
  by (simp add: keyboard_LoadLayout_def load_key_def typing_hw_def sample_hw_def typing_row_def
      initialised_def the_or_def isfinite_def key_bounds_def dint_numeral fp_to_int_def int32_def
      Let_def sample_key_def trunc_rat_def)

lemma typing_setup:
  assumes "keyboard_setup typing_kernel path name [sample_key 30] proc_initial = (Inr (), w1)"
  shows "fds_ok w1 \<and> reads (trace w1) = 0 \<and> int (length (trace w1)) = 6"
  using assms
  by (auto simp: keyboard_setup_def OpenSourceDevice_def and_then_def CreateUinputFD_def
      EnableKeyboardEvents_def EnableEventType_def EnableKeyEvent_def FinalizeUinputCreation_def
      typing_kernel_def proc_initial_def sample_key_def fds_ok_def FD_SETSIZE_def Let_def io_bind_def sys_def)

lemma typing_fd: "uinput_fd (snd typing_run) = 4"
  by code_simp

theorem keyboard_process_is_sound_witness:
  "device_writes 4 (trace (snd typing_run)) = [input_ev EV_KEY 30 1, input_ev EV_SYN SYN_REPORT 0] \<and>
   key_enabled 4 30 (trace (snd typing_run))"
proof -
  have clock: "clock_works typing_kernel" by (simp add: clock_works_def typing_kernel_def)
  have fresh: "uinput_fd proc_initial < 0" "source_fd proc_initial < 0" "trace proc_initial = []"
    by (simp_all add: proc_initial_def)
  note sound = keyboard_process_is_sound [OF fresh(1,2) clock typing_layout,
      of "''/dev/halo_keyboard''" "''Halo Keyboard''" "Timespec 0 0" silent_manager typing_orders
        "fst typing_run" "snd typing_run" "device_writes 4 (trace (snd typing_run))"]
  have env: "fds_ok w1 \<and> normal_ts (Timespec 0 0) \<and> kb_environment typing_kernel silent_manager
      typing_orders (Timespec 0 0) (kb_initial [sample_key 30]) w1"
    if "keyboard_setup typing_kernel ''/dev/halo_keyboard'' ''Halo Keyboard'' [sample_key 30]
      proc_initial = (Inr (), w1)" for w1
    using typing_setup [OF that] typing_environment by simp
  have run: "kb_Run typing_kernel silent_manager ''/dev/halo_keyboard'' ''Halo Keyboard'' typing_orders
      (kb_initial [sample_key 30]) proc_initial = (fst typing_run, snd typing_run)"
    by (simp add: typing_run_def)
  from sound [OF env run] typing_writes show ?thesis by (auto simp: fresh(3) typing_fd)
qed

end
