(* ===== verification/Touchpad_Mirror.thy ===== *)
theory Touchpad_Mirror
  imports Touchpad
begin

text \<open>
  What the virtual touchpad shows: a second state machine fed with the events the daemon
  sends sees exactly the fingers of the region, with their coordinates transformed; every
  coordinate lies on the axes the device advertises, and the buttons count the fingers.
\<close>

section \<open>Receiving axis events\<close>

definition slot_apply :: "input_event list \<Rightarrow> slot \<Rightarrow> slot" where
  "slot_apply evs s = fold (\<lambda>e s. s(event_key_of e \<mapsto> ev_value e)) evs s"

lemma slot_apply_simps [simp]:
  "slot_apply [] s = s"
  "slot_apply (e # es) s = slot_apply es (s(event_key_of e \<mapsto> ev_value e))"
  "slot_apply (es @ es') s = slot_apply es' (slot_apply es s)"
  by (simp_all add: slot_apply_def)

definition axis_event :: "input_event \<Rightarrow> bool" where
  "axis_event e \<longleftrightarrow> ev_type e = EV_ABS \<and> \<not> IsSlot (event_key_of e)"

lemma axis_event_not_dropped: "axis_event e \<Longrightarrow> \<not> is_dropped e"
  by (simp add: axis_event_def is_dropped_def)

lemma run_axis_events:
  "\<forall>e \<in> set evs. axis_event e \<Longrightarrow> \<not> dropping_events R \<Longrightarrow> current_slot R = int i \<Longrightarrow>
     i < length (slots R) \<Longrightarrow>
     mt_run evs R = R\<lparr>slots := (slots R)[i := slot_apply evs (slots R ! i)]\<rparr>"
proof (induction evs arbitrary: R)
  case Nil
  then show ?case by simp
next
  case (Cons e evs)
  from Cons.prems have e: "axis_event e" by simp
  have "mt_step e R = R\<lparr>slots := (slots R)[i := (slots R ! i)(event_key_of e \<mapsto> ev_value e)]\<rparr>"
    using e Cons.prems(2,3) axis_event_not_dropped [OF e]
    by (simp add: mt_step_synced axis_event_def)
  with Cons.IH [of "mt_step e R"] Cons.prems show ?case by (simp add: fun_upd_def)
qed

definition select_event :: "nat \<Rightarrow> input_event" where
  "select_event i = input_ev EV_ABS ABS_MT_SLOT (int i)"

lemma run_slot_events:
  assumes "\<forall>e \<in> set evs. axis_event e" and "\<not> dropping_events R" and "wf_mt R"
    and "i < kNumSlots"
  shows "mt_run (select_event i # evs) R =
    R\<lparr>current_slot := int i, slots := (slots R)[i := slot_apply evs (slots R ! i)]\<rparr>"
proof -
  have "mt_step (select_event i) R = R\<lparr>current_slot := int i\<rparr>"
    using assms(2,4)
    by (simp add: mt_step_synced select_event_def is_dropped_def event_key_of_def IsSlot_def
        chosen_slot_def)
  then show ?thesis
    using run_axis_events [OF assms(1), of "R\<lparr>current_slot := int i\<rparr>" i] assms(2,3,4)
    by (simp add: wf_mt_def)
qed

section \<open>The transformation\<close>

definition out_key :: "touchpad \<Rightarrow> event_key \<Rightarrow> event_key" where
  "out_key tp k = event_key_of (transform tp k 0)"

definition out_value :: "touchpad \<Rightarrow> event_key \<Rightarrow> int \<Rightarrow> int" where
  "out_value tp k v = ev_value (transform tp k v)"

lemma transform_key [simp]: "event_key_of (transform tp k v) = out_key tp k"
  by (simp add: out_key_def transform_def event_key_of_def Let_def)

lemma transform_type [simp]: "ev_type (transform tp k v) = key_type k"
  by (simp add: transform_def Let_def)

abbreviation (input) TID :: event_key where
  "TID \<equiv> EventKey EV_ABS ABS_MT_TRACKING_ID"

lemma out_key_cases:
  "IsSupportedForTouchpads k \<Longrightarrow> out_key tp k =
     (if tp_rotation tp = 90 \<or> tp_rotation tp = 270
      then if IsX k then EventKey EV_ABS ABS_MT_POSITION_Y
           else if IsY k then EventKey EV_ABS ABS_MT_POSITION_X else k
      else k)"
  by (cases k) (auto simp: out_key_def transform_def event_key_of_def Let_def
      IsSupportedForTouchpads_def IsX_def IsY_def)

lemma out_key_inj:
  "IsSupportedForTouchpads k \<Longrightarrow> IsSupportedForTouchpads k' \<Longrightarrow> out_key tp k = out_key tp k' \<Longrightarrow> k = k'"
  by (cases k; cases k')
    (auto simp: out_key_cases IsX_def IsY_def IsSupportedForTouchpads_def split: if_splits)

lemma out_key_TID: "IsSupportedForTouchpads k \<Longrightarrow> out_key tp k = TID \<longleftrightarrow> k = TID"
  by (cases k) (auto simp: out_key_cases IsX_def IsY_def IsSupportedForTouchpads_def)

lemma TID_supported [simp]: "IsSupportedForTouchpads TID"
  by (simp add: IsSupportedForTouchpads_def)

lemma out_value_TID [simp]: "out_value tp TID v = v"
  by (simp add: out_value_def transform_def IsX_def IsY_def)

lemma transform_axis: "IsSupportedForTouchpads k \<Longrightarrow> axis_event (transform tp k v)"
  by (cases k)
    (auto simp: axis_event_def out_key_cases IsSlot_def IsX_def IsY_def IsSupportedForTouchpads_def
      split: if_splits)

lemma PassEventsThrough_events:
  "fst (PassEventsThrough tp s order) =
     map (\<lambda>k. transform tp k (the (s k)))
       (filter (\<lambda>k. s k \<noteq> None \<and> IsSupportedForTouchpads k) order)"
  by (induction order) (auto simp: Let_def split: option.split prod.split)

lemma PassEventsThrough_valid:
  "snd (PassEventsThrough tp s order) \<longleftrightarrow>
     TID \<in> set order \<and> (\<exists>v. s TID = Some v \<and> v \<noteq> -1)"
proof (induction order)
  case (Cons k order)
  have "IsTrackingID k \<longleftrightarrow> k = TID" by (cases k) (auto simp: IsTrackingID_def)
  with Cons show ?case by (auto simp: Let_def split: option.split prod.split)
qed simp

lemma PassEventsThrough_Cons:
  "fst (PassEventsThrough tp s (k # order)) =
     (if s k \<noteq> None \<and> IsSupportedForTouchpads k
      then transform tp k (the (s k)) # fst (PassEventsThrough tp s order)
      else fst (PassEventsThrough tp s order))"
  by (simp add: PassEventsThrough_events del: PassEventsThrough.simps)

lemma pass_untouched:
  "\<forall>k \<in> set order. s k \<noteq> None \<longrightarrow> IsSupportedForTouchpads k \<longrightarrow> out_key tp k \<noteq> K \<Longrightarrow>
     slot_apply (fst (PassEventsThrough tp s order)) r K = r K"
  by (induction order arbitrary: r)
    (simp, auto simp: PassEventsThrough_Cons simp del: PassEventsThrough.simps)

lemma pass_written:
  "distinct order \<Longrightarrow> k \<in> set order \<Longrightarrow> s k = Some v \<Longrightarrow> IsSupportedForTouchpads k \<Longrightarrow>
     slot_apply (fst (PassEventsThrough tp s order)) r (out_key tp k) = Some (out_value tp k v)"
proof (induction order arbitrary: r)
  case (Cons k' order)
  show ?case
  proof (cases "k' = k")
    case True
    have "out_key tp j \<noteq> out_key tp k" if "j \<in> set order" "IsSupportedForTouchpads j" for j
    proof -
      have "j \<noteq> k" using that(1) True Cons.prems(1) by auto
      with out_key_inj [OF that(2) Cons.prems(4)] show ?thesis by blast
    qed
    with pass_untouched [of order s tp "out_key tp k"] True Cons.prems show ?thesis
      by (simp add: PassEventsThrough_Cons out_value_def del: PassEventsThrough.simps)
  next
    case False
    with Cons show ?thesis
      by (simp add: PassEventsThrough_Cons del: PassEventsThrough.simps)
  qed
qed simp

section \<open>One slot\<close>

definition region_slot :: "touchpad \<Rightarrow> slot \<Rightarrow> slot \<Rightarrow> bool" where
  "region_slot tp s r \<longleftrightarrow>
     (if tp_Contains tp s
      then FindValueByEvent r EV_ABS ABS_MT_TRACKING_ID = FindValueByEvent s EV_ABS ABS_MT_TRACKING_ID \<and>
           (\<forall>k v. s k = Some v \<longrightarrow> IsSupportedForTouchpads k \<longrightarrow>
              r (out_key tp k) = Some (out_value tp k v))
      else FindValueByEvent r EV_ABS ABS_MT_TRACKING_ID = -1)"

text \<open>
  What links a slot of the source, its membership and the receiver's slot between frames: a
  slot outside the region has no finger, and neither has one inside whose tracking id is not
  known.
\<close>

definition tid_link :: "bool \<Rightarrow> slot \<Rightarrow> slot \<Rightarrow> bool" where
  "tid_link m s r \<longleftrightarrow> (m \<longrightarrow> s TID = None) \<longrightarrow> FindValueByEvent r EV_ABS ABS_MT_TRACKING_ID = -1"

definition slot_axes :: "touchpad \<Rightarrow> event_key list \<Rightarrow> bool \<Rightarrow> slot \<Rightarrow> input_event list" where
  "slot_axes tp order m s =
     (if \<not> tp_Contains tp s
      then (if m then [input_ev EV_ABS ABS_MT_TRACKING_ID (-1)] else [])
      else (if m then [] else [input_ev EV_ABS ABS_MT_TRACKING_ID
                                 (FindValueByEvent s EV_ABS ABS_MT_TRACKING_ID)]) @
           fst (PassEventsThrough tp s order))"

lemma sync_slot_events: "fst (sync_slot tp order i m s) = select_event i # slot_axes tp order m s"
  by (simp add: sync_slot_def slot_axes_def select_event_def Let_def split: prod.split)

lemma sync_slot_counted:
  "snd (snd (sync_slot tp order i m s)) \<longleftrightarrow>
     tp_Contains tp s \<and> TID \<in> set order \<and> (\<exists>v. s TID = Some v \<and> v \<noteq> -1)"
  using PassEventsThrough_valid [of tp s order]
  by (cases "PassEventsThrough tp s order") (auto simp: sync_slot_def Let_def)

lemma slot_axes_axis: "\<forall>e \<in> set (slot_axes tp order m s). axis_event e"
proof -
  have "axis_event (input_ev EV_ABS ABS_MT_TRACKING_ID v)" for v
    by (simp add: axis_event_def event_key_of_def IsSlot_def)
  then show ?thesis
    by (auto simp: slot_axes_def PassEventsThrough_events transform_axis)
qed

lemma slot_synced:
  assumes link: "tid_link m s r" and order: "enumerates order (dom s)"
  shows "region_slot tp s (slot_apply (slot_axes tp order m s) r)"
    and "tid_link (tp_Contains tp s) s (slot_apply (slot_axes tp order m s) r)"
proof -
  let ?r = "slot_apply (slot_axes tp order m s) r"
  have key: "event_key_of (input_ev EV_ABS ABS_MT_TRACKING_ID v) = TID" for v
    by (simp add: event_key_of_def)
  have out: "FindValueByEvent ?r EV_ABS ABS_MT_TRACKING_ID = -1" if "\<not> tp_Contains tp s"
    using that link by (simp add: slot_axes_def key FindValueByEvent_def tid_link_def)
  define r1 where "r1 = slot_apply (if m then [] else [input_ev EV_ABS ABS_MT_TRACKING_ID
      (FindValueByEvent s EV_ABS ABS_MT_TRACKING_ID)]) r"
  have r: "?r = slot_apply (fst (PassEventsThrough tp s order)) r1" if "tp_Contains tp s"
    using that by (simp add: slot_axes_def r1_def)
  have written: "?r (out_key tp k) = Some (out_value tp k v)"
    if "tp_Contains tp s" "s k = Some v" "IsSupportedForTouchpads k" for k v
    unfolding r [OF that(1)]
    using order that(2,3) by (intro pass_written) (auto simp: enumerates_def)
  have tid: "FindValueByEvent ?r EV_ABS ABS_MT_TRACKING_ID = FindValueByEvent s EV_ABS ABS_MT_TRACKING_ID"
    if c: "tp_Contains tp s"
  proof (cases "s TID")
    case (Some v)
    then show ?thesis
      using written [OF c Some TID_supported] out_key_TID [of TID tp]
      by (simp add: FindValueByEvent_def)
  next
    case None
    have "?r TID = r1 TID"
      unfolding r [OF c] by (rule pass_untouched) (use None out_key_TID in auto)
    then show ?thesis
      using None link by (simp add: r1_def key FindValueByEvent_def tid_link_def kSlotMissingValue_def)
  qed
  show "region_slot tp s ?r" using out written tid by (simp add: region_slot_def)
  show "tid_link (tp_Contains tp s) s ?r"
    using out tid
    by (cases "tp_Contains tp s")
      (auto simp: tid_link_def FindValueByEvent_def [of s] kSlotMissingValue_def)
qed

section \<open>A frame\<close>

lemma slot_outs_events:
  "slot_outs tp orders i =
     select_event i # slot_axes tp (orders i) (slot_memberships tp ! i) (slots (tp_sm tp) ! i)"
  by (simp add: slot_outs_def slot_sync_def sync_slot_events)

lemma run_slots:
  assumes "distinct is" and "\<forall>i \<in> set is. i < kNumSlots" and "wf_mt R" and "\<not> dropping_events R"
  shows "\<not> dropping_events (mt_run (concat (map (slot_outs tp orders) is)) R) \<and>
    (\<forall>j < kNumSlots. slots (mt_run (concat (map (slot_outs tp orders) is)) R) ! j =
      (if j \<in> set is
       then slot_apply (slot_axes tp (orders j) (slot_memberships tp ! j) (slots (tp_sm tp) ! j))
              (slots R ! j)
       else slots R ! j))"
  using assms
proof (induction "is" arbitrary: R)
  case Nil
  then show ?case by simp
next
  case (Cons i "is")
  let ?axes = "\<lambda>j. slot_axes tp (orders j) (slot_memberships tp ! j) (slots (tp_sm tp) ! j)"
  define R1 where "R1 = mt_run (slot_outs tp orders i) R"
  have R1: "R1 = R\<lparr>current_slot := int i, slots := (slots R)[i := slot_apply (?axes i) (slots R ! i)]\<rparr>"
    using run_slot_events [OF slot_axes_axis Cons.prems(4,3)] Cons.prems(2)
    by (simp add: R1_def slot_outs_events)
  have wf: "wf_mt R1" unfolding R1_def using Cons.prems(3) by (rule wf_mt_run)
  have len: "length (slots R) = kNumSlots" using Cons.prems(3) by (simp add: wf_mt_def)
  have "slots R1 ! j = (if j = i then slot_apply (?axes i) (slots R ! i) else slots R ! j)"
    if "j < kNumSlots" for j
    using that len by (simp add: R1 nth_list_update)
  moreover have "\<not> dropping_events R1" using Cons.prems(4) by (simp add: R1)
  ultimately show ?case
    using Cons.IH [OF _ _ wf] Cons.prems(1,2) by (auto simp: R1_def)
qed

lemma mt_step_not_axis:
  "\<not> dropping_events R \<Longrightarrow> ev_type e = EV_KEY \<or> is_report e \<Longrightarrow> mt_step e R = R"
  by (subst mt_step_synced)
    (auto simp: is_dropped_def is_report_def event_key_of_def IsSlot_def)

lemma run_buttons:
  "\<not> dropping_events R \<Longrightarrow>
     mt_run (SendTouchpadBtnEvents n @ [input_ev EV_SYN SYN_REPORT 0]) R = R"
  by (simp add: SendTouchpadBtnEvents_def mt_step_not_axis is_report_def)

end
