(* ===== verification/Touchpad_System.thy ===== *)
theory Touchpad_System
  imports Touchpad_Mirror
begin

text \<open>
  The touchpad as a transition system together with a receiver: a second multi-touch state
  machine that reads the events of the virtual device, as the input stack above it does. One
  step is one iteration of the \<open>Consume\<close> loop on an event other than an overrun report.
\<close>

section \<open>Steps\<close>

definition orders_ok :: "(nat \<Rightarrow> event_key list) \<Rightarrow> mt_state \<Rightarrow> bool" where
  "orders_ok orders sm \<longleftrightarrow> (\<forall>i < kNumSlots. enumerates (orders i) (dom (slots sm ! i)))"

inductive tp_step :: "touchpad \<times> mt_state \<Rightarrow> touchpad \<times> mt_state \<Rightarrow> bool" where
  event:
    "\<not> is_dropped ev \<Longrightarrow> orders_ok orders (mt_step ev (tp_sm tp)) \<Longrightarrow>
     tp_consume ev orders tp = Inr (outs, tp') \<Longrightarrow> tp_step (tp, R) (tp', mt_run outs R)"

inductive_cases tp_stepE: "tp_step (tp, R) s"

definition tp_inv :: "touchpad \<times> mt_state \<Rightarrow> bool" where
  "tp_inv s \<longleftrightarrow> (case s of (tp, R) \<Rightarrow>
     wf_tp tp \<and> wf_mt R \<and> \<not> dropping_events (tp_sm tp) \<and> \<not> dropping_events R \<and>
     (\<forall>i < kNumSlots. tid_link (slot_memberships tp ! i) (slots (tp_sm tp) ! i) (slots R ! i)))"

lemma tid_link_set: "tid_link m s r \<Longrightarrow> tid_link m (s(k \<mapsto> v)) r"
  by (auto simp: tid_link_def split: if_splits)

lemma tid_link_step:
  assumes "wf_mt sm" and "\<not> dropping_events sm" and "\<not> is_dropped ev" and "i < kNumSlots"
    and "tid_link m (slots sm ! i) r"
  shows "tid_link m (slots (mt_step ev sm) ! i) r"
  using assms tid_link_set [OF assms(5)]
  by (auto simp: mt_step_synced wf_mt_def nth_list_update)

lemma not_dropping_step: "\<not> dropping_events sm \<Longrightarrow> \<not> is_dropped ev \<Longrightarrow> \<not> dropping_events (mt_step ev sm)"
  by (simp add: mt_step_synced)

text \<open>The receiver after a frame, slot by slot.\<close>

lemma frame_received:
  assumes inv: "tp_inv (tp, R)" and orders: "orders_ok orders (mt_step ev (tp_sm tp))"
    and report: "is_report ev"
  shows "\<exists>outs tp'. tp_consume ev orders tp = Inr (outs, tp') \<and> tp_sm tp' = tp_sm tp \<and>
    \<not> dropping_events (mt_run outs R) \<and>
    (\<forall>i < kNumSlots. region_slot tp (slots (tp_sm tp) ! i) (slots (mt_run outs R) ! i) \<and>
       tid_link (slot_memberships tp' ! i) (slots (tp_sm tp') ! i) (slots (mt_run outs R) ! i))"
proof -
  have tp: "wf_tp tp" "\<not> dropping_events (tp_sm tp)" and R: "wf_mt R" "\<not> dropping_events R"
    and link: "\<And>i. i < kNumSlots \<Longrightarrow>
      tid_link (slot_memberships tp ! i) (slots (tp_sm tp) ! i) (slots R ! i)"
    using inv by (auto simp: tp_inv_def)
  have sm: "mt_step ev (tp_sm tp) = tp_sm tp"
    using mt_step_not_axis [OF tp(2)] report by blast
  define outs where "outs = concat (map (slot_outs tp orders) [0..<kNumSlots])"
  define n where "n = int (length (filter (counted tp orders) [0..<kNumSlots]))"
  have run: "tp_consume ev orders tp =
      Inr (outs @ SendTouchpadBtnEvents n @ [input_ev EV_SYN SYN_REPORT 0],
           tp\<lparr>slot_memberships := members_now tp\<rparr>)"
    using tp_consume_eq [OF tp(1), of ev orders] report tp(2)
    by (simp add: sm outs_def n_def Let_def)
  have got: "\<not> dropping_events (mt_run outs R)"
    "\<And>j. j < kNumSlots \<Longrightarrow> slots (mt_run outs R) ! j =
      slot_apply (slot_axes tp (orders j) (slot_memberships tp ! j) (slots (tp_sm tp) ! j))
        (slots R ! j)"
    using run_slots [of "[0..<kNumSlots]" R tp orders] R by (auto simp: outs_def)
  have end_run: "mt_run (outs @ SendTouchpadBtnEvents n @ [input_ev EV_SYN SYN_REPORT 0]) R = mt_run outs R"
    unfolding mt_run_simps(3) [of outs] using got(1) by (rule run_buttons)
  have order: "enumerates (orders j) (dom (slots (tp_sm tp) ! j))" if "j < kNumSlots" for j
    using orders that by (simp add: orders_ok_def sm)
  show ?thesis
    using run got slot_synced [OF link order]
    by (intro exI [of _ "outs @ SendTouchpadBtnEvents n @ [input_ev EV_SYN SYN_REPORT 0]"]
        exI [of _ "tp\<lparr>slot_memberships := members_now tp\<rparr>"])
      (simp only: end_run, simp add: members_now_def)
qed

lemma tp_inv_step:
  assumes "tp_inv s" and "tp_step s s'" shows "tp_inv s'"
proof -
  obtain tp R where s: "s = (tp, R)" by (cases s)
  from assms(2) show ?thesis unfolding s
  proof (rule tp_stepE)
    fix ev orders outs tp'
    assume s': "s' = (tp', mt_run outs R)" and ev: "\<not> is_dropped ev"
      and orders: "orders_ok orders (mt_step ev (tp_sm tp))"
      and run: "tp_consume ev orders tp = Inr (outs, tp')"
    note inv = assms(1) [unfolded s]
    have tp: "wf_tp tp" "\<not> dropping_events (tp_sm tp)" and R: "wf_mt R"
      using inv by (auto simp: tp_inv_def)
    have wf: "wf_tp tp'" "wf_mt (mt_run outs R)"
      using wf_tp_consume [OF tp(1) run] wf_mt_run [OF R] by auto
    show ?thesis
    proof (cases "is_report ev")
      case True
      from frame_received [OF inv orders True] run have "tp_sm tp' = tp_sm tp"
        "\<not> dropping_events (mt_run outs R)"
        "\<forall>i < kNumSlots. tid_link (slot_memberships tp' ! i) (slots (tp_sm tp') ! i)
           (slots (mt_run outs R) ! i)" by auto
      with wf tp show ?thesis by (simp add: s' tp_inv_def)
    next
      case False
      then have "outs = []" "tp' = tp\<lparr>tp_sm := mt_step ev (tp_sm tp)\<rparr>"
        using run tp_consume_eq [OF tp(1), of ev orders] by (simp_all add: Let_def)
      with wf inv ev show ?thesis
        by (simp add: s' tp_inv_def not_dropping_step)
          (simp add: wf_tp_def tid_link_step)
    qed
  qed
qed

definition tp_start :: "touchpad \<times> mt_state \<Rightarrow> bool" where
  "tp_start s \<longleftrightarrow> (\<exists>x0 x1 y0 y1 r. s = (tp_initial x0 x1 y0 y1 r, mt_initial))"

lemma tp_inv_start: "tp_start s \<Longrightarrow> tp_inv s"
  by (auto simp: tp_start_def tp_inv_def wf_tp_def tp_initial_def mt_initial_def tid_link_def
      FindValueByEvent_def kSlotMissingValue_def wf_mt_def kNumSlots_def)

interpretation tp_sys: invariant_system tp_start tp_step tp_inv
  by unfold_locales (auto intro: tp_inv_start tp_inv_step)

definition tp_reachable :: "touchpad \<times> mt_state \<Rightarrow> bool" where
  "tp_reachable s \<longleftrightarrow> (\<exists>s0. tp_start s0 \<and> tp_step\<^sup>*\<^sup>* s0 s)"

lemma tp_reachable_inv: "tp_reachable s \<Longrightarrow> tp_inv s"
  by (auto simp: tp_reachable_def intro: tp_sys.inv_reachable)

lemma tp_reachable_start: "tp_start s \<Longrightarrow> tp_reachable s"
  unfolding tp_reachable_def by blast

lemma tp_reachable_step: "tp_reachable s \<Longrightarrow> tp_step s s' \<Longrightarrow> tp_reachable s'"
  by (auto simp: tp_reachable_def intro: rtranclp.rtrancl_into_rtrancl)

end
