(* ===== verification/Touchpad_Props.thy ===== *)
theory Touchpad_Props
  imports Touchpad_System
begin

text \<open>
  The properties of the touchpad: it never fails, it mirrors the fingers of its region, its
  coordinates and buttons are right; and what its readers see after an overrun.
\<close>

section \<open>Mirroring\<close>

text \<open>The position on the virtual touchpad of a point of the panel.\<close>

definition rotated :: "touchpad \<Rightarrow> int \<Rightarrow> int \<Rightarrow> int \<times> int" where
  "rotated tp x y =
     (if tp_rotation tp = 90 then (tp_ymax tp - y, x - tp_xmin tp)
      else if tp_rotation tp = 180 then (tp_xmax tp - x, tp_ymax tp - y)
      else if tp_rotation tp = 270 then (y - tp_ymin tp, tp_xmax tp - x)
      else (x - tp_xmin tp, y - tp_ymin tp))"

abbreviation (input) XKEY :: event_key where "XKEY \<equiv> EventKey EV_ABS ABS_MT_POSITION_X"
abbreviation (input) YKEY :: event_key where "YKEY \<equiv> EventKey EV_ABS ABS_MT_POSITION_Y"

lemma contained_position:
  assumes "tp_Contains tp s" and "0 \<le> tp_xmin tp" and "0 \<le> tp_ymin tp"
  shows "s XKEY = Some (finger_x (slot_finger s))" and "s YKEY = Some (finger_y (slot_finger s))"
  using assms
  by (auto simp: tp_Contains_def FindValueByEvent_def kSlotMissingValue_def Let_def
      slot_finger_def split: option.splits if_splits)

lemma region_slot_position:
  assumes "region_slot tp s r" and "tp_Contains tp s" and "0 \<le> tp_xmin tp" and "0 \<le> tp_ymin tp"
  shows "(finger_x (slot_finger r), finger_y (slot_finger r)) =
    rotated tp (finger_x (slot_finger s)) (finger_y (slot_finger s))"
proof -
  let ?x = "finger_x (slot_finger s)" and ?y = "finger_y (slot_finger s)"
  note pos = contained_position [OF assms(2-4)]
  have sup: "IsSupportedForTouchpads XKEY" "IsSupportedForTouchpads YKEY"
    by (simp_all add: IsSupportedForTouchpads_def)
  have "r (out_key tp XKEY) = Some (out_value tp XKEY ?x)"
    "r (out_key tp YKEY) = Some (out_value tp YKEY ?y)"
    using assms(1,2) pos sup by (auto simp: region_slot_def)
  then show ?thesis
    by (auto simp: slot_finger_def FindValueByEvent_def out_key_cases [OF sup(1)]
        out_key_cases [OF sup(2)] IsX_def IsY_def out_value_def transform_def Let_def rotated_def
        split: if_splits)
qed

text \<open>
  A reader in state \<open>R\<close> sees the region of a panel in state \<open>sm\<close>: it has exactly the tracked
  fingers of the region, and their positions are moved to its corner and turned.
\<close>

definition mirrors :: "touchpad \<Rightarrow> mt_state \<Rightarrow> mt_state \<Rightarrow> bool" where
  "mirrors tp sm R \<longleftrightarrow>
    dom (FillSnapshot R) =
      {tid. tid \<noteq> -1 \<and> (\<exists>i < kNumSlots. tp_Contains tp (slots sm ! i) \<and> slot_tid (slots sm ! i) = tid)} \<and>
    (\<forall>i < kNumSlots. tp_Contains tp (slots sm ! i) \<longrightarrow>
       (finger_x (slot_finger (slots R ! i)), finger_y (slot_finger (slots R ! i))) =
       rotated tp (finger_x (slot_finger (slots sm ! i))) (finger_y (slot_finger (slots sm ! i))))"

lemma region_slots_mirror:
  assumes "wf_mt R" and region: "\<And>i. i < kNumSlots \<Longrightarrow> region_slot tp (slots sm ! i) (slots R ! i)"
    and "0 \<le> tp_xmin tp" and "0 \<le> tp_ymin tp"
  shows "mirrors tp sm R"
proof -
  have tid: "slot_tid (slots R ! i) = (if tp_Contains tp (slots sm ! i) then slot_tid (slots sm ! i) else -1)"
    if "i < kNumSlots" for i
    using region [OF that] by (simp add: region_slot_def slot_tid_def)
  have "set (slots R) = (\<lambda>i. slots R ! i) ` {0..<kNumSlots}"
    using assms(1) by (auto simp: wf_mt_def in_set_conv_nth)
  then have "slot_tid ` set (slots R) = (\<lambda>i. slot_tid (slots R ! i)) ` {0..<kNumSlots}"
    by (simp add: image_image)
  then have "dom (FillSnapshot R) =
      {tid. tid \<noteq> -1 \<and> (\<exists>i < kNumSlots. tp_Contains tp (slots sm ! i) \<and> slot_tid (slots sm ! i) = tid)}"
    by (auto simp: dom_FillSnapshot tid split: if_splits)
  then show ?thesis
    unfolding mirrors_def using region_slot_position [OF region _ assms(3,4)] by blast
qed


text \<open>A finger on a region of 100 x 100 units turned by 90 degrees.\<close>

definition sample_tp :: touchpad where
  "sample_tp = (tp_initial 100 200 0 100 90)\<lparr>tp_sm :=
     mt_run [input_ev EV_ABS ABS_MT_TRACKING_ID 7, input_ev EV_ABS ABS_MT_POSITION_X 130,
             input_ev EV_ABS ABS_MT_POSITION_Y 40] mt_initial\<rparr>"

definition sample_order :: "nat \<Rightarrow> event_key list" where
  "sample_order i = (if i = 0 then [YKEY, TID, XKEY] else [])"

lemma sample_tp_sel:
  "tp_xmin sample_tp = 100" "tp_xmax sample_tp = 200" "tp_ymin sample_tp = 0"
  "tp_ymax sample_tp = 100" "tp_rotation sample_tp = 90"
  by (simp_all add: sample_tp_def tp_initial_def)

lemma sample_sm_slots:
  "tp_sm sample_tp = mt_initial\<lparr>slots :=
     (replicate kNumSlots Map.empty)[0 := [TID \<mapsto> 7, XKEY \<mapsto> 130, YKEY \<mapsto> 40]]\<rparr>"
  by (simp add: sample_tp_def mt_step_synced mt_initial_def is_dropped_def event_key_of_def
      IsSlot_def kNumSlots_def numeral_nat)

lemma orders_exist:
  assumes "wf_mt sm" obtains orders where "orders_ok orders sm"
proof -
  have "\<exists>xs. enumerates xs (dom (slots sm ! i))" if "i < kNumSlots" for i
    using assms that by (intro enumerates_exists) (auto simp: wf_mt_def slot_ok_def)
  then show thesis using that unfolding orders_ok_def by metis
qed

lemma tp_step_partial:
  assumes "tp_reachable (tp, R)" and "\<not> is_dropped ev" and "\<not> is_report ev"
  shows "tp_reachable (tp\<lparr>tp_sm := mt_step ev (tp_sm tp)\<rparr>, R)"
proof -
  have inv: "tp_inv (tp, R)" by (rule tp_reachable_inv [OF assms(1)])
  then have wf: "wf_mt (mt_step ev (tp_sm tp))" by (auto simp: tp_inv_def wf_tp_def wf_mt_step)
  obtain orders where "orders_ok orders (mt_step ev (tp_sm tp))" by (rule orders_exist [OF wf])
  moreover have "tp_consume ev orders tp = Inr ([], tp\<lparr>tp_sm := mt_step ev (tp_sm tp)\<rparr>)" for orders
    using tp_consume_eq [of tp ev orders] inv assms(3) by (auto simp: tp_inv_def Let_def)
  ultimately have "tp_step (tp, R) (tp\<lparr>tp_sm := mt_step ev (tp_sm tp)\<rparr>, mt_run [] R)"
    using tp_step.intros [OF assms(2)] by blast
  with assms(1) tp_reachable_step show ?thesis by simp
qed

lemma sample_tp_reachable: "tp_reachable (sample_tp, mt_initial)"
proof -
  have "tp_reachable (tp_initial 100 200 0 100 90, mt_initial)"
    by (rule tp_reachable_start) (unfold tp_start_def, blast)
  from tp_step_partial [OF tp_step_partial [OF tp_step_partial [OF this,
        of "input_ev EV_ABS ABS_MT_TRACKING_ID 7"], of "input_ev EV_ABS ABS_MT_POSITION_X 130"],
      of "input_ev EV_ABS ABS_MT_POSITION_Y 40"]
  show ?thesis by (simp add: is_dropped_def is_report_def sample_tp_def tp_initial_def)
qed

lemma sample_orders_ok: "orders_ok sample_order (mt_step (input_ev EV_SYN SYN_REPORT 0) (tp_sm sample_tp))"
proof -
  have "mt_step (input_ev EV_SYN SYN_REPORT 0) (tp_sm sample_tp) = tp_sm sample_tp"
    by (rule mt_step_not_axis) (simp_all add: sample_sm_slots mt_initial_def is_report_def)
  then show ?thesis
    by (auto simp: orders_ok_def sample_order_def enumerates_def sample_sm_slots nth_list_update)
qed


section \<open>Coordinates\<close>

lemma pass_coordinates:
  assumes "tp_Contains tp s" and "e \<in> set (fst (PassEventsThrough tp s order))"
    and "tp_rotation tp \<in> {0, 90, 180, 270}"
  shows "(ev_code e = ABS_MT_POSITION_X \<longrightarrow> 0 \<le> ev_value e \<and> ev_value e \<le> fst (tp_size tp)) \<and>
    (ev_code e = ABS_MT_POSITION_Y \<longrightarrow> 0 \<le> ev_value e \<and> ev_value e \<le> snd (tp_size tp))"
proof -
  from assms(2) obtain k v where k: "s k = Some v" "IsSupportedForTouchpads k"
    and e: "e = transform tp k v"
    by (auto simp: PassEventsThrough_events)
  have x: "tp_xmin tp \<le> v \<and> v \<le> tp_xmax tp" if "IsX k"
  proof -
    have "k = XKEY" using that by (cases k) (simp add: IsX_def)
    with k(1) assms(1) show ?thesis
      by (auto simp: tp_Contains_def FindValueByEvent_def Let_def split: if_splits)
  qed
  have y: "tp_ymin tp \<le> v \<and> v \<le> tp_ymax tp" if "IsY k"
  proof -
    have "k = YKEY" using that by (cases k) (simp add: IsY_def)
    with k(1) assms(1) show ?thesis
      by (auto simp: tp_Contains_def FindValueByEvent_def Let_def split: if_splits)
  qed
  consider "IsX k" "\<not> IsY k" | "\<not> IsX k" "IsY k" | "\<not> IsX k" "\<not> IsY k"
    by (cases k) (auto simp: IsX_def IsY_def)
  then show ?thesis
  proof cases
    case 1
    with x assms(3) show ?thesis
      by (auto simp: e transform_def tp_size_def Let_def IsX_def)
  next
    case 2
    with y assms(3) show ?thesis
      by (auto simp: e transform_def tp_size_def Let_def IsY_def)
  next
    case 3
    with k(2) show ?thesis
      by (auto simp: e transform_def IsX_def IsY_def IsSupportedForTouchpads_def split: if_splits)
  qed
qed

lemma tp_consume_coordinates:
  assumes "wf_tp tp" and "tp_consume ev orders tp = Inr (outs, tp')" and "e \<in> set outs"
    and "ev_type e = EV_ABS" and "tp_rotation tp \<in> {0, 90, 180, 270}"
  shows "(ev_code e = ABS_MT_POSITION_X \<longrightarrow> 0 \<le> ev_value e \<and> ev_value e \<le> fst (tp_size tp)) \<and>
    (ev_code e = ABS_MT_POSITION_Y \<longrightarrow> 0 \<le> ev_value e \<and> ev_value e \<le> snd (tp_size tp))"
proof -
  define tp1 where "tp1 = tp\<lparr>tp_sm := mt_step ev (tp_sm tp)\<rparr>"
  have "e \<notin> set (SendTouchpadBtnEvents n)" for n
    using assms(4) by (auto simp: SendTouchpadBtnEvents_def)
  moreover have "e \<noteq> input_ev EV_SYN SYN_REPORT 0" using assms(4) by auto
  ultimately obtain i where "e \<in> set (slot_outs tp1 orders i)"
    using assms(2,3) tp_consume_eq [OF assms(1), of ev orders]
    by (auto simp: Let_def tp1_def split: if_splits)
  then consider "e = select_event i" | (tid) v where "e = input_ev EV_ABS ABS_MT_TRACKING_ID v"
    | (pass) "tp_Contains tp1 (slots (tp_sm tp1) ! i)"
        "e \<in> set (fst (PassEventsThrough tp1 (slots (tp_sm tp1) ! i) (orders i)))"
    by (auto simp: slot_outs_events slot_axes_def split: if_splits)
  then show ?thesis
  proof cases
    case pass
    have "tp_size tp1 = tp_size tp" "tp_rotation tp1 = tp_rotation tp"
      by (simp_all add: tp1_def tp_size_def)
    with pass_coordinates [OF pass] assms(5) show ?thesis by simp
  qed (simp_all add: select_event_def)
qed

text \<open>
  C29: every position the touchpad sends lies on the axis it advertises: for every supported
  rotation, in every state and for every event, horizontal values are between 0 and the width
  and vertical ones between 0 and the height that \<open>Run\<close> passes to the kernel.
\<close>

theorem coordinates_stay_on_the_touchpad:
  assumes "wf_tp tp" and "tp_consume ev orders tp = Inr (outs, tp')" and "e \<in> set outs"
    and "ev_type e = EV_ABS" and "tp_rotation tp \<in> {0, 90, 180, 270}"
  shows "(ev_code e = ABS_MT_POSITION_X \<longrightarrow> 0 \<le> ev_value e \<and> ev_value e \<le> fst (tp_size tp)) \<and>
    (ev_code e = ABS_MT_POSITION_Y \<longrightarrow> 0 \<le> ev_value e \<and> ev_value e \<le> snd (tp_size tp))"
  by (rule tp_consume_coordinates [OF assms])

theorem coordinates_stay_on_the_touchpad_witness:
  "\<exists>outs tp'. tp_consume (input_ev EV_SYN SYN_REPORT 0) sample_order sample_tp = Inr (outs, tp') \<and>
     (\<forall>e \<in> set outs. ev_type e = EV_ABS \<and> ev_code e = ABS_MT_POSITION_X \<longrightarrow>
        0 \<le> ev_value e \<and> ev_value e \<le> 100)"
proof -
  have wf: "wf_tp sample_tp" using tp_reachable_inv [OF sample_tp_reachable] by (simp add: tp_inv_def)
  obtain outs tp' where
    r: "tp_consume (input_ev EV_SYN SYN_REPORT 0) sample_order sample_tp = Inr (outs, tp')"
    using tp_consume_total [OF wf] by blast
  from coordinates_stay_on_the_touchpad [OF wf r] have
    "\<forall>e \<in> set outs. ev_type e = EV_ABS \<and> ev_code e = ABS_MT_POSITION_X \<longrightarrow>
        0 \<le> ev_value e \<and> ev_value e \<le> 100"
    by (simp add: sample_tp_sel tp_size_def)
  with r show ?thesis by blast
qed

section \<open>Buttons\<close>

text \<open>The fingers on the touchpad: slots in the region with a tracking id.\<close>

definition touching :: "touchpad \<Rightarrow> nat set" where
  "touching tp = {i. i < kNumSlots \<and> tp_Contains tp (slots (tp_sm tp) ! i) \<and>
                     slot_tid (slots (tp_sm tp) ! i) \<noteq> -1}"

lemma slot_outs_no_key: "filter (\<lambda>e. ev_type e = EV_KEY) (slot_outs tp orders i) = []"
  using slot_axes_axis [of tp "orders i" "slot_memberships tp ! i" "slots (tp_sm tp) ! i"]
  by (auto simp: slot_outs_events select_event_def filter_empty_conv axis_event_def)

lemma touch_count:
  assumes "orders_ok orders (tp_sm tp)"
  shows "length (filter (counted tp orders) [0..<kNumSlots]) = card (touching tp)"
proof -
  have "counted tp orders i \<longleftrightarrow> tp_Contains tp (slots (tp_sm tp) ! i) \<and>
      slot_tid (slots (tp_sm tp) ! i) \<noteq> -1" if "i < kNumSlots" for i
  proof -
    have "set (orders i) = dom (slots (tp_sm tp) ! i)"
      using assms that by (simp add: orders_ok_def enumerates_def)
    then show ?thesis
      by (auto simp: counted_def slot_sync_def sync_slot_counted slot_tid_def FindValueByEvent_def
          kSlotMissingValue_def split: option.splits)
  qed
  then have "set (filter (counted tp orders) [0..<kNumSlots]) = touching tp"
    by (auto simp: touching_def)
  moreover have "distinct (filter (counted tp orders) [0..<kNumSlots])" by simp
  ultimately show ?thesis using distinct_card by metis
qed

text \<open>
  C30: with each frame the touchpad sends exactly one set of button events, after the axes, and
  they count the fingers in the region: \<^verbatim>\<open>BTN_TOUCH\<close> is set iff there is one, and of the tools
  exactly the one for that number is set, none for more than four.
\<close>

theorem buttons_count_the_fingers:
  assumes "wf_tp tp" and "is_report ev" and "\<not> dropping_events (tp_sm tp)"
    and "orders_ok orders (tp_sm tp)"
  shows "\<exists>outs tp'. tp_consume ev orders tp = Inr (outs, tp') \<and>
    filter (\<lambda>e. ev_type e = EV_KEY) outs =
      [input_ev EV_KEY BTN_TOUCH (if touching tp = {} then 0 else 1),
       input_ev EV_KEY BTN_TOOL_FINGER (if card (touching tp) = 1 then 1 else 0),
       input_ev EV_KEY BTN_TOOL_DOUBLETAP (if card (touching tp) = 2 then 1 else 0),
       input_ev EV_KEY BTN_TOOL_TRIPLETAP (if card (touching tp) = 3 then 1 else 0),
       input_ev EV_KEY BTN_TOOL_QUADTAP (if card (touching tp) = 4 then 1 else 0)] \<and>
    last outs = input_ev EV_SYN SYN_REPORT 0"
proof -
  have sm: "mt_step ev (tp_sm tp) = tp_sm tp"
    using mt_step_not_axis [OF assms(3)] assms(2) by blast
  have "filter (\<lambda>e. ev_type e = EV_KEY) (concat (map (slot_outs tp orders) is)) = []" for "is"
    by (induction "is") (simp_all add: slot_outs_no_key)
  moreover have "finite (touching tp)" by (simp add: touching_def)
  then have "filter (counted tp orders) [0..<kNumSlots] = [] \<longleftrightarrow> touching tp = {}"
    using touch_count [OF assms(4)] by (metis card_eq_0_iff length_0_conv)
  ultimately show ?thesis
    using assms(2,3) touch_count [OF assms(4)]
    by (simp add: tp_consume_eq [OF assms(1)] Let_def sm SendTouchpadBtnEvents_def)
qed

theorem buttons_count_the_fingers_witness:
  "\<exists>outs tp'. tp_consume (input_ev EV_SYN SYN_REPORT 0) sample_order sample_tp = Inr (outs, tp') \<and>
     last outs = input_ev EV_SYN SYN_REPORT 0"
proof -
  have wf: "wf_tp sample_tp" using tp_reachable_inv [OF sample_tp_reachable] by (simp add: tp_inv_def)
  have nd: "\<not> dropping_events (tp_sm sample_tp)" by (simp add: sample_sm_slots mt_initial_def)
  have r: "is_report (input_ev EV_SYN SYN_REPORT 0)" by (simp add: is_report_def)
  have "mt_step (input_ev EV_SYN SYN_REPORT 0) (tp_sm sample_tp) = tp_sm sample_tp"
    using mt_step_not_axis [OF nd] r by blast
  with sample_orders_ok buttons_count_the_fingers [OF wf r nd, of sample_order]
  show ?thesis by auto
qed

section \<open>Any run\<close>

fun tp_play :: "(input_event \<times> (nat \<Rightarrow> event_key list)) list \<Rightarrow> touchpad \<Rightarrow>
    exn + input_event list \<times> touchpad" where
  "tp_play [] tp = Inr ([], tp)"
| "tp_play ((ev, orders) # es) tp =
     (case tp_consume ev orders tp of
        Inl e \<Rightarrow> Inl e
      | Inr (outs, tp1) \<Rightarrow>
          (case tp_play es tp1 of Inl e \<Rightarrow> Inl e | Inr (outs', tp2) \<Rightarrow> Inr (outs @ outs', tp2)))"

text \<open>
  Whatever events arrive, overruns included, and in whatever order the entries of the
  slots are visited, the touchpad processes all of them: no slot index is out of range, and
  there are always ten slots and ten memberships.
\<close>

theorem touchpad_never_fails:
  "\<exists>outs tp'. tp_play es (tp_initial x0 x1 y0 y1 r) = Inr (outs, tp') \<and>
     length (slots (tp_sm tp')) = kNumSlots \<and> length (slot_memberships tp') = kNumSlots"
proof -
  have "wf_tp tp \<Longrightarrow> \<exists>outs tp'. tp_play es tp = Inr (outs, tp') \<and> wf_tp tp'" for tp
  proof (induction es arbitrary: tp)
    case Nil
    then show ?case by simp
  next
    case (Cons e es)
    obtain ev orders where e: "e = (ev, orders)" by (cases e)
    obtain outs tp1 where one: "tp_consume ev orders tp = Inr (outs, tp1)"
      using tp_consume_total [OF Cons.prems] by blast
    with Cons.IH [OF wf_tp_consume [OF Cons.prems one]] show ?case by (auto simp: e)
  qed
  from this [OF wf_tp_initial] show ?thesis by (fastforce simp: wf_tp_def wf_mt_def)
qed

section \<open>After an overrun\<close>

lemma frames_without_report: "\<forall>e \<in> set es. \<not> is_report e \<Longrightarrow> mt_frames es sm = []"
  by (induction es arbitrary: sm) (simp_all add: mt_frames_Cons)

text \<open>Events that complete no frame are absorbed.\<close>

lemma tp_play_silent:
  "wf_tp tp \<Longrightarrow> mt_frames es (tp_sm tp) = [] \<Longrightarrow>
     tp_play (map (\<lambda>e. (e, orders)) es) tp = Inr ([], tp\<lparr>tp_sm := mt_run es (tp_sm tp)\<rparr>)"
proof (induction es arbitrary: tp)
  case (Cons e es)
  let ?tp1 = "tp\<lparr>tp_sm := mt_step e (tp_sm tp)\<rparr>"
  have no: "\<not> (is_report e \<and> \<not> dropping_events (tp_sm tp))" "mt_frames es (tp_sm ?tp1) = []"
    using Cons.prems(2) by (auto simp: mt_frames_Cons split: if_splits)
  have "wf_tp ?tp1" using Cons.prems(1) by (simp add: wf_tp_def wf_mt_step)
  moreover have "tp_consume e orders tp = Inr ([], ?tp1)"
    using no(1) by (auto simp: tp_consume_eq [OF Cons.prems(1)] Let_def)
  ultimately show ?case using Cons.IH no(2) by simp
qed simp

text \<open>The tracking id of the receiver's slot after the events of a frame for that slot.\<close>

lemma slot_axes_tid:
  assumes "enumerates order (dom s)" and "\<not> m \<Longrightarrow> slot_tid r = -1"
  shows "slot_tid (slot_apply (slot_axes tp order m s) r) =
    (if tp_Contains tp s then (case s TID of Some v \<Rightarrow> v | None \<Rightarrow> slot_tid r) else -1)"
proof (cases "tp_Contains tp s")
  case False
  with assms(2) show ?thesis
    by (auto simp: slot_axes_def slot_tid_def FindValueByEvent_def event_key_of_def)
next
  case True
  define r1 where "r1 = slot_apply (if m then [] else [input_ev EV_ABS ABS_MT_TRACKING_ID
      (FindValueByEvent s EV_ABS ABS_MT_TRACKING_ID)]) r"
  have r: "slot_apply (slot_axes tp order m s) r = slot_apply (fst (PassEventsThrough tp s order)) r1"
    using True by (simp add: slot_axes_def r1_def)
  show ?thesis
  proof (cases "s TID")
    case (Some v)
    then have "TID \<in> set order" "distinct order" using assms(1) by (auto simp: enumerates_def)
    from pass_written [where k = TID and s = s and tp = tp and r = r1, OF this(2,1) Some] Some True show ?thesis
      using out_key_TID [of TID tp] by (simp add: r slot_tid_def FindValueByEvent_def)
  next
    case None
    have "slot_apply (fst (PassEventsThrough tp s order)) r1 TID = r1 TID"
      by (rule pass_untouched) (use None out_key_TID in auto)
    with None True assms(2) show ?thesis
      by (auto simp: r r1_def slot_tid_def FindValueByEvent_def event_key_of_def kSlotMissingValue_def)
  qed
qed

text \<open>
  C31: a kernel buffer overrun is not passed on. While events are being discarded, and until the
  first frame after that, nothing is written, so a reader of the virtual touchpad keeps every
  finger it had, also those that left in the meantime, although the daemon's own machine has
  forgotten them all. With that frame the reader loses the fingers whose position is not
  reported again; a finger that stayed down and moves in the region keeps its old tracking id
  for the reader, since the panel does not repeat the id, but the buttons do not count it: they
  count only slots whose id has been reported after the overrun.
\<close>

theorem overrun_is_not_passed_on:
  assumes "tp_reachable (tp, R)" and "is_dropped d" and "is_report r" and "is_report r'"
    and "\<forall>e \<in> set lost. \<not> is_report e" and "\<forall>e \<in> set evs. \<not> is_report e \<and> \<not> is_dropped e"
    and sm: "sm = mt_run evs (Reset (tp_sm tp))" and orders: "orders_ok orders sm"
  shows "tp_play (map (\<lambda>e. (e, orders)) (d # lost @ [r] @ evs)) tp = Inr ([], tp\<lparr>tp_sm := sm\<rparr>) \<and>
    (\<exists>outs tp'. tp_consume r' orders (tp\<lparr>tp_sm := sm\<rparr>) = Inr (outs, tp') \<and>
      (\<forall>i < kNumSlots. slot_tid (slots (mt_run outs R) ! i) =
        (if tp_Contains tp (slots sm ! i)
         then (case (slots sm ! i) TID of Some v \<Rightarrow> v | None \<Rightarrow> slot_tid (slots R ! i))
         else -1)) \<and>
      (input_ev EV_KEY BTN_TOUCH 1 \<in> set outs \<longleftrightarrow>
        (\<exists>i < kNumSlots. tp_Contains tp (slots sm ! i) \<and>
           (\<exists>v. (slots sm ! i) TID = Some v \<and> v \<noteq> -1))))"
proof
  have inv: "wf_tp tp" "wf_mt R" "\<not> dropping_events R"
    and link: "i < kNumSlots \<Longrightarrow> \<not> slot_memberships tp ! i \<Longrightarrow> slot_tid (slots R ! i) = -1" for i
    using tp_reachable_inv [OF assms(1)] by (auto simp: tp_inv_def tid_link_def slot_tid_def)
  note res = overrun_resynchronises [OF assms(2,3,5), of "tp_sm tp"]
  have none: "mt_frames (d # lost @ [r] @ evs) (tp_sm tp) = []"
    "mt_run (d # lost @ [r] @ evs) (tp_sm tp) = sm"
    using res frames_without_report [of evs "Reset (tp_sm tp)"] assms(6)
      mt_frames_append [of "d # lost @ [r]" evs "tp_sm tp"] sm by auto
  from tp_play_silent [OF inv(1) none(1), of orders] none(2)
  show "tp_play (map (\<lambda>e. (e, orders)) (d # lost @ [r] @ evs)) tp = Inr ([], tp\<lparr>tp_sm := sm\<rparr>)"
    by simp
  let ?tp = "tp\<lparr>tp_sm := sm\<rparr>"
  have con: "tp_Contains ?tp = tp_Contains tp" by (simp add: tp_Contains_def fun_eq_iff)
  have wf: "wf_tp ?tp" using inv(1) by (simp add: wf_tp_def sm wf_mt_run wf_mt_Reset)
  have nd: "\<not> dropping_events sm" "mt_step r' sm = sm"
  proof -
    have "\<not> dropping_events S \<Longrightarrow> \<forall>e \<in> set evs. \<not> is_dropped e \<Longrightarrow> \<not> dropping_events (mt_run evs S)" for S
      by (induction evs arbitrary: S) (simp_all add: not_dropping_step)
    with assms(6) show "\<not> dropping_events sm" by (simp add: sm)
    with mt_step_not_axis assms(4) show "mt_step r' sm = sm" by blast
  qed
  define outs where "outs = concat (map (slot_outs ?tp orders) [0..<kNumSlots])"
  let ?n = "int (card (touching ?tp))"
  let ?all = "outs @ SendTouchpadBtnEvents ?n @ [input_ev EV_SYN SYN_REPORT 0]"
  have run: "tp_consume r' orders ?tp = Inr (?all, ?tp\<lparr>slot_memberships := members_now ?tp\<rparr>)"
    using tp_consume_eq [OF wf, of r' orders] assms(4) nd touch_count [of orders ?tp] orders
    by (simp add: outs_def Let_def)
  have got: "\<not> dropping_events (mt_run outs R)"
    "\<And>j. j < kNumSlots \<Longrightarrow> slots (mt_run outs R) ! j =
      slot_apply (slot_axes ?tp (orders j) (slot_memberships tp ! j) (slots sm ! j)) (slots R ! j)"
    using run_slots [of "[0..<kNumSlots]" R ?tp orders] inv by (auto simp: outs_def)
  have "mt_run ?all R = mt_run outs R"
    unfolding mt_run_simps(3) [of outs] using got(1) by (rule run_buttons)
  then have tids: "slot_tid (slots (mt_run ?all R) ! i) = (if tp_Contains tp (slots sm ! i)
        then (case (slots sm ! i) TID of Some v \<Rightarrow> v | None \<Rightarrow> slot_tid (slots R ! i)) else -1)"
    if "i < kNumSlots" for i
    using got(2) [OF that] slot_axes_tid [of "orders i" "slots sm ! i" "slot_memberships tp ! i"
        "slots R ! i" ?tp] link [OF that] orders that
    by (simp add: orders_ok_def con)
  have "input_ev EV_KEY BTN_TOUCH 1 \<notin> set (slot_outs ?tp orders i)" for i
    using slot_outs_no_key [of ?tp orders i] by (fastforce simp: filter_empty_conv)
  then have "input_ev EV_KEY BTN_TOUCH 1 \<notin> set outs" by (simp add: outs_def)
  then have "input_ev EV_KEY BTN_TOUCH 1 \<in> set ?all \<longleftrightarrow> touching ?tp \<noteq> {}"
    by (auto simp: SendTouchpadBtnEvents_def touching_def card_gt_0_iff)
  also have "\<dots> \<longleftrightarrow> (\<exists>i < kNumSlots. tp_Contains tp (slots sm ! i) \<and>
      (\<exists>v. (slots sm ! i) TID = Some v \<and> v \<noteq> -1))"
    by (fastforce simp: touching_def con slot_tid_def FindValueByEvent_def kSlotMissingValue_def
        split: option.splits)
  finally show "\<exists>outs tp'. tp_consume r' orders ?tp = Inr (outs, tp') \<and>
      (\<forall>i < kNumSlots. slot_tid (slots (mt_run outs R) ! i) =
        (if tp_Contains tp (slots sm ! i)
         then (case (slots sm ! i) TID of Some v \<Rightarrow> v | None \<Rightarrow> slot_tid (slots R ! i)) else -1)) \<and>
      (input_ev EV_KEY BTN_TOUCH 1 \<in> set outs \<longleftrightarrow>
        (\<exists>i < kNumSlots. tp_Contains tp (slots sm ! i) \<and>
           (\<exists>v. (slots sm ! i) TID = Some v \<and> v \<noteq> -1)))"
    using run tids by blast
qed

text \<open>
  The sample finger is shown, an overrun follows, and the finger moves: the reader still has
  finger 7, and no button is set.
\<close>

definition moved_events :: "input_event list" where
  "moved_events = [input_ev EV_ABS ABS_MT_POSITION_X 150, input_ev EV_ABS ABS_MT_POSITION_Y 20]"

definition moved_order :: "nat \<Rightarrow> event_key list" where
  "moved_order i = (if i = 0 then [XKEY, YKEY] else [])"

theorem overrun_is_not_passed_on_witness:
  "\<exists>tp R outs tp'. slot_tid (slots R ! 0) = 7 \<and>
     tp_play (map (\<lambda>e. (e, moved_order)) ([input_ev EV_SYN SYN_DROPPED 0, input_ev EV_SYN SYN_REPORT 0] @
       moved_events)) tp = Inr ([], tp\<lparr>tp_sm := mt_run moved_events (Reset (tp_sm tp))\<rparr>) \<and>
     tp_consume (input_ev EV_SYN SYN_REPORT 0) moved_order
       (tp\<lparr>tp_sm := mt_run moved_events (Reset (tp_sm tp))\<rparr>) = Inr (outs, tp') \<and>
     slot_tid (slots (mt_run outs R) ! 0) = 7 \<and> input_ev EV_KEY BTN_TOUCH 1 \<notin> set outs"
proof -
  let ?report = "input_ev EV_SYN SYN_REPORT 0" and ?drop = "input_ev EV_SYN SYN_DROPPED 0"
  have inv: "tp_inv (sample_tp, mt_initial)" by (rule tp_reachable_inv [OF sample_tp_reachable])
  obtain o1 tp1 where one: "tp_consume ?report sample_order sample_tp = Inr (o1, tp1)"
    "tp_sm tp1 = tp_sm sample_tp" "region_slot sample_tp (slots (tp_sm sample_tp) ! 0) (slots (mt_run o1 mt_initial) ! 0)"
    using frame_received [OF inv sample_orders_ok] by (auto simp: is_report_def kNumSlots_def)
  have bounds: "tp_Contains tp1 = tp_Contains sample_tp"
    using one(1) tp_consume_eq [of sample_tp ?report sample_order] inv
    by (auto simp: tp_inv_def Let_def tp_Contains_def fun_eq_iff split: if_splits)
  have s0: "slots (tp_sm sample_tp) ! 0 = [TID \<mapsto> 7, XKEY \<mapsto> 130, YKEY \<mapsto> 40]"
    by (simp add: sample_sm_slots kNumSlots_def)
  have tid: "slot_tid (slots (mt_run o1 mt_initial) ! 0) = 7"
    using one(3) by (simp add: s0 region_slot_def tp_Contains_def FindValueByEvent_def sample_tp_sel
        slot_tid_def split: if_splits)
  have reach: "tp_reachable (tp1, mt_run o1 mt_initial)"
    using tp_reachable_step [OF sample_tp_reachable tp_step.intros [OF _ sample_orders_ok one(1)]]
    by (simp add: is_dropped_def)
  let ?sm = "mt_run moved_events (Reset (tp_sm tp1))"
  have sm: "slots ?sm = (replicate kNumSlots Map.empty)[0 := [XKEY \<mapsto> 150, YKEY \<mapsto> 20]]"
    by (simp add: one(2) moved_events_def mt_step_synced is_dropped_def event_key_of_def IsSlot_def
        sample_sm_slots kNumSlots_def numeral_nat)
  have slot: "slots ?sm ! i = (if i = 0 then [XKEY \<mapsto> 150, YKEY \<mapsto> 20] else Map.empty)" if "i < kNumSlots" for i
    using that by (simp add: sm nth_list_update)
  have orders: "orders_ok moved_order ?sm"
    by (auto simp: orders_ok_def moved_order_def enumerates_def slot)
  have in0: "tp_Contains tp1 (slots ?sm ! 0)" "0 < kNumSlots"
    by (simp_all add: bounds slot kNumSlots_def tp_Contains_def FindValueByEvent_def sample_tp_sel)
  have kinds: "is_dropped ?drop" "is_report ?report" "\<forall>e \<in> set []. \<not> is_report e"
    "\<forall>e \<in> set moved_events. \<not> is_report e \<and> \<not> is_dropped e"
    by (simp_all add: is_dropped_def is_report_def moved_events_def)
  note all = overrun_is_not_passed_on [OF reach kinds(1,2,2,3,4) refl orders]
  from all [THEN conjunct2] obtain outs tp' where
    run: "tp_consume ?report moved_order (tp1\<lparr>tp_sm := ?sm\<rparr>) = Inr (outs, tp')"
    and tids: "\<forall>i < kNumSlots. slot_tid (slots (mt_run outs (mt_run o1 mt_initial)) ! i) =
        (if tp_Contains tp1 (slots ?sm ! i)
         then (case (slots ?sm ! i) TID of Some v \<Rightarrow> v | None \<Rightarrow> slot_tid (slots (mt_run o1 mt_initial) ! i))
         else -1)"
    and btn: "input_ev EV_KEY BTN_TOUCH 1 \<in> set outs \<longleftrightarrow>
        (\<exists>i < kNumSlots. tp_Contains tp1 (slots ?sm ! i) \<and> (\<exists>v. (slots ?sm ! i) TID = Some v \<and> v \<noteq> -1))"
    by blast
  have "slot_tid (slots (mt_run outs (mt_run o1 mt_initial)) ! 0) = 7"
    using tids [rule_format, OF in0(2)] in0 tid by (simp add: slot)
  moreover have "(slots ?sm ! i) TID = None" if "i < kNumSlots" for i
    using slot [OF that] by simp
  then have "input_ev EV_KEY BTN_TOUCH 1 \<notin> set outs" using btn by auto
  moreover from all [THEN conjunct1]
  have "tp_play (map (\<lambda>e. (e, moved_order)) ([?drop, ?report] @ moved_events)) tp1 = Inr ([], tp1\<lparr>tp_sm := ?sm\<rparr>)"
    by (simp only: append_Cons append_Nil)
  ultimately have "slot_tid (slots (mt_run outs (mt_run o1 mt_initial)) ! 0) = 7 \<and>
      tp_play (map (\<lambda>e. (e, moved_order)) ([?drop, ?report] @ moved_events)) tp1 = Inr ([], tp1\<lparr>tp_sm := ?sm\<rparr>) \<and>
      input_ev EV_KEY BTN_TOUCH 1 \<notin> set outs" by blast
  with run tid show ?thesis by blast
qed

end
