(* ===== verification/Uinput_Props.thy ===== *)
theory Uinput_Props
  imports Uinput_Device
begin

text \<open>
  What \<open>CopyABSOutputEvents\<close> tells the kernel about the axes of the virtual touchpad.
\<close>

text \<open>The axis set-ups the kernel accepted among some calls.\<close>

definition axis_of :: "syscall \<times> sysret \<Rightarrow> (int \<times> absinfo) option" where
  "axis_of x = (case x of (SysIoctl _ (UI_ABS_SETUP a), r) \<Rightarrow> if ret r = 0 then Some (axis_code a, axis_info a) else None
                | _ \<Rightarrow> None)"

definition axes_of :: "trace \<Rightarrow> (int \<times> absinfo) list" where
  "axes_of tr = List.map_filter axis_of tr"

lemma axes_of_simps [simp]:
  "axes_of [] = []"
  "axes_of (x # tr) = (case axis_of x of None \<Rightarrow> axes_of tr | Some a \<Rightarrow> a # axes_of tr)"
  "axes_of (tr @ tr') = axes_of tr @ axes_of tr'"
  by (simp_all add: axes_of_def List.map_filter_def split: option.split)

definition axis_ok :: "int \<Rightarrow> int \<Rightarrow> int \<Rightarrow> int \<Rightarrow> int \<times> absinfo \<Rightarrow> bool" where
  "axis_ok width height xres yres x \<longleftrightarrow>
     (case x of (c, a) \<Rightarrow>
       (c \<in> {ABS_X, ABS_MT_POSITION_X} \<longrightarrow>
          abs_minimum a = 0 \<and> abs_maximum a = width \<and> abs_resolution a = xres) \<and>
       (c \<in> {ABS_Y, ABS_MT_POSITION_Y} \<longrightarrow>
          abs_minimum a = 0 \<and> abs_maximum a = height \<and> abs_resolution a = yres))"

lemma axis_setup_ok: "axis_ok width height xres yres (c, axis_setup width height xres yres c a)"
  by (auto simp: axis_ok_def axis_setup_def)

lemma EnableAbsEvent_run:
  "EnableAbsEvent K c w =
     (let call = SysIoctl (uinput_fd w) (UI_SET_ABSBIT c); r = K (trace w) call
      in (Inr (ret r = 0), w\<lparr>trace := trace w @ [(call, r)]\<rparr>))"
  by (simp add: EnableAbsEvent_def Let_def)

lemma copy_axes_axes:
  "copy_axes K src width height xres yres codes cs w = (Inr True, w') \<Longrightarrow>
     \<exists>ext. w' = w\<lparr>trace := trace w @ ext\<rparr> \<and>
       map fst (axes_of ext) = filter (\<lambda>c. IsEventSupported c (Some codes)) cs \<and>
       (\<forall>x \<in> set (axes_of ext). axis_ok width height xres yres x)"
proof (induction cs arbitrary: w)
  case Nil
  then show ?case by (intro exI [of _ "[]"]) simp
next
  case (Cons c cs)
  show ?case
  proof (cases "IsEventSupported c (Some codes)")
    case False
    with Cons show ?thesis by simp
  next
    case True
    let ?c1 = "SysIoctl (uinput_fd w) (UI_SET_ABSBIT c)"
    let ?r1 = "K (trace w) ?c1"
    let ?t1 = "trace w @ [(?c1, ?r1)]"
    let ?c2 = "SysIoctl src (EVIOCGABS c)"
    let ?r2 = "K ?t1 ?c2"
    let ?t2 = "?t1 @ [(?c2, ?r2)]"
    let ?a = "axis_setup width height xres yres c (fill_absinfo (payload ?r2))"
    let ?c3 = "SysIoctl (uinput_fd w) (UI_ABS_SETUP \<lparr>axis_code = c, axis_info = ?a\<rparr>)"
    let ?r3 = "K ?t2 ?c3"
    let ?w3 = "w\<lparr>trace := ?t2 @ [(?c3, ?r3)]\<rparr>"
    have r3: "ret ?r3 = 0"
      and rest: "copy_axes K src width height xres yres codes cs ?w3 = (Inr True, w')"
      using Cons.prems True by (auto simp: io_bind_def [of "EnableAbsEvent K c"] EnableAbsEvent_run Let_def
          split: if_splits)
    from Cons.IH [OF rest] obtain ext where
      "w' = ?w3\<lparr>trace := trace ?w3 @ ext\<rparr>"
      "map fst (axes_of ext) = filter (\<lambda>c. IsEventSupported c (Some codes)) cs"
      "\<forall>x \<in> set (axes_of ext). axis_ok width height xres yres x" by blast
    with True r3 axis_setup_ok show ?thesis
      by (intro exI [of _ "[(?c1, ?r1), (?c2, ?r2), (?c3, ?r3)] @ ext"]) (simp add: axis_of_def)
  qed
qed

lemma CopyABS_axes:
  assumes "CopyABSOutputEvents K src width height xres yres w = (Inr True, w')"
  shows "\<exists>ext codes. w' = w\<lparr>trace := trace w @ ext\<rparr> \<and>
    (\<exists>r. (SysIoctl src (EVIOCGBIT EV_ABS 8), r) \<in> set ext \<and> 0 \<le> ret r \<and>
         codes = fill_buffer 8 (payload r)) \<and>
    map fst (axes_of ext) = filter (\<lambda>c. IsEventSupported c (Some codes)) (map int [0..<64]) \<and>
    (\<forall>x \<in> set (axes_of ext). axis_ok width height xres yres x)"
proof -
  let ?c1 = "SysIoctl src (EVIOCGBIT 0 4)"
  let ?r1 = "K (trace w) ?c1"
  let ?t1 = "trace w @ [(?c1, ?r1)]"
  let ?c2 = "SysIoctl (uinput_fd w) (UI_SET_EVBIT EV_ABS)"
  let ?r2 = "K ?t1 ?c2"
  let ?t2 = "?t1 @ [(?c2, ?r2)]"
  let ?c3 = "SysIoctl src (EVIOCGBIT EV_ABS 8)"
  let ?r3 = "K ?t2 ?c3"
  let ?w3 = "w\<lparr>trace := ?t2 @ [(?c3, ?r3)]\<rparr>"
  have bytes: "BytesForBits 32 = 4" "BytesForBits 64 = 8"
    by (simp_all add: BytesForBits_def)
  have r3: "0 \<le> ret ?r3"
    and rest: "copy_axes K src width height xres yres (fill_buffer 8 (payload ?r3)) abs_codes ?w3 = (Inr True, w')"
    using assms
    by (auto simp: CopyABSOutputEvents_def bytes Let_def EnableEventType_def
        io_bind_def [of "EnableEventType K EV_ABS"] split: if_splits)
  from copy_axes_axes [OF rest] obtain ext where
    "w' = ?w3\<lparr>trace := trace ?w3 @ ext\<rparr>"
    "map fst (axes_of ext) = filter (\<lambda>c. IsEventSupported c (Some (fill_buffer 8 (payload ?r3)))) abs_codes"
    "\<forall>x \<in> set (axes_of ext). axis_ok width height xres yres x" by blast
  with r3 show ?thesis
    by (intro exI [of _ "[(?c1, ?r1), (?c2, ?r2), (?c3, ?r3)] @ ext"]
        exI [of _ "fill_buffer 8 (payload ?r3)"])
      (auto simp: axis_of_def abs_codes_def)
qed

text \<open>
  C32: when cloning the axes succeeds, exactly the axes the source reports in its bit field
  have been set up on the virtual device, once each and in order, with the kernel's consent;
  the X axes range from 0 to the given width with the given resolution, the Y axes from 0 to
  the height; and nothing but the trace has changed.
\<close>

theorem axes_are_cloned:
  assumes "CopyABSOutputEvents K src width height xres yres w = (Inr True, w')"
  shows "\<exists>ext codes. w' = w\<lparr>trace := trace w @ ext\<rparr> \<and>
    (\<exists>r. (SysIoctl src (EVIOCGBIT EV_ABS 8), r) \<in> set ext \<and> 0 \<le> ret r \<and>
         codes = fill_buffer 8 (payload r)) \<and>
    map fst (axes_of ext) = filter (\<lambda>c. IsEventSupported c (Some codes)) (map int [0..<64]) \<and>
    (\<forall>x \<in> set (axes_of ext). axis_ok width height xres yres x)"
  by (rule CopyABS_axes [OF assms])

text \<open>A source with the two multi-touch position axes and the tracking id.\<close>

definition panel_kernel :: kernel where
  "panel_kernel tr c =
     \<lparr>ret = 0, err = 0,
      payload = (case c of SysIoctl _ (EVIOCGBIT t _) \<Rightarrow>
                     Bits (if t = 0 then [0b1001, 0, 0, 0]
                           else [0, 0, 0, 0, 0, 0, 0b01100000, 0b10])
                 | _ \<Rightarrow> NoData)\<rparr>"

theorem axes_are_cloned_witness:
  "case CopyABSOutputEvents panel_kernel 4 100 80 10 10 (proc_initial\<lparr>uinput_fd := 3\<rparr>) of
     (_, w') \<Rightarrow> (\<forall>x \<in> set (axes_of (trace w')). axis_ok 100 80 10 10 x)"
proof -
  let ?w = "proc_initial\<lparr>uinput_fd := 3\<rparr>"
  obtain r w' where run: "CopyABSOutputEvents panel_kernel 4 100 80 10 10 ?w = (r, w')" by fastforce
  have "fst (CopyABSOutputEvents panel_kernel 4 100 80 10 10 ?w) = Inr True" by code_simp
  with run axes_are_cloned [of panel_kernel 4 100 80 10 10 ?w w'] show ?thesis
    by (auto simp: proc_initial_def)
qed

end
