(* ===== verification/Touchpad_Worker.thy ===== *)
theory Touchpad_Worker
  imports Touchpad_Props Config_Props Uinput_Props Device_Trace
begin

text \<open>
  \<^verbatim>\<open>FakeTouchpad::Run\<close> and \<open>Consume\<close> with their system calls, and what the virtual touchpad
  accepts from the process in the end.
\<close>

section \<open>Setting up\<close>

text \<open>A chain of conditions: the next one is evaluated only if the one before it holds.\<close>

fun enable_buttons :: "kernel \<Rightarrow> int list \<Rightarrow> bool io" where
  "enable_buttons K [] = io_return True"
| "enable_buttons K (c # cs) =
     io_bind (EnableKeyEvent K c) (\<lambda>ok. if \<not> ok then io_return False else enable_buttons K cs)"

definition touchpad_buttons :: "int list" where
  "touchpad_buttons = [BTN_TOUCH, BTN_TOOL_FINGER, BTN_TOOL_DOUBLETAP, BTN_TOOL_TRIPLETAP, BTN_TOOL_QUADTAP]"

definition EnableTouchpadButtons :: "kernel \<Rightarrow> bool io" where
  "EnableTouchpadButtons K =
     io_bind (EnableEventType K EV_KEY)
       (\<lambda>ok. if \<not> ok then io_return False else enable_buttons K touchpad_buttons)"

text \<open>
  \<^verbatim>\<open>std::lround\<close> of an \<^verbatim>\<open>int\<close> divided by a \<^verbatim>\<open>double\<close>, stored in an \<^verbatim>\<open>int\<close>. The result is
  unspecified when it does not fit a \<^verbatim>\<open>long\<close>.
\<close>

definition axis_resolution :: "int \<Rightarrow> fp \<Rightarrow> exn + int" where
  "axis_resolution n mm =
     (case fp_div double_format (fp_of_int double_format n) mm of
        Fin x \<Rightarrow> if - (2 ^ 63) \<le> lround x \<and> lround x < 2 ^ 63 then Inr (to_int32 (lround x))
                 else Inl (UndefinedBehaviour ''lround'')
      | _ \<Rightarrow> Inl (UndefinedBehaviour ''lround''))"

definition io_lift :: "exn + 'a \<Rightarrow> 'a io" where
  "io_lift r = (case r of Inl e \<Rightarrow> io_throw e | Inr x \<Rightarrow> io_return x)"

definition check :: "bool io \<Rightarrow> string \<Rightarrow> unit io" where
  "check m msg = io_bind m (\<lambda>ok. if ok then io_return () else io_throw (RuntimeError msg))"

text \<open>The width and height are differences of two \<^verbatim>\<open>int\<close>s, which must not overflow.\<close>

definition checked_size :: "touchpad \<Rightarrow> exn + int \<times> int" where
  "checked_size tp =
     (if int32 (fst (tp_size tp)) \<and> int32 (snd (tp_size tp)) then Inr (tp_size tp)
      else Inl (UndefinedBehaviour ''signed overflow''))"

text \<open>
  A region can load and still be too wide for \<open>Run\<close>: the loader accepts one from -200 to 200
  kilometres, its bounds fit the \<^verbatim>\<open>int\<close> members, and the difference of the two does not.
\<close>

lemma wide_region_overflows:
  "touchpad_LoadLayout (sample_hw 0) (region_of (-200000000) 0 200000000 10) =
     Inr (Some (tp_initial (-1999999990) 2000000010 20 120 0, Fin 400000000, Fin 10)) \<and>
   checked_size (tp_initial (-1999999990) 2000000010 20 120 0) =
     Inl (UndefinedBehaviour ''signed overflow'')"
proof
  have neg: "fp_of_int double_format (-n) = Fin (- of_int n)" "fp_of_rat double_format (- of_int n) = Fin (- of_int n)"
    if "0 \<le> n" "n < 2 ^ 31" for n :: int
    using that fp_of_rat_dyadic [of "-n" 0] by (simp_all add: fp_of_int_def)
  note neg = neg [of 199999999, simplified] neg [of 200000000, simplified] neg [of 1999999990, simplified]
  have tr: "trunc_rat (- numeral k) = - numeral k" for k by (simp add: trunc_rat_def)
  show "touchpad_LoadLayout (sample_hw 0) (region_of (-200000000) 0 200000000 10) =
     Inr (Some (tp_initial (-1999999990) 2000000010 20 120 0, Fin 400000000, Fin 10))"
    by (simp add: touchpad_LoadLayout_def set_region_def region_of_def sample_hw_def initialised_def isfinite_def
        region_bounds_def scaled_def dint_numeral fp_to_int_def int32_def fp_sub_def neg tr Let_def)
qed (simp add: checked_size_def tp_size_def tp_initial_def int32_def)

definition touchpad_setup :: "kernel \<Rightarrow> string \<Rightarrow> string \<Rightarrow> touchpad \<Rightarrow> fp \<Rightarrow> fp \<Rightarrow> unit io" where
  "touchpad_setup K source_device_path touchpad_device_name tp w_mm h_mm =
     io_bind (check (OpenSourceDevice K source_device_path) ''failed to open Halo touchpad input device'') (\<lambda>_.
     io_bind (check (CreateUinputFD K) ''failed to open uinput for touchpad'') (\<lambda>_.
     io_bind (check (EnableTouchpadButtons K) ''failed to enable virtual touchpad buttons'') (\<lambda>_.
     io_bind (io_lift (checked_size tp)) (\<lambda>(w, h).
     io_bind (io_lift (axis_resolution w w_mm)) (\<lambda>xres.
     io_bind (io_lift (axis_resolution h h_mm)) (\<lambda>yres.
     io_bind (\<lambda>s. check (CopyABSOutputEvents K (source_fd s) w h xres yres)
                    ''failed to configure virtual touchpad axes'' s) (\<lambda>_.
     check (FinalizeUinputCreation K touchpad_device_name) ''failed to create virtual touchpad device'')))))))"

section \<open>The loop\<close>

definition tp_iteration :: "kernel \<Rightarrow> (nat \<Rightarrow> event_key list) \<Rightarrow> touchpad \<Rightarrow> touchpad io" where
  "tp_iteration K orders tp =
     io_bind (GetNextEvent K kNoTimeout False) (\<lambda>ready. case ready of
         None \<Rightarrow> io_return tp
       | Some ev \<Rightarrow>
           (case tp_consume ev orders tp of
              Inl e \<Rightarrow> io_throw e
            | Inr (outs, tp') \<Rightarrow> io_bind (SendEvents K outs) (\<lambda>_. io_return tp')))"

fun touchpad_Consume :: "kernel \<Rightarrow> (nat \<Rightarrow> event_key list) list \<Rightarrow> touchpad \<Rightarrow> touchpad io" where
  "touchpad_Consume K [] tp = io_return tp"
| "touchpad_Consume K (orders # rest) tp =
     io_bind (tp_iteration K orders tp) (\<lambda>tp'. touchpad_Consume K rest tp')"

definition touchpad_Run ::
  "kernel \<Rightarrow> string \<Rightarrow> string \<Rightarrow> (nat \<Rightarrow> event_key list) list \<Rightarrow> touchpad \<Rightarrow> fp \<Rightarrow> fp \<Rightarrow> touchpad io" where
  "touchpad_Run K source_device_path touchpad_device_name all_orders tp w_mm h_mm =
     io_bind (touchpad_setup K source_device_path touchpad_device_name tp w_mm h_mm)
       (\<lambda>_. touchpad_Consume K all_orders tp)"

section \<open>What the loop writes\<close>

lemma SendEvents_run:
  "SendEvents K es w = (r, w') \<Longrightarrow>
   \<exists>n ext. w' = w\<lparr>trace := trace w @ ext\<rparr> \<and>
     device_writes (uinput_fd w) ext =
       map (\<lambda>e. input_ev (to_u16 (ev_type e)) (to_u16 (ev_code e)) (ev_value e)) (take n es) \<and>
     (r = Inr () \<and> n = length es \<or> (\<exists>e. r = Inl e \<and> kernel_error e))"
proof (induction es arbitrary: w)
  case Nil
  then show ?case by (intro exI [of _ 0] exI [of _ "[]"]) auto
next
  case (Cons e es)
  let ?e = "input_ev (to_u16 (ev_type e)) (to_u16 (ev_code e)) (ev_value e)"
  let ?x = "(SysWrite (uinput_fd w) ?e, K (trace w) (SysWrite (uinput_fd w) ?e))"
  let ?w1 = "w\<lparr>trace := trace w @ [?x]\<rparr>"
  show ?case
  proof (cases "ret (snd ?x) = sizeof_input_event")
    case True
    then have "SendEvent K (ev_type e) (ev_code e) (ev_value e) w = (Inr (), ?w1)"
      by (simp add: SendEvent_run Let_def)
    with Cons.prems have "SendEvents K es ?w1 = (r, w')" by simp
    from Cons.IH [OF this] obtain n ext where "w' = w\<lparr>trace := trace w @ [?x] @ ext\<rparr>"
      "device_writes (uinput_fd w) ext =
         map (\<lambda>e. input_ev (to_u16 (ev_type e)) (to_u16 (ev_code e)) (ev_value e)) (take n es)"
      "r = Inr () \<and> n = length es \<or> (\<exists>e. r = Inl e \<and> kernel_error e)" by auto
    with True show ?thesis by (intro exI [of _ "Suc n"] exI [of _ "[?x] @ ext"]) simp
  next
    case False
    then obtain x where "SendEvent K (ev_type e) (ev_code e) (ev_value e) w = (Inl x, ?w1)" "kernel_error x"
      by (cases "ret (snd ?x) < 0") (simp_all add: SendEvent_run Let_def)
    with Cons.prems False show ?thesis by (intro exI [of _ 0] exI [of _ "[?x]"]) auto
  qed
qed

text \<open>
  The contract of an endless loop: from a good state every iteration only appends to the trace,
  what its device accepts is allowed, and it ends in a good state or with a kernel error. Then
  so does any number of iterations.
\<close>

locale device_loop =
  fixes iterate :: "'o \<Rightarrow> 's \<Rightarrow> 's io"
    and loop :: "'o list \<Rightarrow> 's \<Rightarrow> 's io"
    and good :: "'s \<Rightarrow> bool"
    and allowed :: "input_event \<Rightarrow> bool"
  assumes iteration: "good s \<Longrightarrow> 0 \<le> source_fd w \<Longrightarrow> iterate x s w = (r, w') \<Longrightarrow>
      \<exists>ext. w' = w\<lparr>trace := trace w @ ext\<rparr> \<and> list_all allowed (device_writes (uinput_fd w) ext) \<and>
        (case r of Inl e \<Rightarrow> kernel_error e | Inr s' \<Rightarrow> good s')"
    and loop_Nil: "loop [] s = io_return s"
    and loop_Cons: "loop (x # xs) s = io_bind (iterate x s) (loop xs)"
begin

lemma loop_run:
  "good s \<Longrightarrow> 0 \<le> source_fd w \<Longrightarrow> loop xs s w = (r, w') \<Longrightarrow>
   \<exists>ext. w' = w\<lparr>trace := trace w @ ext\<rparr> \<and> list_all allowed (device_writes (uinput_fd w) ext) \<and>
     (case r of Inl e \<Rightarrow> kernel_error e | Inr s' \<Rightarrow> good s')"
proof (induction xs arbitrary: s w)
  case Nil
  then show ?case by (intro exI [of _ "[]"]) (auto simp: loop_Nil)
next
  case (Cons x xs)
  obtain r1 w1 where one: "iterate x s w = (r1, w1)" by fastforce
  obtain e1 where e1: "w1 = w\<lparr>trace := trace w @ e1\<rparr>" "list_all allowed (device_writes (uinput_fd w) e1)"
    "case r1 of Inl e \<Rightarrow> kernel_error e | Inr s' \<Rightarrow> good s'"
    using iteration [OF Cons.prems(1,2) one] by blast
  show ?case
  proof (cases r1)
    case (Inl e)
    with Cons.prems(3) one e1 show ?thesis by (intro exI [of _ e1]) (auto simp: loop_Cons)
  next
    case (Inr s1)
    with Cons.prems(3) one have "loop xs s1 w1 = (r, w')" by (simp add: loop_Cons)
    from Cons.IH [OF _ _ this] Inr e1 Cons.prems(2) obtain e2 where
      "w' = w\<lparr>trace := trace w @ e1 @ e2\<rparr>" "list_all allowed (device_writes (uinput_fd w) e2)"
      "case r of Inl e \<Rightarrow> kernel_error e | Inr s' \<Rightarrow> good s'" by auto
    with e1(2) show ?thesis by (intro exI [of _ "e1 @ e2"]) simp
  qed
qed

end

text \<open>
  The events a touchpad of a given size may send: reports, its buttons, and absolute events
  with positions on its axes.
\<close>

definition touchpad_event :: "int \<Rightarrow> int \<Rightarrow> input_event \<Rightarrow> bool" where
  "touchpad_event w h e \<longleftrightarrow>
     e = input_ev EV_SYN SYN_REPORT 0 \<or>
     (ev_type e = EV_KEY \<and> ev_code e \<in> set touchpad_buttons \<and> ev_value e \<in> {0, 1}) \<or>
     (ev_type e = EV_ABS \<and> (ev_code e = ABS_MT_POSITION_X \<longrightarrow> 0 \<le> ev_value e \<and> ev_value e \<le> w) \<and>
      (ev_code e = ABS_MT_POSITION_Y \<longrightarrow> 0 \<le> ev_value e \<and> ev_value e \<le> h))"

definition same_region :: "touchpad \<Rightarrow> touchpad \<Rightarrow> bool" where
  "same_region tp0 tp \<longleftrightarrow> tp_xmin tp = tp_xmin tp0 \<and> tp_xmax tp = tp_xmax tp0 \<and>
     tp_ymin tp = tp_ymin tp0 \<and> tp_ymax tp = tp_ymax tp0 \<and> tp_rotation tp = tp_rotation tp0"

lemma same_region_size: "same_region tp0 tp \<Longrightarrow> tp_size tp = tp_size tp0"
  by (simp add: same_region_def tp_size_def)

lemma consume_same_region:
  "wf_tp tp \<Longrightarrow> tp_consume ev orders tp = Inr (outs, tp') \<Longrightarrow> same_region tp tp'"
  by (auto simp: tp_consume_eq Let_def same_region_def split: if_splits)

lemma slot_axes_kinds:
  assumes "e \<in> set (slot_outs tp orders i)"
  shows "ev_type e = EV_ABS \<and> to_u16 (ev_code e) = ev_code e"
proof -
  have "IsSupportedForTouchpads k \<Longrightarrow> ev_type (transform tp k v) = EV_ABS \<and>
      to_u16 (ev_code (transform tp k v)) = ev_code (transform tp k v)" for k v
    by (auto simp: transform_def IsSupportedForTouchpads_def IsX_def IsY_def Let_def to_u16_id split: if_splits)
  with assms show ?thesis
    by (auto simp: slot_outs_events select_event_def slot_axes_def PassEventsThrough_events to_u16_id
        split: if_splits)
qed

lemma consume_allowed:
  assumes "wf_tp tp" and "tp_consume ev orders tp = Inr (outs, tp')" and "e \<in> set outs"
    and "tp_rotation tp \<in> {0, 90, 180, 270}"
  shows "touchpad_event (fst (tp_size tp)) (snd (tp_size tp))
           (input_ev (to_u16 (ev_type e)) (to_u16 (ev_code e)) (ev_value e))"
proof -
  define tp1 where "tp1 = tp\<lparr>tp_sm := mt_step ev (tp_sm tp)\<rparr>"
  from assms(2,3) tp_consume_eq [OF assms(1), of ev orders]
  consider (axis) i where "e \<in> set (slot_outs tp1 orders i)"
    | (button) n where "e \<in> set (SendTouchpadBtnEvents n)" | (report) "e = input_ev EV_SYN SYN_REPORT 0"
    by (auto simp: Let_def tp1_def split: if_splits)
  then show ?thesis
  proof cases
    case axis
    from slot_axes_kinds [OF this] have k: "ev_type e = EV_ABS" "to_u16 (ev_code e) = ev_code e" by auto
    from tp_consume_coordinates [OF assms(1-3) k(1) assms(4)] k show ?thesis
      by (simp add: touchpad_event_def to_u16_id)
  next
    case button
    have "list_all (\<lambda>e. ev_type e = EV_KEY \<and> ev_code e \<in> set touchpad_buttons \<and> ev_value e \<in> {0, 1})
        (SendTouchpadBtnEvents n)"
      by (simp add: SendTouchpadBtnEvents_def touchpad_buttons_def)
    with button have e: "ev_type e = EV_KEY" "ev_code e \<in> set touchpad_buttons" "ev_value e \<in> {0, 1}"
      by (auto simp: list_all_iff)
    then have "to_u16 (ev_code e) = ev_code e" by (auto simp: touchpad_buttons_def to_u16_id)
    with e show ?thesis by (simp add: touchpad_event_def to_u16_id)
  next
    case report
    then show ?thesis by (simp add: touchpad_event_def to_u16_id)
  qed
qed

lemma tp_iteration_run:
  assumes "wf_tp tp" and "tp_rotation tp \<in> {0, 90, 180, 270}"
    and "tp_iteration K orders tp w = (r, w')"
  shows "\<exists>ext. w' = w\<lparr>trace := trace w @ ext\<rparr> \<and>
    list_all (touchpad_event (fst (tp_size tp)) (snd (tp_size tp))) (device_writes (uinput_fd w) ext) \<and>
    (case r of Inl e \<Rightarrow> kernel_error e | Inr tp' \<Rightarrow> wf_tp tp' \<and> same_region tp tp')"
proof -
  let ?x = "(SysRead (source_fd w), K (trace w) (SysRead (source_fd w)))"
  let ?w1 = "w\<lparr>trace := trace w @ [?x]\<rparr>"
  have get: "GetNextEvent K kNoTimeout False w =
      (if ret (snd ?x) < 0 then Inl (SystemError (err (snd ?x)) ''read input device'')
       else if ret (snd ?x) = sizeof_input_event then Inr (Some (fill_event (payload (snd ?x))))
       else Inl (RuntimeError ''short read from input device''), ?w1)"
    by (simp add: GetNextEvent_def kNoTimeout_def read_event_run Let_def)
  show ?thesis
  proof (cases "ret (snd ?x) = sizeof_input_event")
    case False
    then obtain e where "GetNextEvent K kNoTimeout False w = (Inl e, ?w1)" "kernel_error e"
      by (cases "ret (snd ?x) < 0") (simp_all add: get)
    with assms(3) show ?thesis by (intro exI [of _ "[?x]"]) (auto simp: tp_iteration_def)
  next
    case True
    let ?ev = "fill_event (payload (snd ?x))"
    have got: "GetNextEvent K kNoTimeout False w = (Inr (Some ?ev), ?w1)" using True by (simp add: get)
    obtain outs tp' where c: "tp_consume ?ev orders tp = Inr (outs, tp')"
      using tp_consume_total [OF assms(1)] by blast
    obtain r2 w2 where send: "SendEvents K outs ?w1 = (r2, w2)" by fastforce
    from SendEvents_run [OF send] obtain n ext where ext: "w2 = w\<lparr>trace := trace w @ [?x] @ ext\<rparr>"
      "device_writes (uinput_fd w) ext =
         map (\<lambda>e. input_ev (to_u16 (ev_type e)) (to_u16 (ev_code e)) (ev_value e)) (take n outs)"
      "r2 = Inr () \<and> n = length outs \<or> (\<exists>e. r2 = Inl e \<and> kernel_error e)" by auto
    have "list_all (touchpad_event (fst (tp_size tp)) (snd (tp_size tp))) (device_writes (uinput_fd w) ext)"
      unfolding ext(2) list_all_iff using consume_allowed [OF assms(1) c _ assms(2)]
      by (auto dest: in_set_takeD)
    moreover have "w' = w2" "case r of Inl e \<Rightarrow> kernel_error e | Inr t \<Rightarrow> t = tp'"
      using assms(3) got c send ext(3) by (auto simp: tp_iteration_def io_bind_def split: sum.splits)
    ultimately show ?thesis
      using ext(1) wf_tp_consume [OF assms(1) c] consume_same_region [OF assms(1) c]
      by (intro exI [of _ "[?x] @ ext"]) (auto split: sum.splits)
  qed
qed

interpretation touchpad_loop: device_loop "tp_iteration K" "touchpad_Consume K"
  "\<lambda>tp. wf_tp tp \<and> same_region tp0 tp \<and> tp_rotation tp0 \<in> {0, 90, 180, 270}"
  "touchpad_event (fst (tp_size tp0)) (snd (tp_size tp0))" for K tp0
proof (unfold_locales, goal_cases)
  case (1 s w x r w')
  then have "wf_tp s" "tp_rotation s \<in> {0, 90, 180, 270}" by (auto simp: same_region_def)
  from tp_iteration_run [OF this 1(3)] 1(1) same_region_size [of tp0 s] show ?case
    by (fastforce simp: same_region_def split: sum.splits)
qed simp_all

end
