(* ===== verification/Touchpad_Process.thy ===== *)
theory Touchpad_Process
  imports Touchpad_Worker
begin

text \<open>
  The touchpad process from end to end: what its virtual device accepts, for every kernel and
  every number of iterations, fits the buttons and axes it was created with.
\<close>

section \<open>What the set-up does\<close>

text \<open>Calls that neither read nor write events, and those that do not set up an axis either.\<close>

definition no_event :: "syscall \<times> sysret \<Rightarrow> bool" where
  "no_event x \<longleftrightarrow> (\<forall>fd. accepted_write fd x = None \<and> panel_event fd x = None)"

definition quiet :: "syscall \<times> sysret \<Rightarrow> bool" where
  "quiet x \<longleftrightarrow> no_event x \<and> axis_of x = None"

lemma quiet_no_event: "quiet x \<Longrightarrow> no_event x"
  by (simp add: quiet_def)

lemma no_event_writes: "\<forall>x \<in> set ext. no_event x \<Longrightarrow> no_writes ext"
  by (induction ext) (auto simp: no_event_def)

lemma no_event_reads: "\<forall>x \<in> set ext. no_event x \<Longrightarrow> panel_events fd ext = []"
  by (induction ext) (auto simp: no_event_def)

lemma quiet_axes: "\<forall>x \<in> set ext. quiet x \<Longrightarrow> axes_of ext = []"
  by (induction ext) (simp_all add: quiet_def)

lemma quiet_calls [simp]:
  "quiet (SysOpen p f, r)" "quiet (SysIoctl fd (UI_SET_EVBIT t), r)"
  "quiet (SysIoctl fd (UI_SET_KEYBIT c), r)" "quiet (SysIoctl fd (UI_DEV_SETUP d), r)"
  "quiet (SysIoctl fd UI_DEV_CREATE, r)"
  by (simp_all add: quiet_def no_event_def axis_of_def)

lemma no_event_ioctl [simp]: "no_event (SysIoctl fd q, r)"
  by (simp add: no_event_def)

lemma calls_check: "calls P m \<Longrightarrow> calls P (check m msg)"
  unfolding check_def by (erule calls_bind) simp

lemma calls_lift [simp]: "calls P (io_lift r)"
  by (simp add: io_lift_def split: sum.split)

lemma open_quiet: "calls quiet (OpenSourceDevice K path)" "calls quiet (CreateUinputFD K)"
  by (rule callsI; auto simp: OpenSourceDevice_def CreateUinputFD_def io_bind_def sys_def Let_def
      split: if_splits)+

lemma enable_quiet: "calls quiet (EnableEventType K t)" "calls quiet (EnableKeyEvent K c)"
  "calls no_event (EnableAbsEvent K c)"
  unfolding EnableEventType_def EnableKeyEvent_def EnableAbsEvent_def
  by (rule callsI; auto)+

lemma enable_buttons_quiet: "calls quiet (enable_buttons K cs)"
  by (induction cs) (auto intro!: calls_bind enable_quiet)

lemma finalize_quiet: "calls quiet (FinalizeUinputCreation K name)"
  by (rule callsI) (auto simp: FinalizeUinputCreation_def split: if_splits)

lemma copy_axes_no_event: "calls no_event (copy_axes K src w h xres yres codes cs)"
proof (induction cs)
  case (Cons c cs)
  have "calls no_event (io_bind (EnableAbsEvent K c) (\<lambda>ok.
      if \<not> ok then io_return False
      else io_bind (sys K (SysIoctl src (EVIOCGABS c))) (\<lambda>r1.
        if ret r1 < 0 then io_return False
        else io_bind (sys K (SysIoctl fd (UI_ABS_SETUP \<lparr>axis_code = c,
                 axis_info = axis_setup w h xres yres c (fill_absinfo (payload r1))\<rparr>)))
          (\<lambda>r2. if ret r2 \<noteq> 0 then io_return False
                else copy_axes K src w h xres yres codes cs))))" for fd
    using Cons by (auto intro!: calls_bind enable_quiet)
  note rest = this
  show ?case
  proof (rule callsI)
    fix s r s'
    assume run: "copy_axes K src w h xres yres codes (c # cs) s = (r, s')"
    show "\<exists>ext. trace s' = trace s @ ext \<and> (\<forall>x \<in> set ext. no_event x)"
    proof (cases "IsEventSupported c (Some codes)")
      case True
      let ?m = "io_bind (EnableAbsEvent K c) (\<lambda>ok.
        if \<not> ok then io_return False
        else io_bind (sys K (SysIoctl src (EVIOCGABS c))) (\<lambda>r1.
          if ret r1 < 0 then io_return False
          else io_bind (sys K (SysIoctl (uinput_fd s) (UI_ABS_SETUP \<lparr>axis_code = c,
                   axis_info = axis_setup w h xres yres c (fill_absinfo (payload r1))\<rparr>)))
            (\<lambda>r2. if ret r2 \<noteq> 0 then io_return False
                  else copy_axes K src w h xres yres codes cs)))"
      have "?m s = (r, s')" using run True unfolding copy_axes.simps by (simp only: if_False not_True_eq_False)
      then show ?thesis by (elim callsE [OF rest [of "uinput_fd s"]]) blast
    next
      case False
      then have "copy_axes K src w h xres yres codes cs s = (r, s')" using run by simp
      then show ?thesis by (elim callsE [OF Cons]) blast
    qed
  qed
qed simp

lemma CopyABS_no_event: "calls no_event (CopyABSOutputEvents K src w h xres yres)"
  unfolding CopyABSOutputEvents_def Let_def
  by (auto intro!: calls_bind copy_axes_no_event calls_mono [OF enable_quiet(1) quiet_no_event])

lemma check_Inr: "check m msg w = (Inr u, w') \<longleftrightarrow> m w = (Inr True, w')"
  by (auto simp: check_def io_bind_eq split: if_splits)

lemma enable_buttons_run:
  "enable_buttons K cs w = (Inr True, w') \<Longrightarrow>
   \<exists>ext. w' = w\<lparr>trace := trace w @ ext\<rparr> \<and> (\<forall>c \<in> set cs. key_enabled (uinput_fd w) c ext)"
proof (induction cs arbitrary: w)
  case Nil
  then show ?case by (intro exI [of _ "[]"]) simp
next
  case (Cons c cs)
  let ?call = "SysIoctl (uinput_fd w) (UI_SET_KEYBIT c)"
  let ?x = "K (trace w) ?call"
  have one: "EnableKeyEvent K c w = (Inr (ret ?x = 0), w\<lparr>trace := trace w @ [(?call, ?x)]\<rparr>)"
    by (simp add: EnableKeyEvent_run Let_def)
  with Cons.prems have "ret ?x = 0"
    "enable_buttons K cs (w\<lparr>trace := trace w @ [(?call, ?x)]\<rparr>) = (Inr True, w')"
    by (cases "ret ?x = 0"; simp)+
  with Cons.IH [of "w\<lparr>trace := trace w @ [(?call, ?x)]\<rparr>"] obtain ext where
    "w' = w\<lparr>trace := trace w @ [(?call, ?x)] @ ext\<rparr>" "\<forall>c \<in> set cs. key_enabled (uinput_fd w) c ext"
    by auto
  with \<open>ret ?x = 0\<close> show ?case by (intro exI [of _ "[(?call, ?x)] @ ext"]) simp
qed

lemma EnableTouchpadButtons_run:
  assumes "EnableTouchpadButtons K w = (Inr True, w')"
  shows "\<exists>ext. w' = w\<lparr>trace := trace w @ ext\<rparr> \<and>
    (\<forall>c \<in> set touchpad_buttons. key_enabled (uinput_fd w) c ext)"
proof -
  let ?x = "(SysIoctl (uinput_fd w) (UI_SET_EVBIT EV_KEY), K (trace w) (SysIoctl (uinput_fd w) (UI_SET_EVBIT EV_KEY)))"
  have "EnableEventType K EV_KEY w = (Inr (ret (snd ?x) = 0), w\<lparr>trace := trace w @ [?x]\<rparr>)"
    by (simp add: EnableEventType_def)
  with assms have "enable_buttons K touchpad_buttons (w\<lparr>trace := trace w @ [?x]\<rparr>) = (Inr True, w')"
    by (cases "ret (snd ?x) = 0") (simp_all add: EnableTouchpadButtons_def)
  from enable_buttons_run [OF this] obtain ext where "w' = w\<lparr>trace := trace w @ [?x] @ ext\<rparr>"
    "\<forall>c \<in> set touchpad_buttons. key_enabled (uinput_fd w) c ext" by auto
  then show ?thesis by (intro exI [of _ "[?x] @ ext"]) simp
qed

text \<open>What a successful set-up has told the kernel.\<close>

definition touchpad_created :: "touchpad \<Rightarrow> int \<Rightarrow> trace \<Rightarrow> bool" where
  "touchpad_created tp fd tr \<longleftrightarrow>
     (\<forall>c \<in> set touchpad_buttons. key_enabled fd c tr) \<and>
     (\<exists>xres yres. \<forall>x \<in> set (axes_of tr). axis_ok (fst (tp_size tp)) (snd (tp_size tp)) xres yres x)"

lemma touchpad_setup_Inr:
  assumes "uinput_fd w < 0" and "source_fd w < 0"
    and "touchpad_setup K path name tp w_mm h_mm w = (Inr (), w')"
  shows "\<exists>ext. trace w' = trace w @ ext \<and> 0 \<le> source_fd w' \<and> touchpad_created tp (uinput_fd w') ext"
proof -
  obtain sw sh where size: "tp_size tp = (sw, sh)" by fastforce
  from assms(3) obtain w1 w2 w3 w4 xres yres where
    s1: "OpenSourceDevice K path w = (Inr True, w1)" and s2: "CreateUinputFD K w1 = (Inr True, w2)"
    and s3: "EnableTouchpadButtons K w2 = (Inr True, w3)"
    and s4: "CopyABSOutputEvents K (source_fd w3) sw sh xres yres w3 = (Inr True, w4)"
    and s5: "FinalizeUinputCreation K name w4 = (Inr True, w')"
    unfolding touchpad_setup_def
    by (cases "int32 sw \<and> int32 sh")
      (auto simp: io_bind_eq check_Inr io_lift_def checked_size_def size split: sum.splits)
  obtain c1 x1 where o: "OpenSourceDevice K path w =
      (if ret x1 < 0 then Inl (SystemError (err x1) (''open source device '' @ path)) else Inr True,
       w\<lparr>source_fd := ret x1, trace := trace w @ [(c1, x1)]\<rparr>)"
    by (rule OpenSourceDevice_run [OF assms(2)])
  with s1 have w1: "w1 = w\<lparr>source_fd := ret x1, trace := trace w @ [(c1, x1)]\<rparr>" "0 \<le> ret x1"
    by (auto split: if_splits)
  obtain c2 x2 where "CreateUinputFD K w1 = (Inr (0 \<le> ret x2), w1\<lparr>uinput_fd := ret x2, trace := trace w1 @ [(c2, x2)]\<rparr>)"
    by (rule CreateUinputFD_run [of w1]) (use assms(1) w1 in simp)
  with s2 have w2: "w2 = w1\<lparr>uinput_fd := ret x2, trace := trace w1 @ [(c2, x2)]\<rparr>" by simp
  obtain e3 where w3: "w3 = w2\<lparr>trace := trace w2 @ e3\<rparr>"
    "\<forall>c \<in> set touchpad_buttons. key_enabled (uinput_fd w2) c e3"
    using EnableTouchpadButtons_run [OF s3] by blast
  obtain e4 where w4: "w4 = w3\<lparr>trace := trace w3 @ e4\<rparr>" "\<forall>x \<in> set (axes_of e4). axis_ok sw sh xres yres x"
    using CopyABS_axes [OF s4] by blast
  obtain e5 where w5: "w' = w4\<lparr>trace := trace w4 @ e5, device_created := True\<rparr>"
    by (rule Finalize_run [OF s5]) auto
  have quiet: "axes_of [(c1, x1), (c2, x2)] = []" "axes_of e3 = []" "axes_of e5 = []"
  proof -
    have ax: "axes_of ext = []" if "calls quiet m" "m v = (r, v')" "trace v' = trace v @ ext"
      for m :: "'x io" and v r v' ext
      using callsE [OF that(1,2)] quiet_axes that(3) by force
    have "axes_of [(c1, x1)] = []" by (rule ax [OF open_quiet(1) s1]) (simp add: w1)
    moreover have "axes_of [(c2, x2)] = []" by (rule ax [OF open_quiet(2) s2]) (simp add: w2)
    ultimately show "axes_of [(c1, x1), (c2, x2)] = []" by (simp split: option.splits)
    have "calls quiet (EnableTouchpadButtons K)"
      unfolding EnableTouchpadButtons_def by (auto intro!: calls_bind enable_quiet enable_buttons_quiet)
    from ax [OF this s3] show "axes_of e3 = []" by (simp add: w3)
    from ax [OF finalize_quiet s5] show "axes_of e5 = []" by (simp add: w5)
  qed
  let ?ext = "[(c1, x1), (c2, x2)] @ e3 @ e4 @ e5"
  have fd: "uinput_fd w' = uinput_fd w2" "source_fd w' = ret x1" "trace w' = trace w @ ?ext"
    using w1 w2 w3 w4 w5 by simp_all
  have "axes_of ?ext = axes_of e4" using quiet by (simp only: axes_of_simps(3) append_Nil append_Nil2)
  then have "touchpad_created tp (uinput_fd w') ?ext"
    using w3(2) w4(2) by (auto simp: touchpad_created_def fd size simp del: axes_of_simps)
  with fd w1(2) show ?thesis by auto
qed

section \<open>Errors\<close>

definition touchpad_messages :: "string set" where
  "touchpad_messages =
     {''failed to open Halo touchpad input device'', ''failed to open uinput for touchpad'',
      ''failed to enable virtual touchpad buttons'', ''failed to configure virtual touchpad axes'',
      ''failed to create virtual touchpad device''}"

text \<open>
  The arithmetic of the set-up is defined: the width and height of the region are \<^verbatim>\<open>int\<close>s, and each
  divided by its millimetres is a finite number that rounds to a \<^verbatim>\<open>long\<close>.
\<close>

definition resolution_fits :: "int \<Rightarrow> fp \<Rightarrow> bool" where
  "resolution_fits n mm \<longleftrightarrow>
     (case fp_div double_format (fp_of_int double_format n) mm of
        Fin x \<Rightarrow> - (2 ^ 63) \<le> lround x \<and> lround x < 2 ^ 63 | _ \<Rightarrow> False)"

definition size_fits :: "touchpad \<Rightarrow> fp \<Rightarrow> fp \<Rightarrow> bool" where
  "size_fits tp w_mm h_mm \<longleftrightarrow> int32 (fst (tp_size tp)) \<and> int32 (snd (tp_size tp)) \<and>
     resolution_fits (fst (tp_size tp)) w_mm \<and> resolution_fits (snd (tp_size tp)) h_mm"

definition touchpad_setup_error :: "touchpad \<Rightarrow> fp \<Rightarrow> fp \<Rightarrow> exn \<Rightarrow> bool" where
  "touchpad_setup_error tp w_mm h_mm e \<longleftrightarrow>
     (case e of SystemError _ _ \<Rightarrow> True | RuntimeError msg \<Rightarrow> msg \<in> touchpad_messages
      | UndefinedBehaviour msg \<Rightarrow> \<not> size_fits tp w_mm h_mm | _ \<Rightarrow> False)"

lemma setup_error_simps [simp]:
  "touchpad_setup_error tp w_mm h_mm (SystemError n msg)"
  "touchpad_setup_error tp w_mm h_mm (RuntimeError msg) \<longleftrightarrow> msg \<in> touchpad_messages"
  "touchpad_setup_error tp w_mm h_mm (UndefinedBehaviour msg) \<longleftrightarrow> \<not> size_fits tp w_mm h_mm"
  by (simp_all add: touchpad_setup_error_def)

lemma setup_messages [simp]:
  "''failed to open Halo touchpad input device'' \<in> touchpad_messages"
  "''failed to open uinput for touchpad'' \<in> touchpad_messages"
  "''failed to enable virtual touchpad buttons'' \<in> touchpad_messages"
  "''failed to configure virtual touchpad axes'' \<in> touchpad_messages"
  "''failed to create virtual touchpad device'' \<in> touchpad_messages"
  by (simp_all only: touchpad_messages_def insert_iff simp_thms)

lemma throws_check: "throws Q m \<Longrightarrow> Q (RuntimeError msg) \<Longrightarrow> throws Q (check m msg)"
  unfolding check_def by (rule throws_bind) auto

lemma open_throws: "throws (touchpad_setup_error tp w_mm h_mm) (OpenSourceDevice K path)"
  by (rule throwsI) (auto simp: OpenSourceDevice_def io_bind_eq sys_def Let_def split: if_splits)

lemma never_throw:
  "throws Q (CreateUinputFD K)" "throws Q (EnableEventType K t)" "throws Q (EnableKeyEvent K c)"
  "throws Q (EnableAbsEvent K c)" "throws Q (FinalizeUinputCreation K name)"
  by (rule throwsI; auto simp: CreateUinputFD_def EnableEventType_def EnableKeyEvent_def
      EnableAbsEvent_def FinalizeUinputCreation_def io_bind_eq sys_def split: if_splits)+

lemma buttons_never_throw: "throws Q (EnableTouchpadButtons K)"
proof -
  have "throws Q (enable_buttons K cs)" for cs
    by (induction cs) (auto intro!: throws_bind never_throw)
  then show ?thesis by (auto simp: EnableTouchpadButtons_def intro!: throws_bind never_throw)
qed

lemma copy_axes_never_throws: "throws Q (copy_axes K src w h xres yres codes cs)"
proof (induction cs)
  case (Cons c cs)
  show ?case
  proof (rule throwsI)
    fix s e s'
    assume "copy_axes K src w h xres yres codes (c # cs) s = (Inl e, s')"
    with Cons show "Q e"
      by (auto simp: throws_def io_bind_eq [of "EnableAbsEvent K c"] EnableAbsEvent_run Let_def
          split: if_splits)
  qed
qed simp

lemma CopyABS_never_throws: "throws Q (CopyABSOutputEvents K src w h xres yres)"
  unfolding CopyABSOutputEvents_def Let_def
  by (auto intro!: throws_bind never_throw copy_axes_never_throws)

lemma throws_lift_bind:
  "(\<And>e. r = Inl e \<Longrightarrow> Q e) \<Longrightarrow> (\<And>x. r = Inr x \<Longrightarrow> throws Q (f x)) \<Longrightarrow>
     throws Q (io_bind (io_lift r) f)"
  by (cases r) (auto simp: io_lift_def throws_def io_bind_eq io_throw_def)

lemma resolution_error:
  assumes "axis_resolution n mm = Inl e"
  shows "\<not> resolution_fits n mm \<and> (\<exists>msg. e = UndefinedBehaviour msg)"
proof (cases "fp_div double_format (fp_of_int double_format n) mm")
  case (Fin x)
  show ?thesis
  proof (cases "- (2 ^ 63) \<le> lround x \<and> lround x < 2 ^ 63")
    case True
    with assms Fin show ?thesis
      by (simp only: axis_resolution_def fp.case simp_thms if_True sum.distinct)
  next
    case False
    with assms Fin show ?thesis
      by (auto simp only: axis_resolution_def resolution_fits_def fp.case if_False sum.inject)
  qed
qed (use assms in \<open>auto simp only: axis_resolution_def resolution_fits_def fp.case sum.inject\<close>)

lemma touchpad_setup_throws:
  "throws (touchpad_setup_error tp w_mm h_mm) (touchpad_setup K path name tp w_mm h_mm)"
proof -
  let ?Q = "touchpad_setup_error tp w_mm h_mm"
  have message: "throws ?Q m \<Longrightarrow> msg \<in> touchpad_messages \<Longrightarrow> throws ?Q (check m msg)" for m msg
    by (rule throws_check) (simp_all only: setup_error_simps)
  have copy: "throws ?Q (\<lambda>s. check (CopyABSOutputEvents K (source_fd s) w h xres yres)
      ''failed to configure virtual touchpad axes'' s)" for w h xres yres
    by (rule throws_state [where g = source_fd and m = "\<lambda>x. check (CopyABSOutputEvents K x w h xres yres)
        ''failed to configure virtual touchpad axes''"], rule message, rule CopyABS_never_throws, rule setup_messages)
  have size: "?Q e" if "checked_size tp = Inl e" for e
    using that
    by (auto simp only: checked_size_def size_fits_def setup_error_simps sum.inject sum.distinct split: if_splits)
  have fits: "x = tp_size tp" if "checked_size tp = Inr x" for x
    using that by (simp only: checked_size_def sum.inject sum.distinct split: if_splits)
  have res: "?Q e" if "axis_resolution n mm = Inl e" "n = fst (tp_size tp) \<and> mm = w_mm \<or> n = snd (tp_size tp) \<and> mm = h_mm"
    for e n mm
    using resolution_error [OF that(1)] that(2) by (auto simp only: size_fits_def setup_error_simps)
  have tail: "throws ?Q (io_bind (io_lift (axis_resolution (fst x) w_mm)) (\<lambda>xres.
     io_bind (io_lift (axis_resolution (snd x) h_mm)) (\<lambda>yres.
     io_bind (\<lambda>s. check (CopyABSOutputEvents K (source_fd s) (fst x) (snd x) xres yres)
                    ''failed to configure virtual touchpad axes'' s) (\<lambda>_.
     check (FinalizeUinputCreation K name) ''failed to create virtual touchpad device''))))"
    if "x = tp_size tp" for x
    apply (rule throws_lift_bind, erule res, simp only: that simp_thms)
    apply (rule throws_lift_bind, erule res, simp only: that simp_thms)
    apply (rule throws_bind, rule copy, rule message [OF never_throw(5) setup_messages(5)])
    done
  show ?thesis
    unfolding touchpad_setup_def
    apply (rule throws_bind, rule message [OF open_throws setup_messages(1)])
    apply (rule throws_bind, rule message [OF never_throw(1) setup_messages(2)])
    apply (rule throws_bind, rule message [OF buttons_never_throw setup_messages(3)])
    apply (rule throws_lift_bind, erule size, simp only: split_def)
    apply (rule tail, erule fits)
    done
qed

lemma touchpad_setup_no_event: "calls no_event (touchpad_setup K path name tp w_mm h_mm)"
proof -
  have "calls quiet (EnableTouchpadButtons K)"
    unfolding EnableTouchpadButtons_def by (auto intro!: calls_bind enable_quiet enable_buttons_quiet)
  note quiet = this open_quiet finalize_quiet
  have copy: "calls no_event (\<lambda>s. check (CopyABSOutputEvents K (source_fd s) w h xres yres) msg s)"
    for w h xres yres msg
    by (rule calls_state) (rule calls_check [OF CopyABS_no_event])
  show ?thesis
    unfolding touchpad_setup_def
    by (auto intro!: calls_bind calls_check copy quiet [THEN calls_mono, OF quiet_no_event] split: prod.split)
qed

text \<open>The loop sets up no axis.\<close>

lemma loop_no_axis: "calls (\<lambda>x. axis_of x = None) (touchpad_Consume K all_orders tp)"
proof -
  let ?P = "\<lambda>x. axis_of x = None"
  have "calls ?P (SendEvent K t c v)" for t c v
    by (rule callsI) (auto simp: SendEvent_run Let_def axis_of_def)
  then have send: "calls ?P (SendEvents K es)" for es
    by (induction es) (auto intro: calls_bind)
  have get: "calls ?P (GetNextEvent K kNoTimeout False)"
    by (rule callsI) (auto simp: GetNextEvent_def kNoTimeout_def read_event_run Let_def axis_of_def)
  have "calls ?P (tp_iteration K orders tp)" for orders tp
    unfolding tp_iteration_def by (auto intro!: calls_bind get send split: option.split sum.split)
  then show ?thesis by (induction all_orders arbitrary: tp) (auto intro!: calls_bind)
qed

section \<open>End to end\<close>

lemma FakeTouchpad_new_region:
  assumes "FakeTouchpad_new hw path row = Inr (tp, w_mm, h_mm)"
  shows "wf_tp tp" and "tp_rotation tp \<in> {0, 90, 180, 270}"
proof -
  from assms obtain a b c d where "set_region hw a b c d = Inr (tp, w_mm, h_mm)"
    by (auto simp: FakeTouchpad_new_def touchpad_LoadLayout_def split: option.splits)
  then have "wf_tp tp \<and> tp_rotation tp \<in> {0, 90, 180, 270}"
    by (auto simp: set_region_def region_bounds_def Let_def tp_initial_def wf_tp_def
        split: if_splits option.splits)
  then show "wf_tp tp" "tp_rotation tp \<in> {0, 90, 180, 270}" by auto
qed

text \<open>An event fits the device: its button is enabled, or its value is on its axis.\<close>

definition fits_device :: "int \<Rightarrow> trace \<Rightarrow> input_event \<Rightarrow> bool" where
  "fits_device fd tr e \<longleftrightarrow>
     e = input_ev EV_SYN SYN_REPORT 0 \<or>
     (ev_type e = EV_KEY \<and> key_enabled fd (ev_code e) tr \<and> ev_value e \<in> {0, 1}) \<or>
     (ev_type e = EV_ABS \<and>
      (\<forall>a. (ev_code e, a) \<in> set (axes_of tr) \<and> ev_code e \<in> {ABS_MT_POSITION_X, ABS_MT_POSITION_Y} \<longrightarrow>
         abs_minimum a \<le> ev_value e \<and> ev_value e \<le> abs_maximum a))"

lemma created_fits:
  assumes "touchpad_created tp fd tr" and "touchpad_event (fst (tp_size tp)) (snd (tp_size tp)) e"
  shows "fits_device fd tr e"
  using assms by (fastforce simp: touchpad_created_def touchpad_event_def fits_device_def axis_ok_def)

lemma touchpad_Run_run:
  assumes "uinput_fd w < 0" and "source_fd w < 0" and "wf_tp tp" and "tp_rotation tp \<in> {0, 90, 180, 270}"
    and run: "touchpad_Run K path name all_orders tp w_mm h_mm w = (r, w')"
  shows "\<exists>ext. trace w' = trace w @ ext \<and>
    list_all (fits_device (uinput_fd w') ext) (device_writes (uinput_fd w') ext) \<and>
    (\<forall>e. r = Inl e \<longrightarrow> touchpad_setup_error tp w_mm h_mm e \<or> kernel_error e)"
proof -
  obtain r1 w1 where set: "touchpad_setup K path name tp w_mm h_mm w = (r1, w1)" by fastforce
  obtain e1 where e1: "trace w1 = trace w @ e1" "\<forall>x \<in> set e1. no_event x"
    by (rule callsE [OF touchpad_setup_no_event set])
  note none = no_writes_device [OF no_event_writes [OF e1(2)]]
  show ?thesis
  proof (cases r1)
    case (Inl e)
    with run set have "r = Inl e" "w' = w1" by (simp_all add: touchpad_Run_def)
    with throwsD [OF touchpad_setup_throws, of K path name tp w_mm h_mm w e w1] set Inl e1(1) none
    show ?thesis by auto
  next
    case (Inr u)
    with set have set': "touchpad_setup K path name tp w_mm h_mm w = (Inr (), w1)" by simp
    from touchpad_setup_Inr [OF assms(1,2) set'] e1(1) have src: "0 \<le> source_fd w1"
      and made: "touchpad_created tp (uinput_fd w1) e1" by auto
    have loop: "touchpad_Consume K all_orders tp w1 = (r, w')" using run set' by (simp add: touchpad_Run_def)
    have good: "wf_tp tp \<and> same_region tp tp \<and> tp_rotation tp \<in> {0, 90, 180, 270}"
      using assms(3,4) by (simp add: same_region_def)
    from touchpad_loop.loop_run [OF good src loop] obtain e2 where
      e2: "w' = w1\<lparr>trace := trace w1 @ e2\<rparr>"
        "list_all (touchpad_event (fst (tp_size tp)) (snd (tp_size tp))) (device_writes (uinput_fd w1) e2)"
        "case r of Inl e \<Rightarrow> kernel_error e | Inr s \<Rightarrow> wf_tp s \<and> same_region tp s \<and> tp_rotation tp \<in> {0, 90, 180, 270}"
      by blast
    obtain e2' where "trace w' = trace w1 @ e2'" "\<forall>x \<in> set e2'. axis_of x = None"
      by (rule callsE [OF loop_no_axis loop])
    with e2(1) have na: "\<forall>x \<in> set e2. axis_of x = None" by simp
    have "axes_of e2 = []" using na by (induction e2) simp_all
    with made have all: "touchpad_created tp (uinput_fd w1) (e1 @ e2)" by (auto simp: touchpad_created_def)
    have "list_all (fits_device (uinput_fd w1) (e1 @ e2)) (device_writes (uinput_fd w1) (e1 @ e2))"
      using e2(2) created_fits [OF all] none [of "uinput_fd w1"] by (simp add: list_all_iff)
    with e1(1) e2(1,3) show ?thesis by (intro exI [of _ "e1 @ e2"]) auto
  qed
qed

text \<open>
  C2: the touchpad process from end to end. Started fresh with a region that loaded, for every
  kernel, with whatever failures, and any number of iterations: every event the virtual device
  has accepted fits the device as it was created: it is a report, a press or release of a
  button that was enabled, or an absolute event whose position, if it is one, lies on the axis
  that was set up for it. The process ends only with a failed system call, with one of the five
  set-up messages, or, only if the size of the region does not fit the arithmetic of \<open>Run\<close>,
  with undefined behaviour; a region of a fitting size never leads to it.
\<close>

theorem touchpad_process_is_sound:
  assumes "uinput_fd w < 0" and "source_fd w < 0"
    and "FakeTouchpad_new hw file row = Inr (tp, w_mm, h_mm)"
    and "touchpad_Run K path name all_orders tp w_mm h_mm w = (r, w')"
  shows "\<exists>ext. trace w' = trace w @ ext \<and>
    (\<forall>e \<in> set (device_writes (uinput_fd w') ext). fits_device (uinput_fd w') ext e) \<and>
    (\<forall>e. r = Inl e \<longrightarrow> touchpad_setup_error tp w_mm h_mm e \<or> kernel_error e)"
  using touchpad_Run_run [OF assms(1,2) FakeTouchpad_new_region [OF assms(3)] assms(4)]
  by (simp add: list_all_iff)

text \<open>
  A kernel that opens everything, accepts every write, answers the bit fields of a multi-touch
  panel and lets one finger touch the panel at (200, 300).
\<close>

definition touching_script :: "input_event list" where
  "touching_script = [input_ev EV_ABS ABS_MT_TRACKING_ID 7, input_ev EV_ABS ABS_MT_POSITION_X 200,
     input_ev EV_ABS ABS_MT_POSITION_Y 300, input_ev EV_SYN SYN_REPORT 0]"

definition touching_kernel :: kernel where
  "touching_kernel tr c =
     \<lparr>ret = (case c of SysOpen _ _ \<Rightarrow> int (length tr) + 3 | SysWrite _ _ \<Rightarrow> sizeof_input_event
                     | SysRead _ \<Rightarrow> sizeof_input_event | _ \<Rightarrow> 0),
      err = 0,
      payload = (case c of
          SysRead _ \<Rightarrow> InputEvent (touching_script ! length (filter (\<lambda>x. case fst x of SysRead _ \<Rightarrow> True | _ \<Rightarrow> False) tr))
        | SysIoctl fd q \<Rightarrow> payload (panel_kernel tr c) | _ \<Rightarrow> NoData)\<rparr>"

text \<open>The loop in direct style, which evaluates without the monad.\<close>

fun consume_run :: "kernel \<Rightarrow> (nat \<Rightarrow> event_key list) list \<Rightarrow> touchpad \<Rightarrow> proc \<Rightarrow> (exn + touchpad) \<times> proc" where
  "consume_run K [] tp w = (Inr tp, w)"
| "consume_run K (orders # rest) tp w =
     (case tp_iteration K orders tp w of (r, w1) \<Rightarrow>
        (case r of Inl e \<Rightarrow> (Inl e, w1) | Inr tp1 \<Rightarrow> consume_run K rest tp1 w1))"

lemma consume_run_eq: "touchpad_Consume K all_orders tp w = consume_run K all_orders tp w"
  by (induction all_orders arbitrary: tp w) (auto simp: io_bind_def split: prod.split sum.split)

lemma consume_run_append:
  "consume_run K (xs @ ys) tp w =
     (case consume_run K xs tp w of (r, w1) \<Rightarrow>
        (case r of Inl e \<Rightarrow> (Inl e, w1) | Inr tp1 \<Rightarrow> consume_run K ys tp1 w1))"
  by (induction xs arbitrary: tp w) (auto split: prod.split sum.split)

lemma SendEvents_accepted:
  assumes "\<And>tr e. K tr (SysWrite (uinput_fd w) e) = x" and "ret x = sizeof_input_event"
  shows "SendEvents K es w = (Inr (), w\<lparr>trace := trace w @
    map (\<lambda>e. (SysWrite (uinput_fd w) (input_ev (to_u16 (ev_type e)) (to_u16 (ev_code e)) (ev_value e)), x)) es\<rparr>)"
  using assms(1) assms(2) by (induction es arbitrary: w) (simp_all add: SendEvent_run Let_def)

definition touching_order :: "nat \<Rightarrow> event_key list" where
  "touching_order i = (if i = 0 then [TID, XKEY, YKEY] else [])"

text \<open>The four stages of the process, each from the state the one before it left.\<close>

definition touching_opened :: "(exn + unit) \<times> proc" where
  "touching_opened =
     io_bind (check (OpenSourceDevice touching_kernel ''p'') ''failed to open Halo touchpad input device'') (\<lambda>_.
     io_bind (check (CreateUinputFD touching_kernel) ''failed to open uinput for touchpad'') (\<lambda>_.
     check (EnableTouchpadButtons touching_kernel) ''failed to enable virtual touchpad buttons'')) proc_initial"

definition touching_axes :: "(exn + unit) \<times> proc" where
  "touching_axes = check (CopyABSOutputEvents touching_kernel 3 500 200 10 10)
     ''failed to configure virtual touchpad axes'' (snd touching_opened)"

definition touching_created :: "(exn + unit) \<times> proc" where
  "touching_created = check (FinalizeUinputCreation touching_kernel ''t'')
     ''failed to create virtual touchpad device'' (snd touching_axes)"

definition touching_three :: "(exn + touchpad) \<times> proc" where
  "touching_three = consume_run touching_kernel (replicate 3 touching_order)
     (tp_initial 110 610 220 420 0) (snd touching_created)"

definition touching_read :: "(exn + input_event option) \<times> proc" where
  "touching_read = GetNextEvent touching_kernel kNoTimeout False (snd touching_three)"

definition touching_frame :: "exn + input_event list \<times> touchpad" where
  "touching_frame = (case fst touching_three of Inl e \<Rightarrow> Inl e
     | Inr tp \<Rightarrow> tp_consume (touching_script ! 3) touching_order tp)"

definition touching_run :: "(exn + touchpad) \<times> proc" where
  "touching_run = touchpad_Run touching_kernel ''p'' ''t''
     (replicate 4 touching_order) (tp_initial 110 610 220 420 0) (Fin 50) (Fin 20) proc_initial"

lemma touching_opens: "fst touching_opened = Inr ()" "source_fd (snd touching_opened) = 3"
  by code_simp+

lemma touching_creates: "fst touching_axes = Inr ()" "fst touching_created = Inr ()"
  by code_simp+

lemma touching_reads: "fst touching_read = Inr (Some (touching_script ! 3))"
  by code_simp

lemma touching_descriptor: "uinput_fd (snd touching_read) = 4"
  by code_simp

lemma touching_silent: "device_writes 4 (trace (snd touching_read)) = []"
  by code_simp

lemmas touching_device = touching_descriptor touching_silent

lemma touching_frame_Inr: "\<not> isl touching_frame"
  by code_simp

lemma touching_region:
  "FakeTouchpad_new (sample_hw 0) ''touchpad.csv'' (region_of 10 20 60 40) =
     Inr (tp_initial 110 610 220 420 0, Fin 50, Fin 20)"
  by (simp add: FakeTouchpad_new_def touchpad_LoadLayout_def set_region_def region_of_def sample_hw_def
      initialised_def isfinite_def region_bounds_def scaled_def dint_numeral fp_to_int_def int32_def
      fp_sub_def Let_def)

lemma touching_resolution: "axis_resolution 500 (Fin 50) = Inr 10" "axis_resolution 200 (Fin 20) = Inr 10"
proof -
  have "lround 10 = 10" by (simp add: lround_def floor_eq_iff)
  then show "axis_resolution 500 (Fin 50) = Inr 10" "axis_resolution 200 (Fin 20) = Inr 10"
    by (simp_all add: axis_resolution_def dint_numeral to_int32_def)
qed

lemma touching_run_created:
  "touching_run = consume_run touching_kernel (replicate 4 touching_order) (tp_initial 110 610 220 420 0)
     (snd touching_created)"
proof -
  let ?open = "io_bind (check (OpenSourceDevice touching_kernel ''p'') ''failed to open Halo touchpad input device'') (\<lambda>_.
    io_bind (check (CreateUinputFD touching_kernel) ''failed to open uinput for touchpad'') (\<lambda>_.
    check (EnableTouchpadButtons touching_kernel) ''failed to enable virtual touchpad buttons''))"
  let ?axes = "\<lambda>s. check (CopyABSOutputEvents touching_kernel (source_fd s) 500 200 10 10)
    ''failed to configure virtual touchpad axes'' s"
  let ?make = "check (FinalizeUinputCreation touching_kernel ''t'') ''failed to create virtual touchpad device''"
  have touching_size: "checked_size (tp_initial 110 610 220 420 0) = Inr (500, 200)"
    by (simp add: checked_size_def tp_size_def tp_initial_def int32_def)
  have stages: "touchpad_setup touching_kernel ''p'' ''t'' (tp_initial 110 610 220 420 0) (Fin 50) (Fin 20) =
      io_bind ?open (\<lambda>_. io_bind ?axes (\<lambda>_. ?make))"
    unfolding touchpad_setup_def
    by (simp only: touching_size touching_resolution io_lift_def sum.case io_simps prod.case io_bind_assoc)
  have "?open proc_initial = (Inr (), snd touching_opened)"
    unfolding touching_opened_def [symmetric] using touching_opens(1) by (metis prod.collapse)
  moreover have "?axes (snd touching_opened) = (Inr (), snd touching_axes)"
    unfolding touching_opens(2) touching_axes_def [symmetric] using touching_creates(1) by (metis prod.collapse)
  moreover have "?make (snd touching_axes) = (Inr (), snd touching_created)"
    unfolding touching_created_def [symmetric] using touching_creates(2) by (metis prod.collapse)
  ultimately have "touchpad_setup touching_kernel ''p'' ''t'' (tp_initial 110 610 220 420 0) (Fin 50) (Fin 20)
      proc_initial = (Inr (), snd touching_created)"
    unfolding stages by (simp only: io_bind_Inr)
  then show ?thesis by (simp add: touching_run_def touchpad_Run_def consume_run_eq)
qed

lemma touching_ends:
  obtains t4 outs x where "touching_frame = Inr (outs, t4)" and "ret x = sizeof_input_event"
    and "touching_run = (Inr t4, (snd touching_read)\<lparr>trace := trace (snd touching_read) @
      map (\<lambda>e. (SysWrite 4 (input_ev (to_u16 (ev_type e)) (to_u16 (ev_code e)) (ev_value e)), x)) outs\<rparr>)"
proof -
  obtain t3 outs t4 where three: "fst touching_three = Inr t3"
    and frame: "tp_consume (touching_script ! 3) touching_order t3 = Inr (outs, t4)"
      "touching_frame = Inr (outs, t4)"
    using touching_frame_Inr
    by (cases touching_frame) (auto simp: touching_frame_def split: sum.splits)
  then have t3: "touching_three = (Inr t3, snd touching_three)" by (simp add: prod_eq_iff)
  let ?w = "snd touching_read"
  have read: "GetNextEvent touching_kernel kNoTimeout False (snd touching_three) =
      (Inr (Some (touching_script ! 3)), ?w)"
    using touching_reads by (simp add: touching_read_def prod_eq_iff)
  define x where "x = \<lparr>ret = sizeof_input_event, err = 0, payload = NoData\<rparr>"
  have x: "touching_kernel tr (SysWrite fd e) = x" for tr fd e by (simp add: touching_kernel_def x_def)
  have "replicate 4 touching_order = replicate 3 touching_order @ [touching_order]" by (simp add: numeral_eq_Suc)
  then have "touching_run = (case touching_three of (r, w1) \<Rightarrow> (case r of Inl e \<Rightarrow> (Inl e, w1)
      | Inr tp1 \<Rightarrow> consume_run touching_kernel [touching_order] tp1 w1))"
    by (simp only: touching_run_created consume_run_append touching_three_def)
  also have "\<dots> = consume_run touching_kernel [touching_order] t3 (snd touching_three)"
    by (subst t3) simp
  also have "\<dots> = (Inr t4, ?w\<lparr>trace := trace ?w @
      map (\<lambda>e. (SysWrite 4 (input_ev (to_u16 (ev_type e)) (to_u16 (ev_code e)) (ev_value e)), x)) outs\<rparr>)"
    using SendEvents_accepted [of touching_kernel ?w x outs] x touching_device(1)
    by (simp add: tp_iteration_def read frame x_def)
  finally have run: "touching_run = (Inr t4, ?w\<lparr>trace := trace ?w @
      map (\<lambda>e. (SysWrite 4 (input_ev (to_u16 (ev_type e)) (to_u16 (ev_code e)) (ev_value e)), x)) outs\<rparr>)" .
  then show thesis by (intro that [OF frame(2)]) (simp_all add: x_def)
qed

lemma touching_writes:
  "uinput_fd (snd touching_run) = 4"
  "device_writes 4 (trace (snd touching_run)) =
     map (\<lambda>e. input_ev (to_u16 (ev_type e)) (to_u16 (ev_code e)) (ev_value e))
       (case touching_frame of Inl _ \<Rightarrow> [] | Inr x \<Rightarrow> fst x)"
proof -
  obtain t4 outs x where frame: "touching_frame = Inr (outs, t4)" and x: "ret x = sizeof_input_event"
    and run: "touching_run = (Inr t4, (snd touching_read)\<lparr>trace := trace (snd touching_read) @
      map (\<lambda>e. (SysWrite 4 (input_ev (to_u16 (ev_type e)) (to_u16 (ev_code e)) (ev_value e)), x)) outs\<rparr>)"
    by (rule touching_ends)
  have "device_writes 4 (map (\<lambda>e. (SysWrite 4 (f e), x)) es) = map f es"
    for f :: "input_event \<Rightarrow> input_event" and es
    by (induction es) (simp_all add: x)
  then show "device_writes 4 (trace (snd touching_run)) =
     map (\<lambda>e. input_ev (to_u16 (ev_type e)) (to_u16 (ev_code e)) (ev_value e))
       (case touching_frame of Inl _ \<Rightarrow> [] | Inr x \<Rightarrow> fst x)"
    by (simp add: run touching_device(2) frame)
  show "uinput_fd (snd touching_run) = 4" by (simp add: run touching_device(1))
qed

lemma touching_frame_events:
  "filter (\<lambda>e. ev_code e \<in> {ABS_MT_POSITION_X, ABS_MT_POSITION_Y, BTN_TOUCH})
     (map (\<lambda>e. input_ev (to_u16 (ev_type e)) (to_u16 (ev_code e)) (ev_value e))
       (case touching_frame of Inl _ \<Rightarrow> [] | Inr x \<Rightarrow> fst x)) =
     [input_ev EV_ABS ABS_MT_POSITION_X 90, input_ev EV_ABS ABS_MT_POSITION_Y 80, input_ev EV_KEY BTN_TOUCH 1]"
  by code_simp

theorem touchpad_process_is_sound_witness:
  "filter (\<lambda>e. ev_code e \<in> {ABS_MT_POSITION_X, ABS_MT_POSITION_Y, BTN_TOUCH})
     (device_writes 4 (trace (snd touching_run))) =
     [input_ev EV_ABS ABS_MT_POSITION_X 90, input_ev EV_ABS ABS_MT_POSITION_Y 80, input_ev EV_KEY BTN_TOUCH 1] \<and>
   list_all (fits_device 4 (trace (snd touching_run))) (device_writes 4 (trace (snd touching_run)))"
proof -
  have fresh: "uinput_fd proc_initial < 0" "source_fd proc_initial < 0" "trace proc_initial = []"
    by (simp_all add: proc_initial_def)
  have "touchpad_Run touching_kernel ''p'' ''t''
      (replicate 4 touching_order) (tp_initial 110 610 220 420 0) (Fin 50) (Fin 20) proc_initial =
      (fst touching_run, snd touching_run)" by (simp add: touching_run_def)
  from touchpad_process_is_sound [OF fresh(1,2) touching_region this] have
    "list_all (fits_device 4 (trace (snd touching_run))) (device_writes 4 (trace (snd touching_run)))"
    by (simp add: fresh(3) touching_writes(1) list_all_iff)
  moreover note touching_frame_events [folded touching_writes(2)]
  ultimately show ?thesis by blast
qed

end
