(* ===== verification/Options.thy ===== *)
theory Options
  imports Floats
begin

text \<open>
  \<^verbatim>\<open>src/options.cc\<close>: the command line. \<^verbatim>\<open>std::from_chars\<close> is modelled for the two types it is used
  with: it reads the longest prefix that is a number, without a leading plus sign or blanks,
  and fails when there is none or when the number does not fit.
\<close>

section \<open>Numbers\<close>

definition is_digit :: "char \<Rightarrow> bool" where
  "is_digit c \<longleftrightarrow> 48 \<le> (of_char c :: nat) \<and> (of_char c :: nat) \<le> 57"

definition digit_value :: "char \<Rightarrow> int" where
  "digit_value c = of_char c - 48"

definition digits_value :: "string \<Rightarrow> int" where
  "digits_value ds = foldl (\<lambda>v c. 10 * v + digit_value c) 0 ds"

text \<open>An optional minus sign, and what follows.\<close>

definition take_minus :: "string \<Rightarrow> bool \<times> string" where
  "take_minus s = (case s of c # cs \<Rightarrow> if c = CHR ''-'' then (True, cs) else (False, s) | [] \<Rightarrow> (False, s))"

definition from_chars_int :: "string \<Rightarrow> (int \<times> string) option" where
  "from_chars_int s =
     (let (neg, s1) = take_minus s;
          ds = takeWhile is_digit s1;
          v = (if neg then - digits_value ds else digits_value ds)
      in if ds = [] \<or> \<not> int32 v then None else Some (v, dropWhile is_digit s1))"

text \<open>The exponent part: its value and what follows; it is read only if it has a digit.\<close>

definition take_exponent :: "string \<Rightarrow> int \<times> string" where
  "take_exponent s =
     (case s of
        [] \<Rightarrow> (0, s)
      | e # s1 \<Rightarrow>
          if e = CHR ''e'' \<or> e = CHR ''E'' then
            let (neg, s2) = (case s1 of c # cs \<Rightarrow> if c = CHR ''-'' then (True, cs)
                                                   else if c = CHR ''+'' then (False, cs)
                                                   else (False, s1)
                             | [] \<Rightarrow> (False, s1));
                ds = takeWhile is_digit s2
            in if ds = [] then (0, s)
               else (if neg then - digits_value ds else digits_value ds, dropWhile is_digit s2)
          else (0, s))"

definition lower :: "char \<Rightarrow> char" where
  "lower c = (if 65 \<le> (of_char c :: nat) \<and> (of_char c :: nat) \<le> 90
              then char_of ((of_char c :: nat) + 32) else c)"

definition starts :: "string \<Rightarrow> string \<Rightarrow> bool" where
  "starts p s \<longleftrightarrow> map lower (take (length p) s) = p"

definition from_chars_double :: "string \<Rightarrow> (fp \<times> string) option" where
  "from_chars_double s =
     (let (neg, s1) = take_minus s in
      if starts ''infinity'' s1 then Some (Inf neg, drop 8 s1)
      else if starts ''inf'' s1 then Some (Inf neg, drop 3 s1)
      else if starts ''nan'' s1 then Some (NaN, drop 3 s1)
      else
        let ds1 = takeWhile is_digit s1; s2 = dropWhile is_digit s1;
            (ds2, s3) = (case s2 of c # cs \<Rightarrow>
                           if c = CHR ''.'' then (takeWhile is_digit cs, dropWhile is_digit cs)
                           else ([], s2)
                         | [] \<Rightarrow> ([], s2));
            (e, s4) = take_exponent s3;
            x = of_int (digits_value (ds1 @ ds2)) * 10 powi (e - int (length ds2));
            v = fp_of_rat double_format (if neg then - x else x)
        in if ds1 @ ds2 = [] then None
           else if \<not> isfinite v \<or> (x \<noteq> 0 \<and> v = Fin 0) then None
           else Some (v, s4))"

text \<open>
  The result and the value left in the variable: \<^verbatim>\<open>from_chars\<close> stores a value whenever it reads
  a number, even one that is not followed by the end of the text.
\<close>

definition ParseNumber :: "(string \<Rightarrow> ('a \<times> string) option) \<Rightarrow> string \<Rightarrow> 'a \<Rightarrow> bool \<times> 'a" where
  "ParseNumber from_chars text value =
     (case from_chars text of None \<Rightarrow> (False, value) | Some (v, rest) \<Rightarrow> (rest = [], v))"

section \<open>Options\<close>

text \<open>\<open>debug_level\<close> counts without a bound; the code's \<open>int\<close> holds the count of any command line.\<close>

record options =
  debug_level :: int
  haptic_magnitude :: fp
  haptic_duration_ms :: int
  config_directory :: string

definition default_options :: options where
  "default_options = \<lparr>debug_level = 0, haptic_magnitude = Fin 1, haptic_duration_ms = 12,
                      config_directory = []\<rparr>"

datatype ParseResult = kSuccess | kHelp | kError

text \<open>
  \<open>rest\<close> are the arguments after the current one: \<open>TakeValue\<close> advances the index by consuming
  the next argument. It returns whether there was one, the value, the arguments after it and
  the error text.
\<close>

definition TakeValue ::
    "string list \<Rightarrow> string \<Rightarrow> string \<Rightarrow> string \<Rightarrow> bool \<times> string \<times> string list \<times> string" where
  "TakeValue rest option_name value error =
     (case rest of
        [] \<Rightarrow> (False, value, rest, ''missing value for '' @ option_name)
      | value' # rest' \<Rightarrow> (True, value', rest', error))"

definition magnitude_error :: string where
  "magnitude_error = ''haptic magnitude must be a number between 0.0 and 1.0''"

definition duration_error :: string where
  "duration_error = ''haptic duration must be between 1 and 1000 milliseconds''"

definition directory_error :: string where
  "directory_error = ''configuration directory must not be empty''"

text \<open>
  One pass of the loop over the argument at the index: it either returns (\<open>Inl\<close>) or goes on with
  the arguments that are left (\<open>Inr\<close>).
\<close>

type_synonym parse_outcome = "ParseResult \<times> options \<times> string"

type_synonym parse_state = "string list \<times> options \<times> string"

definition magnitude_option ::
    "string \<Rightarrow> string list \<Rightarrow> options \<Rightarrow> string \<Rightarrow> parse_outcome + parse_state" where
  "magnitude_option argument rest opts error =
     (let (taken, value, rest', error') = TakeValue rest argument [] error in
      if \<not> taken then Inl (kError, opts, magnitude_error)
      else
        let (ok, m) = ParseNumber from_chars_double value (haptic_magnitude opts);
            opts' = opts\<lparr>haptic_magnitude := m\<rparr>
        in if \<not> ok \<or> \<not> isfinite m \<or> fp_less m (Fin 0) \<or> fp_less (Fin 1) m
           then Inl (kError, opts', magnitude_error)
           else Inr (rest', opts', error'))"

definition duration_option ::
    "string \<Rightarrow> string list \<Rightarrow> options \<Rightarrow> string \<Rightarrow> parse_outcome + parse_state" where
  "duration_option argument rest opts error =
     (let (taken, value, rest', error') = TakeValue rest argument [] error in
      if \<not> taken then Inl (kError, opts, duration_error)
      else
        let (ok, d) = ParseNumber from_chars_int value (haptic_duration_ms opts);
            opts' = opts\<lparr>haptic_duration_ms := d\<rparr>
        in if \<not> ok \<or> d < 1 \<or> d > 1000
           then Inl (kError, opts', duration_error)
           else Inr (rest', opts', error'))"

definition directory_option ::
    "string \<Rightarrow> string list \<Rightarrow> options \<Rightarrow> string \<Rightarrow> parse_outcome + parse_state" where
  "directory_option argument rest opts error =
     (let (taken, value, rest', error') = TakeValue rest argument [] error in
      if \<not> taken \<or> value = [] then Inl (kError, opts, directory_error)
      else Inr (rest', opts\<lparr>config_directory := value\<rparr>, error'))"

definition is_option :: "string \<Rightarrow> string \<Rightarrow> string \<Rightarrow> bool" where
  "is_option argument short long \<longleftrightarrow> argument = short \<or> argument = long"

definition parse_argument ::
    "string \<Rightarrow> string list \<Rightarrow> options \<Rightarrow> string \<Rightarrow> parse_outcome + parse_state" where
  "parse_argument argument rest opts error =
     (if is_option argument ''-h'' ''--help'' then Inl (kHelp, opts, error)
      else if is_option argument ''-d'' ''--debug''
      then Inr (rest, opts\<lparr>debug_level := debug_level opts + 1\<rparr>, error)
      else if is_option argument ''-m'' ''--magnitude''
      then magnitude_option argument rest opts error
      else if is_option argument ''-D'' ''--duration-ms''
      then duration_option argument rest opts error
      else if is_option argument ''-c'' ''--config-directory''
      then directory_option argument rest opts error
      else Inl (kError, opts, ''unknown option: '' @ argument))"

lemma TakeValue_shorter:
  "TakeValue rest n v err = (taken, value, rest', err') \<Longrightarrow> length rest' \<le> length rest"
  by (auto simp: TakeValue_def split: list.splits)

text \<open>What each kind of option hands on to the next pass.\<close>

lemma magnitude_option_Inr:
  assumes "magnitude_option a rest opts err = Inr (rest', opts', err')"
  obtains v m where "rest = v # rest'"
    and "ParseNumber from_chars_double v (haptic_magnitude opts) = (True, m)"
    and "isfinite m" and "\<not> fp_less m (Fin 0)" and "\<not> fp_less (Fin 1) m"
    and "opts' = opts\<lparr>haptic_magnitude := m\<rparr>" and "err' = err"
  using assms
  by (auto simp: magnitude_option_def TakeValue_def Let_def split: list.splits prod.splits if_splits)

lemma duration_option_Inr:
  assumes "duration_option a rest opts err = Inr (rest', opts', err')"
  obtains v d where "rest = v # rest'"
    and "ParseNumber from_chars_int v (haptic_duration_ms opts) = (True, d)"
    and "1 \<le> d" and "d \<le> 1000"
    and "opts' = opts\<lparr>haptic_duration_ms := d\<rparr>" and "err' = err"
  using assms
  by (auto simp: duration_option_def TakeValue_def Let_def split: list.splits prod.splits if_splits)

lemma directory_option_Inr:
  assumes "directory_option a rest opts err = Inr (rest', opts', err')"
  obtains v where "rest = v # rest'" and "v \<noteq> []"
    and "opts' = opts\<lparr>config_directory := v\<rparr>" and "err' = err"
  using assms
  by (auto simp: directory_option_def TakeValue_def Let_def split: list.splits prod.splits if_splits)

lemma parse_argument_Inr:
  assumes "parse_argument a rest opts err = Inr (rest', opts', err')"
  shows "(rest' = rest \<and> opts' = opts\<lparr>debug_level := debug_level opts + 1\<rparr> \<and> err' = err) \<or>
         magnitude_option a rest opts err = Inr (rest', opts', err') \<or>
         duration_option a rest opts err = Inr (rest', opts', err') \<or>
         directory_option a rest opts err = Inr (rest', opts', err')"
  using assms unfolding parse_argument_def by (simp split: if_split_asm)

lemma parse_argument_shorter:
  "parse_argument a rest opts err = Inr (rest', opts', err') \<Longrightarrow> length rest' \<le> length rest"
  by (drule parse_argument_Inr) (auto elim!: magnitude_option_Inr duration_option_Inr directory_option_Inr)

function parse_arguments :: "string list \<Rightarrow> options \<Rightarrow> string \<Rightarrow> parse_outcome" where
  "parse_arguments [] opts error = (kSuccess, opts, error)"
| "parse_arguments (argument # rest) opts error =
     (case parse_argument argument rest opts error of
        Inl outcome \<Rightarrow> outcome
      | Inr (rest', opts', error') \<Rightarrow> parse_arguments rest' opts' error')"
  by pat_completeness auto

termination
  by (relation "measure (\<lambda>(as, _, _). length as)") (auto dest!: parse_argument_shorter[OF sym] simp: less_Suc_eq_le dest: parse_argument_shorter)

text \<open>\<open>ParseOptions\<close> on pointers that may be null (\<open>None\<close>).\<close>

definition ParseOptions :: "string list \<Rightarrow> options option \<Rightarrow> string option \<Rightarrow>
    ParseResult \<times> options option \<times> string option" where
  "ParseOptions arguments options error =
     (case (options, error) of
        (Some opts, Some err) \<Rightarrow>
          (case parse_arguments arguments opts err of (r, opts', err') \<Rightarrow> (r, Some opts', Some err'))
      | _ \<Rightarrow> (kError, options, error))"

end
