(* ===== verification/Options_Props.thy ===== *)
theory Options_Props
  imports Options
begin

text \<open>
  What \<^verbatim>\<open>ParseOptions\<close> promises: ranges of the accepted values, the reading of every well-formed
  command line, and the texts of its errors.
\<close>

section \<open>Accepted values are in range\<close>

definition options_in_range :: "options \<Rightarrow> bool" where
  "options_in_range opts \<longleftrightarrow>
     isfinite (haptic_magnitude opts) \<and> \<not> fp_less (haptic_magnitude opts) (Fin 0) \<and>
     \<not> fp_less (Fin 1) (haptic_magnitude opts) \<and>
     1 \<le> haptic_duration_ms opts \<and> haptic_duration_ms opts \<le> 1000"

lemma default_in_range: "options_in_range default_options"
  by (simp add: options_in_range_def default_options_def isfinite_def)

lemma parse_argument_in_range:
  assumes "parse_argument a rest opts err = Inr (rest', opts', err')" and "options_in_range opts"
  shows "options_in_range opts'"
  using parse_argument_Inr[OF assms(1)] assms(2)
  by (auto simp: options_in_range_def elim!: magnitude_option_Inr duration_option_Inr directory_option_Inr)

lemma parse_argument_Inl:
  "parse_argument a rest opts err = Inl (r, opts', err') \<Longrightarrow> r \<noteq> kSuccess"
  unfolding parse_argument_def magnitude_option_def duration_option_def directory_option_def TakeValue_def
  by (simp add: Let_def split: if_split_asm list.splits prod.splits)

lemma parse_arguments_in_range:
  "parse_arguments arguments opts err = (kSuccess, opts', err') \<Longrightarrow> options_in_range opts \<Longrightarrow>
   options_in_range opts'"
proof (induction arguments opts err rule: parse_arguments.induct)
  case (2 argument rest opts err)
  then show ?case
    by (auto split: sum.splits dest: parse_argument_Inl parse_argument_in_range)
qed simp

section \<open>Well-formed command lines\<close>

text \<open>Decimal numerals.\<close>

fun show_nat :: "nat \<Rightarrow> string" where
  "show_nat n = (if n < 10 then [char_of (48 + n)] else show_nat (n div 10) @ [char_of (48 + n mod 10)])"

declare show_nat.simps [simp del]

lemma digit_char:
  assumes "n < 10"
  shows "is_digit (char_of (48 + n))" and "digit_value (char_of (48 + n)) = int n"
    and "char_of (48 + n) \<noteq> CHR ''-''"
proof -
  have m: "(of_char (char_of (48 + n :: nat)) :: nat) = 48 + n" using assms by simp
  show "is_digit (char_of (48 + n))" unfolding is_digit_def m using assms by simp
  have "(of_char (char_of (48 + n :: nat)) :: int) = int (of_char (char_of (48 + n :: nat)) :: nat)"
    by (simp only: of_nat_of_char)
  then show "digit_value (char_of (48 + n)) = int n" unfolding digit_value_def m by simp
  show "char_of (48 + n) \<noteq> CHR ''-''"
  proof
    assume eq: "char_of (48 + n) = CHR ''-''"
    show False using m unfolding eq by simp
  qed
qed

lemma digits_value_snoc: "digits_value (ds @ [c]) = 10 * digits_value ds + digit_value c"
  by (simp add: digits_value_def)

lemma show_nat_digits:
  "(\<forall>c \<in> set (show_nat n). is_digit c) \<and> digits_value (show_nat n) = int n \<and>
   (\<exists>c cs. show_nat n = c # cs \<and> c \<noteq> CHR ''-'')"
proof (induction n rule: show_nat.induct)
  case (1 n)
  show ?case
  proof (cases "n < 10")
    case True
    then show ?thesis
      using digit_char[OF True] by (simp add: show_nat.simps[of n] digits_value_def)
  next
    case False
    have "int (n mod 10) + 10 * int (n div 10) = int n" by presburger
    with 1[OF False] digit_char[of "n mod 10"] show ?thesis
      by (simp add: show_nat.simps[of n] False digits_value_snoc) (force)
  qed
qed

lemma from_chars_show_nat:
  assumes "n < 2 ^ 31"
  shows "from_chars_int (show_nat n) = Some (int n, [])"
proof -
  obtain c cs where s: "show_nat n = c # cs" "c \<noteq> CHR ''-''" using show_nat_digits by blast
  have d: "takeWhile is_digit (show_nat n) = show_nat n" "dropWhile is_digit (show_nat n) = []"
    using show_nat_digits[of n] by (simp_all add: takeWhile_eq_all_conv)
  have m: "take_minus (show_nat n) = (False, show_nat n)" using s by (simp add: take_minus_def)
  have "int32 (int n)" using assms by (simp add: int32_def)
  then show ?thesis using d s(1) show_nat_digits[of n]
    unfolding from_chars_int_def m prod.case Let_def d by simp
qed

text \<open>
  An option of the command line, with the name it is given by: its words, when they are
  well-formed and what they do to the options.
\<close>

datatype command_option =
    Debug string
  | Magnitude string string rat
  | Duration string nat
  | Directory string string

fun option_words :: "command_option \<Rightarrow> string list" where
  "option_words (Debug nm) = [nm]"
| "option_words (Magnitude nm val x) = [nm, val]"
| "option_words (Duration nm n) = [nm, show_nat n]"
| "option_words (Directory nm dir) = [nm, dir]"

fun well_formed_option :: "command_option \<Rightarrow> bool" where
  "well_formed_option (Debug nm) \<longleftrightarrow> is_option nm ''-d'' ''--debug''"
| "well_formed_option (Magnitude nm val x) \<longleftrightarrow>
     is_option nm ''-m'' ''--magnitude'' \<and> from_chars_double val = Some (Fin x, []) \<and> 0 \<le> x \<and> x \<le> 1"
| "well_formed_option (Duration nm n) \<longleftrightarrow> is_option nm ''-D'' ''--duration-ms'' \<and> 1 \<le> n \<and> n \<le> 1000"
| "well_formed_option (Directory nm dir) \<longleftrightarrow> is_option nm ''-c'' ''--config-directory'' \<and> dir \<noteq> []"

fun option_effect :: "command_option \<Rightarrow> options \<Rightarrow> options" where
  "option_effect (Debug nm) opts = opts\<lparr>debug_level := debug_level opts + 1\<rparr>"
| "option_effect (Magnitude nm val x) opts = opts\<lparr>haptic_magnitude := Fin x\<rparr>"
| "option_effect (Duration nm n) opts = opts\<lparr>haptic_duration_ms := int n\<rparr>"
| "option_effect (Directory nm dir) opts = opts\<lparr>config_directory := dir\<rparr>"

lemma parse_well_formed_option:
  assumes "well_formed_option c"
  obtains nm rest' where "option_words c @ rest = nm # rest'"
    and "parse_argument nm rest' opts err = Inr (rest, option_effect c opts, err)"
proof -
  have "\<exists>nm vals. option_words c = nm # vals \<and>
          parse_argument nm (vals @ rest) opts err = Inr (rest, option_effect c opts, err)"
  proof (cases c)
    case (Debug nm)
    then show ?thesis using assms by (auto simp: is_option_def parse_argument_def)
  next
    case (Magnitude nm val x)
    have "magnitude_option nm (val # rest) opts err = Inr (rest, option_effect c opts, err)"
      using assms Magnitude
      by (simp add: magnitude_option_def TakeValue_def ParseNumber_def isfinite_def)
    moreover have "parse_argument nm (val # rest) opts err = magnitude_option nm (val # rest) opts err"
      using assms Magnitude by (auto simp: is_option_def parse_argument_def)
    ultimately show ?thesis using Magnitude by simp
  next
    case (Duration nm n)
    have "duration_option nm (show_nat n # rest) opts err = Inr (rest, option_effect c opts, err)"
      using assms Duration
      by (simp add: duration_option_def TakeValue_def ParseNumber_def from_chars_show_nat)
    moreover have "parse_argument nm (show_nat n # rest) opts err = duration_option nm (show_nat n # rest) opts err"
      using assms Duration by (auto simp: is_option_def parse_argument_def)
    ultimately show ?thesis using Duration by simp
  next
    case (Directory nm dir)
    have "directory_option nm (dir # rest) opts err = Inr (rest, option_effect c opts, err)"
      using assms Directory by (simp add: directory_option_def TakeValue_def)
    moreover have "parse_argument nm (dir # rest) opts err = directory_option nm (dir # rest) opts err"
      using assms Directory by (auto simp: is_option_def parse_argument_def)
    ultimately show ?thesis using Directory by simp
  qed
  then show thesis using that by auto
qed

lemma parse_well_formed:
  "list_all well_formed_option cs \<Longrightarrow>
   parse_arguments (concat (map option_words cs)) opts err = (kSuccess, fold option_effect cs opts, err)"
proof (induction cs arbitrary: opts)
  case (Cons c cs)
  have "well_formed_option c" using Cons.prems by simp
  then obtain nm rest' where w: "option_words c @ concat (map option_words cs) = nm # rest'"
    and p: "parse_argument nm rest' opts err = Inr (concat (map option_words cs), option_effect c opts, err)"
    by (rule parse_well_formed_option)
  have "parse_arguments (concat (map option_words (c # cs))) opts err =
        parse_arguments (nm # rest') opts err"
    unfolding list.map concat.simps w ..
  also have "\<dots> = parse_arguments (concat (map option_words cs)) (option_effect c opts) err"
    by (simp only: parse_arguments.simps(2) p sum.case prod.case)
  also have "\<dots> = (kSuccess, fold option_effect cs (option_effect c opts), err)"
    by (rule Cons.IH) (use Cons.prems in simp)
  finally show ?case by simp
qed simp

text \<open>A command line for the examples.\<close>

definition sample_options :: "command_option list" where
  "sample_options = [Debug ''-d'', Duration ''-D'' 250, Magnitude ''-m'' ''0.5'' (1 / 2)]"

lemma sample_double: "from_chars_double ''0.5'' = Some (Fin (1 / 2), [])"
proof -
  have "fp_of_rat double_format (1 / 2) = Fin (1 / 2)" using fp_of_rat_dyadic[of 1 1] by simp
  then show ?thesis
    by (simp add: from_chars_double_def take_minus_def starts_def is_digit_def digits_value_def
        digit_value_def take_exponent_def power_int_def lower_def isfinite_def)
qed

lemma sample_well_formed: "list_all well_formed_option sample_options"
  by (simp add: sample_options_def is_option_def sample_double)

lemma sample_words:
  "concat (map option_words sample_options) = [''-d'', ''-D'', ''250'', ''-m'', ''0.5'']"
  by (simp add: sample_options_def show_nat.simps char_of_def bit_0)

text \<open>
  When the command line is accepted, the haptic magnitude is a finite number of the interval
  from 0 to 1 and the duration is between 1 and 1000 milliseconds.
\<close>

theorem accepted_options_are_in_range:
  assumes "ParseOptions arguments (Some default_options) (Some err) = (kSuccess, Some opts, err')"
  shows "\<exists>m. haptic_magnitude opts = Fin m \<and> 0 \<le> m \<and> m \<le> 1 \<and>
             1 \<le> haptic_duration_ms opts \<and> haptic_duration_ms opts \<le> 1000"
proof -
  have "options_in_range opts"
    using assms parse_arguments_in_range[OF _ default_in_range]
    by (auto simp: ParseOptions_def split: prod.splits)
  then show ?thesis
    by (cases "haptic_magnitude opts") (auto simp: options_in_range_def isfinite_def)
qed

theorem accepted_options_are_in_range_witness:
  "let arguments = [''-d'', ''-D'', ''250'', ''-m'', ''0.5''];
       opts = fold option_effect sample_options default_options
   in ParseOptions arguments (Some default_options) (Some []) = (kSuccess, Some opts, Some []) \<and>
      haptic_magnitude opts = Fin (1 / 2) \<and> haptic_duration_ms opts = 250 \<and>
      (\<exists>m. haptic_magnitude opts = Fin m \<and> 0 \<le> m \<and> m \<le> 1 \<and>
           1 \<le> haptic_duration_ms opts \<and> haptic_duration_ms opts \<le> 1000)"
proof -
  let ?opts = "fold option_effect sample_options default_options"
  have p: "ParseOptions [''-d'', ''-D'', ''250'', ''-m'', ''0.5''] (Some default_options) (Some []) =
           (kSuccess, Some ?opts, Some [])"
    using parse_well_formed[OF sample_well_formed, of default_options "[]"]
    unfolding sample_words ParseOptions_def by (simp only: option.case prod.case)
  have "haptic_magnitude ?opts = Fin (1 / 2)" "haptic_duration_ms ?opts = 250"
    by (simp_all add: sample_options_def)
  with p accepted_options_are_in_range[OF p] show ?thesis by (simp only: Let_def simp_thms)
qed

text \<open>
  C38: every well-formed command line is accepted, and the options take effect in the order they
  are given, a later value of an option replacing an earlier one and every debug flag raising
  the level by one; durations are read back from their decimal numerals.
\<close>

theorem well_formed_command_lines_are_accepted:
  assumes "list_all well_formed_option cs"
  shows "ParseOptions (concat (map option_words cs)) (Some opts) (Some err) =
         (kSuccess, Some (fold option_effect cs opts), Some err)"
  using parse_well_formed[OF assms, of opts err] by (simp add: ParseOptions_def)

theorem well_formed_command_lines_are_accepted_witness:
  "ParseOptions [''-d'', ''-D'', ''250'', ''-m'', ''0.5''] (Some default_options) (Some []) =
     (kSuccess, Some \<lparr>debug_level = 1, haptic_magnitude = Fin (1 / 2), haptic_duration_ms = 250,
                       config_directory = []\<rparr>, Some [])"
proof -
  have "fold option_effect sample_options default_options =
        \<lparr>debug_level = 1, haptic_magnitude = Fin (1 / 2), haptic_duration_ms = 250, config_directory = []\<rparr>"
    by (simp add: sample_options_def default_options_def)
  then show ?thesis
    using well_formed_command_lines_are_accepted[OF sample_well_formed, of default_options "[]"]
    unfolding sample_words by (simp only:)
qed

section \<open>Errors\<close>

lemma parse_argument_error:
  assumes "parse_argument a rest opts err = Inl (kError, opts', err')"
  shows "err' \<in> {magnitude_error, duration_error, directory_error, ''unknown option: '' @ a}"
  using assms
  unfolding parse_argument_def magnitude_option_def duration_option_def directory_option_def TakeValue_def
  by (simp add: Let_def split: if_split_asm list.splits prod.splits)

lemma parse_arguments_error:
  "parse_arguments arguments opts err = (kError, opts', err') \<Longrightarrow>
   err' \<in> {magnitude_error, duration_error, directory_error} \<union> (\<lambda>a. ''unknown option: '' @ a) ` set arguments"
proof (induction arguments opts err rule: parse_arguments.induct)
  case (2 argument rest opts err)
  show ?case
  proof (cases "parse_argument argument rest opts err")
    case (Inl outcome)
    then show ?thesis using 2(2) parse_argument_error[of argument rest opts err opts' err'] by auto
  next
    case (Inr st)
    obtain rest' opts1 err1 where st: "st = (rest', opts1, err1)" by (cases st)
    have "set rest' \<subseteq> set rest"
      using parse_argument_Inr[OF Inr[unfolded st]]
      by (auto elim!: magnitude_option_Inr duration_option_Inr directory_option_Inr)
    then show ?thesis using 2(1)[OF Inr[unfolded st] refl refl] 2(2) Inr st by auto
  qed
qed simp

text \<open>
  C39: a rejected command line is reported with the message of the offending option or as an
  unknown option; the message about a missing value that \<open>TakeValue\<close> stores never reaches the caller,
  which overwrites it.
\<close>

theorem missing_value_is_never_reported:
  assumes "ParseOptions arguments (Some opts) (Some err) = (kError, opts', Some err')"
  shows "err' \<in> {magnitude_error, duration_error, directory_error} \<union>
                 (\<lambda>a. ''unknown option: '' @ a) ` set arguments \<and>
         (\<forall>nm. err' \<noteq> ''missing value for '' @ nm)"
proof -
  have e: "err' \<in> {magnitude_error, duration_error, directory_error} \<union>
                  (\<lambda>a. ''unknown option: '' @ a) ` set arguments"
    using assms parse_arguments_error by (auto simp: ParseOptions_def split: prod.splits)
  then have "take 3 err' \<in> {''hap'', ''con'', ''unk''}"
    by (auto simp: magnitude_error_def duration_error_def directory_error_def)
  then have "\<forall>nm. err' \<noteq> ''missing value for '' @ nm" by auto
  with e show ?thesis by blast
qed

theorem missing_value_is_never_reported_witness:
  "let err' = duration_error
   in ParseOptions [''-D''] (Some default_options) (Some []) = (kError, Some default_options, Some err') \<and>
      (\<forall>nm. err' \<noteq> ''missing value for '' @ nm)"
proof -
  have p: "ParseOptions [''-D''] (Some default_options) (Some []) =
           (kError, Some default_options, Some duration_error)"
    by (simp add: ParseOptions_def parse_argument_def is_option_def duration_option_def TakeValue_def)
  with missing_value_is_never_reported[OF p] show ?thesis by (simp only: Let_def simp_thms)
qed

end
