(* ===== verification/Haptics_Props.thy ===== *)
theory Haptics_Props
  imports Haptics Touchpad_Props Config_Props Options_Props
begin

text \<open>
  What the haptics promise: the effect that is uploaded, that starting them never fails on a
  validated configuration, and that a tick is played by the motor on the finger's side.
\<close>

section \<open>Uploading\<close>

definition rumble :: "int \<Rightarrow> int \<Rightarrow> ff_effect" where
  "rumble strong time_ms =
     \<lparr>ff_type = FF_RUMBLE, ff_id = -1, ff_strong_magnitude = strong, ff_weak_magnitude = 0,
      ff_length = time_ms, ff_delay = 0\<rparr>"

lemma UploadEffect_valid:
  assumes "motor_fd m w \<noteq> -1" and "0 \<le> x" and "x \<le> 1" and "1 \<le> time_ms" and "time_ms \<le> 1000"
  obtains s r where "0 \<le> s" and "s \<le> 65535" and "floor (x * 65535) \<le> s" and "s \<le> ceiling (x * 65535)"
    and "UploadEffect K m (Fin x) time_ms w =
      (Inr (if ret r = -1 then -1 else fill_effect_id (payload r)),
       w\<lparr>trace := trace w @ [(SysIoctl (motor_fd m w) (EVIOCSFF (rumble s time_ms)), r)]\<rparr>)"
proof -
  obtain s where s: "strong_magnitude (Fin x) = Inr s" "0 \<le> s" "s \<le> 65535"
    "floor (x * 65535) \<le> s" "s \<le> ceiling (x * 65535)"
    by (rule strong_magnitude_range [OF assms(2,3)])
  show thesis
    by (rule that [of s "K (trace w) (SysIoctl (motor_fd m w) (EVIOCSFF (rumble s time_ms)))"])
      (use assms s in \<open>simp_all add: UploadEffect_def isfinite_def rumble_def to_u16_id\<close>)
qed

lemma UploadEffect_invalid:
  assumes "motor_fd m w = -1 \<or> \<not> isfinite v \<or> fp_less v (Fin 0) \<or> fp_less (Fin 1) v \<or>
    time_ms < 1 \<or> 1000 < time_ms"
  shows "UploadEffect K m v time_ms w = (Inr (-1), w)"
  using assms by (auto simp: UploadEffect_def)

text \<open>
  Uploading an effect. On an open motor and with a magnitude between 0 and 1 and a duration
  between 1 and 1000 milliseconds, one rumble effect of that duration is uploaded whose 16-bit
  strength is the magnitude times 65535 rounded down or up, hence the full range from off to
  the maximum, and the kernel's identifier is returned; otherwise nothing is sent and \<open>-1\<close> is
  returned. In no case does the conversion of the magnitude overflow.
\<close>

theorem UploadEffect_correct:
  "if motor_fd m w = -1 \<or> \<not> isfinite v \<or> fp_less v (Fin 0) \<or> fp_less (Fin 1) v \<or>
      time_ms < 1 \<or> 1000 < time_ms
   then UploadEffect K m v time_ms w = (Inr (-1), w)
   else \<exists>x s r. v = Fin x \<and> 0 \<le> s \<and> s \<le> 65535 \<and> floor (x * 65535) \<le> s \<and> s \<le> ceiling (x * 65535) \<and>
     UploadEffect K m v time_ms w =
       (Inr (if ret r = -1 then -1 else fill_effect_id (payload r)),
        w\<lparr>trace := trace w @ [(SysIoctl (motor_fd m w) (EVIOCSFF (rumble s time_ms)), r)]\<rparr>)"
proof (cases "motor_fd m w = -1 \<or> \<not> isfinite v \<or> fp_less v (Fin 0) \<or> fp_less (Fin 1) v \<or>
      time_ms < 1 \<or> 1000 < time_ms")
  case True
  show ?thesis unfolding if_P [OF True] by (rule UploadEffect_invalid [OF True])
next
  case False
  then obtain x where x: "v = Fin x" "0 \<le> x" "x \<le> 1" by (cases v) (auto simp: isfinite_def)
  obtain s r where "0 \<le> s" "s \<le> 65535" "floor (x * 65535) \<le> s" "s \<le> ceiling (x * 65535)"
    "UploadEffect K m (Fin x) time_ms w =
      (Inr (if ret r = -1 then -1 else fill_effect_id (payload r)),
       w\<lparr>trace := trace w @ [(SysIoctl (motor_fd m w) (EVIOCSFF (rumble s time_ms)), r)]\<rparr>)"
    by (rule UploadEffect_valid [of m w x time_ms K]) (use False x in auto)
  then show ?thesis unfolding if_not_P [OF False] unfolding x(1) by blast
qed

section \<open>Starting\<close>

text \<open>The identifiers a manager holds are those of successful uploads.\<close>

definition wf_manager :: "ff_manager \<Rightarrow> bool" where
  "wf_manager mgr \<longleftrightarrow>
     (\<forall>e i. left_driver_fflib mgr e = Some i \<or> right_driver_fflib mgr e = Some i \<longrightarrow> 0 \<le> i \<and> i < 2 ^ 15)"

lemma fill_effect_id_less: "fill_effect_id p < 2 ^ 15"
proof (cases p)
  case (EffectId i)
  have "sint (word_of_int i :: 16 word) < 2 ^ (LENGTH(16) - 1)" by (rule sint_lt)
  then show ?thesis by (simp add: fill_effect_id_def EffectId)
qed (simp_all add: fill_effect_id_def)

lemma CloseFDIfValid_returns: "returns (\<lambda>_. True) (CloseFDIfValid K m)"
  by (rule returnsI) (simp add: CloseFDIfValid_def)

lemma FFDriver_Init_returns: "returns (\<lambda>_. True) (FFDriver_Init K m path)"
  unfolding FFDriver_Init_def
  by (intro returns_bind [OF CloseFDIfValid_returns] returns_bind [OF returns_sys] returnsI)
    (auto simp: set_gain_def Let_def io_bind_def sys_def)

lemma UploadEffect_returns: "returns (\<lambda>i. i < 2 ^ 15) (UploadEffect K m v time_ms)"
proof (rule returnsI)
  fix w
  show "\<exists>i w'. UploadEffect K m v time_ms w = (Inr i, w') \<and> i < 2 ^ 15"
  proof (cases "motor_fd m w = -1 \<or> \<not> isfinite v \<or> fp_less v (Fin 0) \<or> fp_less (Fin 1) v \<or>
      time_ms < 1 \<or> 1000 < time_ms")
    case True
    then show ?thesis using UploadEffect_invalid [of m w v time_ms K] by simp
  next
    case False
    then obtain x where x: "v = Fin x" "0 \<le> x" "x \<le> 1" by (cases v) (auto simp: isfinite_def)
    show ?thesis
      by (rule UploadEffect_valid [of m w x time_ms K]) (use False x fill_effect_id_less in auto)
  qed
qed

lemma RegisterFF_returns:
  assumes "wf_manager mgr"
  shows "returns (\<lambda>mgr'. wf_manager mgr' \<and> touch_max_x mgr' = touch_max_x mgr \<and>
      touch_rotation mgr' = touch_rotation mgr) (RegisterFF K event v length_ms mgr)"
  unfolding RegisterFF_def Let_def
  by (intro returns_bind [OF UploadEffect_returns] returns_bind [OF UploadEffect_returns])
    (use assms in \<open>auto simp: wf_manager_def\<close>)

lemma TouchFFManager_new_returns:
  assumes "0 < max_x" and "0 < max_y" and "isfinite v" and "\<not> fp_less v (Fin 0)" and "\<not> fp_less (Fin 1) v"
    and "1 \<le> ms" and "ms \<le> 1000" and "upright_width max_x max_y rot = Some width"
  shows "returns (\<lambda>mgr. wf_manager mgr \<and> touch_max_x mgr = width \<and> touch_rotation mgr = rot)
    (TouchFFManager_new K max_x max_y rot v ms)"
proof -
  let ?m0 = "\<lparr>left_driver_fflib = Map.empty, right_driver_fflib = Map.empty, touch_max_x = width,
    touch_rotation = rot\<rparr>"
  have "returns (\<lambda>mgr. wf_manager mgr \<and> touch_max_x mgr = width \<and> touch_rotation mgr = rot)
      (RegisterFF K FingerDown v ms ?m0)"
    using RegisterFF_returns [of ?m0 K FingerDown v ms] by (simp add: wf_manager_def)
  then show ?thesis
    using assms unfolding TouchFFManager_new_def
    by (auto intro!: returns_bind [OF FFDriver_Init_returns])
qed

text \<open>
  With hardware that was validated and options that were accepted on the command line, the
  haptics of the keyboard worker start without an exception, whatever the kernel answers, with
  missing motors or failing uploads included; the identifiers they keep are 15-bit numbers.
\<close>

theorem haptics_start:
  assumes "LoadHardwareConfig path row = Inr hw"
    and "ParseOptions arguments (Some default_options) (Some message) = (kSuccess, Some opts, message')"
  shows "\<exists>mgr w'. TouchFFManager_new K (res_x hw) (res_y hw) (rotation hw) (haptic_magnitude opts)
      (haptic_duration_ms opts) w = (Inr mgr, w') \<and> wf_manager mgr"
proof -
  have "options_in_range opts"
    using assms(2) parse_arguments_in_range [OF _ default_in_range]
    by (auto simp: ParseOptions_def split: prod.splits)
  moreover have "Validate hw = Inr ()"
    using assms(1) by (auto simp: LoadHardwareConfig_def split: option.splits)
  then have "0 < res_x hw" "0 < res_y hw" "IsSupportedRotation (rotation hw)"
    by (auto simp: Validate_def split: if_splits)
  moreover from this(3) obtain width where "upright_width (res_x hw) (res_y hw) (rotation hw) = Some width"
    by (auto simp: IsSupportedRotation_def upright_width_def)
  ultimately show ?thesis
    using returnsD [OF TouchFFManager_new_returns, of "res_x hw" "res_y hw" "haptic_magnitude opts"
        "haptic_duration_ms opts" "rotation hw" width K w]
    by (auto simp: options_in_range_def)
qed

section \<open>Ticks\<close>

text \<open>
  The motor for a point of the panel: the left one iff the point is in the left half of the
  surface as the user sees it, that is, after the rotation the touchpad applies as well.
\<close>

definition near_motor :: "int \<Rightarrow> int \<Rightarrow> int \<Rightarrow> int \<Rightarrow> int \<Rightarrow> motor" where
  "near_motor max_x max_y rot x y =
     (let panel = tp_initial 0 max_x 0 max_y rot
      in if fst (rotated panel x y) < fst (tp_size panel) div 2 then LeftMotor else RightMotor)"

definition motor_lib :: "ff_manager \<Rightarrow> motor \<Rightarrow> TouchKeyboardEvent \<rightharpoonup> int" where
  "motor_lib mgr m = (case m of LeftMotor \<Rightarrow> left_driver_fflib mgr | RightMotor \<Rightarrow> right_driver_fflib mgr)"

lemma upright_width_size:
  "upright_width max_x max_y rot = Some width \<Longrightarrow> fst (tp_size (tp_initial 0 max_x 0 max_y rot)) = width"
  by (auto simp: upright_width_def tp_size_def tp_initial_def split: if_splits)

lemma touch_side_rotated:
  assumes "upright_width max_x max_y rot = Some width"
    and "touch_max_x mgr = width" and "touch_rotation mgr = rot"
  shows "touch_side mgr x y = fst (rotated (tp_initial 0 max_x 0 max_y rot) x y)"
  using assms by (auto simp: upright_width_def touch_side_def rotated_def tp_initial_def split: if_splits)

lemma EventTriggered_near:
  assumes "upright_width max_x max_y rot = Some width" and "0 < width"
    and "touch_max_x mgr = width" and "touch_rotation mgr = rot"
  shows "EventTriggered K mgr event x y =
    (let m = near_motor max_x max_y rot x y in PlayEffectOfEvent K event m (motor_lib mgr m))"
proof -
  have "c_quot width 2 = width div 2" using assms(2) by (simp add: c_quot_pos)
  then show ?thesis
    by (simp add: EventTriggered_def touch_side_rotated [OF assms(1,3,4)] assms(3) near_motor_def
        upright_width_size [OF assms(1)] motor_lib_def Let_def)
qed

lemma PlayEffectOfEvent_run:
  assumes "\<forall>i. lib event = Some i \<longrightarrow> 0 \<le> i"
  shows "PlayEffectOfEvent K event m lib w =
    (Inr (), case lib event of
       None \<Rightarrow> w
     | Some i \<Rightarrow> if motor_fd m w = -1 then w
         else let c = SysWrite (motor_fd m w) (input_ev EV_FF (to_u16 i) 1)
              in w\<lparr>trace := trace w @ [(c, K (trace w) c)]\<rparr>)"
  using assms
  by (auto simp: PlayEffectOfEvent_def PlayEffect_def io_bind_def sys_def Let_def split: option.splits)

text \<open>
  C40: a finger that goes down ticks the motor on its side. After a successful start, the event
  for a finger at a point of the panel writes at most one play request, with the identifier
  of the uploaded effect, to the motor of the half in which the user sees the finger, for all
  four rotations and in agreement with the rotation of the touchpad; if that motor is missing
  or has no effect nothing happens, and in particular the other motor stays silent.
\<close>

theorem tick_on_the_near_side:
  assumes "TouchFFManager_new K max_x max_y rot v ms w0 = (Inr mgr, w1)"
    and "EventTriggered K mgr FingerDown x y w = (res, w')"
  shows "let m = near_motor max_x max_y rot x y in res = Inr () \<and>
    w' = (case motor_lib mgr m FingerDown of
            None \<Rightarrow> w
          | Some i \<Rightarrow> if motor_fd m w = -1 then w
              else let c = SysWrite (motor_fd m w) (input_ev EV_FF i 1)
                   in w\<lparr>trace := trace w @ [(c, K (trace w) c)]\<rparr>)"
proof -
  let ?m = "near_motor max_x max_y rot x y"
  from assms(1) have ok: "0 < max_x" "0 < max_y" "isfinite v" "\<not> fp_less v (Fin 0)"
    "\<not> fp_less (Fin 1) v" "1 \<le> ms" "ms \<le> 1000"
    by (auto simp: TouchFFManager_new_def split: if_splits)
  from assms(1) obtain width where width: "upright_width max_x max_y rot = Some width"
    by (cases "upright_width max_x max_y rot") (auto simp: TouchFFManager_new_def split: if_splits)
  have mgr: "wf_manager mgr" "touch_max_x mgr = width" "touch_rotation mgr = rot"
    using returnsD [OF TouchFFManager_new_returns [OF ok width], of K w0] assms(1) by auto
  have "0 < width" using width ok by (auto simp: upright_width_def split: if_splits)
  note near = EventTriggered_near [OF width this mgr(2,3), of K FingerDown x y]
  have lib: "0 \<le> i \<and> i < 2 ^ 15" if "motor_lib mgr ?m FingerDown = Some i" for i
    using mgr(1) that by (auto simp: wf_manager_def motor_lib_def split: motor.splits)
  then have u16: "to_u16 i = i" if "motor_lib mgr ?m FingerDown = Some i" for i
    using that by (intro to_u16_id) force+
  have "(res, w') = PlayEffectOfEvent K FingerDown ?m (motor_lib mgr ?m) w"
    using assms(2) unfolding near by (simp add: Let_def)
  also have "\<dots> = (Inr (), case motor_lib mgr ?m FingerDown of
       None \<Rightarrow> w
     | Some i \<Rightarrow> if motor_fd ?m w = -1 then w
         else let c = SysWrite (motor_fd ?m w) (input_ev EV_FF (to_u16 i) 1)
              in w\<lparr>trace := trace w @ [(c, K (trace w) c)]\<rparr>)"
    using lib by (intro PlayEffectOfEvent_run) blast
  finally show ?thesis using u16 unfolding Let_def by (auto split: option.splits)
qed

text \<open>A kernel with both motors, which numbers the uploaded effects by the calls made so far.\<close>

definition motor_kernel :: kernel where
  "motor_kernel tr c =
     \<lparr>ret = (case c of SysOpen _ _ \<Rightarrow> int (length tr) + 3 | SysWrite _ _ \<Rightarrow> sizeof_input_event | _ \<Rightarrow> 0),
      err = 0, payload = EffectId (int (length tr))\<rparr>"

lemma haptics_start_conditions:
  "LoadHardwareConfig [] (Inr (Some (sample_hw 90))) = Inr (sample_hw 90)"
  "ParseOptions [] (Some default_options) (Some []) = (kSuccess, Some default_options, Some [])"
  by (simp_all add: LoadHardwareConfig_def Validate_def sample_hw_def isfinite_def
      IsSupportedRotation_def ParseOptions_def)

theorem haptics_start_witness:
  "\<exists>mgr w'. TouchFFManager_new motor_kernel (res_x (sample_hw 90)) (res_y (sample_hw 90)) 90
      (haptic_magnitude default_options) (haptic_duration_ms default_options) proc_initial =
      (Inr mgr, w') \<and> wf_manager mgr"
  using haptics_start [OF haptics_start_conditions, of motor_kernel proc_initial]
  by (simp add: sample_hw_def)

lemma full_magnitude: "strong_magnitude (Fin 1) = Inr 65535"
  by (rule strong_magnitude_range [of 1]) simp_all

lemma single_one: "fp_of_rat single_format 1 = Fin 1"
  using single_between [of 1 1 1] by force

text \<open>The start on a panel of 1000 x 500 units that is rotated by 90 degrees.\<close>

lemma sample_start:
  "\<exists>mgr w1. TouchFFManager_new motor_kernel 1000 500 90 (Fin 1) 12 proc_initial = (Inr mgr, w1) \<and>
     right_driver_fflib mgr FingerDown = Some 5 \<and> right_fd w1 = 5"
  by (simp add: TouchFFManager_new_def upright_width_def FFDriver_Init_def CloseFDIfValid_def
      motor_fd_def set_motor_fd_def proc_initial_def set_gain_def motor_kernel_def RegisterFF_def
      UploadEffect_def fp_convert_def single_one full_magnitude isfinite_def fill_effect_id_def Let_def)

theorem tick_on_the_near_side_witness:
  "\<exists>mgr w1 w' r. TouchFFManager_new motor_kernel 1000 500 90 (Fin 1) 12 proc_initial = (Inr mgr, w1) \<and>
     EventTriggered motor_kernel mgr FingerDown 10 20 w1 = (Inr (), w') \<and>
     trace w' = trace w1 @ [(SysWrite 5 (input_ev EV_FF 5 1), r)]"
proof -
  obtain mgr w1 where start: "TouchFFManager_new motor_kernel 1000 500 90 (Fin 1) 12 proc_initial = (Inr mgr, w1)"
    and lib: "right_driver_fflib mgr FingerDown = Some 5" and fd: "right_fd w1 = 5"
    using sample_start by blast
  obtain res w' where ev: "EventTriggered motor_kernel mgr FingerDown 10 20 w1 = (res, w')" by fastforce
  have near: "near_motor 1000 500 90 10 20 = RightMotor"
    by (simp add: near_motor_def rotated_def tp_initial_def tp_size_def)
  from tick_on_the_near_side [OF start ev] have "res = Inr ()"
    "\<exists>r. trace w' = trace w1 @ [(SysWrite 5 (input_ev EV_FF 5 1), r)]"
    unfolding near Let_def by (auto simp: motor_lib_def motor_fd_def lib fd)
  with start ev show ?thesis by blast
qed

text \<open>At full magnitude the strength is the maximum.\<close>

theorem UploadEffect_correct_witness:
  "\<exists>r w'. UploadEffect motor_kernel LeftMotor (Fin 1) 12 (proc_initial\<lparr>left_fd := 3\<rparr>) = (Inr 0, w') \<and>
     trace w' = [(SysIoctl 3 (EVIOCSFF (rumble 65535 12)), r)]"
proof -
  let ?w = "proc_initial\<lparr>left_fd := 3\<rparr>"
  obtain x s r where "(1 :: rat) = x" "0 \<le> s" "s \<le> 65535" "floor (x * 65535) \<le> s"
    and run: "UploadEffect motor_kernel LeftMotor (Fin 1) 12 ?w =
      (Inr (if ret r = -1 then -1 else fill_effect_id (payload r)),
       ?w\<lparr>trace := trace ?w @ [(SysIoctl (motor_fd LeftMotor ?w) (EVIOCSFF (rumble s 12)), r)]\<rparr>)"
    using UploadEffect_correct [of LeftMotor ?w "Fin 1" 12 motor_kernel]
    by (auto simp: motor_fd_def isfinite_def)
  then have "s = 65535" by auto
  moreover have "fst (UploadEffect motor_kernel LeftMotor (Fin 1) 12 ?w) = Inr 0"
    by (simp add: UploadEffect_def motor_fd_def isfinite_def full_magnitude motor_kernel_def
        proc_initial_def fill_effect_id_def)
  ultimately show ?thesis using run by (auto simp: motor_fd_def proc_initial_def)
qed

end
