(* ===== verification/Workers.thy ===== *)
theory Workers
  imports Keyboard_Worker Touchpad_Worker Haptics_Props "HOL-Library.Multiset"
begin

text \<open>
  The two workers as \<^verbatim>\<open>main\<close> starts them: the objects they construct, the run, and the
  destruction of the objects when the exception that ends it passes through. The last section
  shows that a worker closes every descriptor it has opened.
\<close>

section \<open>Construction and destruction\<close>

text \<open>An object that lives while \<open>m\<close> runs: its destructor runs however \<open>m\<close> ends.\<close>

definition io_finally :: "'a io \<Rightarrow> unit io \<Rightarrow> 'a io" where
  "io_finally m d w = (case m w of (r, w1) \<Rightarrow> (case d w1 of (_, w2) \<Rightarrow> (r, w2)))"

text \<open>What the constructors store: no descriptor, and no device.\<close>

definition UinputDevice_new :: "unit io" where
  "UinputDevice_new w = (Inr (), w\<lparr>uinput_fd := -1, device_created := False\<rparr>)"

definition EvdevSource_new :: "unit io" where
  "EvdevSource_new w = (Inr (), w\<lparr>source_fd := -1\<rparr>)"

definition FFDriver_new :: "motor \<Rightarrow> unit io" where
  "FFDriver_new m w = (Inr (), set_motor_fd m (-1) w)"

text \<open>The base classes are constructed in the order of their declaration and destroyed in reverse.\<close>

definition FakeDevice_new :: "unit io" where
  "FakeDevice_new = io_bind UinputDevice_new (\<lambda>_. EvdevSource_new)"

definition FakeDevice_destructor :: "kernel \<Rightarrow> unit io" where
  "FakeDevice_destructor K = io_bind (EvdevSource_destructor K) (\<lambda>_. UinputDevice_destructor K)"

definition kTouchSensorDevicePath :: string where
  "kTouchSensorDevicePath = ''/dev/halo_keyboard''"

definition keyboard_worker ::
  "kernel \<Rightarrow> hardware_config \<Rightarrow> options \<Rightarrow> string \<Rightarrow> (exn + layout_row) list \<Rightarrow>
     (int list \<times> int list) list \<Rightarrow> keyboard io" where
  "keyboard_worker K hw opts layout_path rows orders =
     io_bind (FFDriver_new LeftMotor) (\<lambda>_.
     io_bind (FFDriver_new RightMotor) (\<lambda>_.
     io_bind (TouchFFManager_new K (res_x hw) (res_y hw) (rotation hw)
                (haptic_magnitude opts) (haptic_duration_ms opts)) (\<lambda>haptics.
       io_finally
         (io_bind FakeDevice_new (\<lambda>_.
            io_finally
              (io_bind (io_lift (FakeKeyboard_new hw layout_path rows)) (\<lambda>kb.
                 kb_Run K haptics kTouchSensorDevicePath ''Halo Keyboard'' orders kb))
              (FakeDevice_destructor K)))
         (TouchFFManager_destructor K))))"

definition touchpad_worker ::
  "kernel \<Rightarrow> hardware_config \<Rightarrow> string \<Rightarrow> exn + region_row option \<Rightarrow>
     (nat \<Rightarrow> event_key list) list \<Rightarrow> touchpad io" where
  "touchpad_worker K hw region_path row all_orders =
     io_bind FakeDevice_new (\<lambda>_.
       io_finally
         (io_bind (io_lift (FakeTouchpad_new hw region_path row)) (\<lambda>(tp, width_mm, height_mm).
            touchpad_Run K kTouchSensorDevicePath ''Halo Keyboard Touchpad'' all_orders tp
              width_mm height_mm))
         (FakeDevice_destructor K))"

section \<open>Descriptors\<close>

fun opened_fds :: "syscall \<times> sysret \<Rightarrow> int multiset" where
  "opened_fds (SysOpen p f, r) = (if 0 \<le> ret r then {#ret r#} else {#})"
| "opened_fds (c, r) = {#}"

fun closed_fds :: "syscall \<times> sysret \<Rightarrow> int multiset" where
  "closed_fds (SysClose fd, r) = {#fd#}"
| "closed_fds (c, r) = {#}"

definition opened :: "trace \<Rightarrow> int multiset" where
  "opened tr = \<Sum>\<^sub># (mset (map opened_fds tr))"

definition closed_all :: "trace \<Rightarrow> int multiset" where
  "closed_all tr = \<Sum>\<^sub># (mset (map closed_fds tr))"

lemma fds_simps [simp]:
  "opened [] = {#}" "opened (x # tr) = opened_fds x + opened tr" "opened (tr @ tr') = opened tr + opened tr'"
  "closed_all [] = {#}" "closed_all (x # tr) = closed_fds x + closed_all tr"
  "closed_all (tr @ tr') = closed_all tr + closed_all tr'"
  by (simp_all add: opened_def closed_all_def)

definition held :: "int \<Rightarrow> int multiset" where
  "held fd = (if 0 \<le> fd then {#fd#} else {#})"

text \<open>
  What was opened is what was closed and what the four members still hold; a motor's descriptor
  is never less than -1, the value that means closed.
\<close>

definition balanced :: "proc \<Rightarrow> bool" where
  "balanced w \<longleftrightarrow> opened (trace w) =
     closed_all (trace w) + held (uinput_fd w) + held (source_fd w) + held (left_fd w) + held (right_fd w) \<and>
     -1 \<le> left_fd w \<and> -1 \<le> right_fd w"

abbreviation keeps :: "'a io \<Rightarrow> bool" where
  "keeps \<equiv> preserves balanced"

section \<open>Every operation keeps the balance\<close>

text \<open>Calls that neither open nor close a descriptor nor create or destroy a virtual device.\<close>

fun neutral :: "syscall \<times> sysret \<Rightarrow> bool" where
  "neutral (SysOpen p f, r) \<longleftrightarrow> False"
| "neutral (SysClose fd, r) \<longleftrightarrow> False"
| "neutral (SysIoctl fd UI_DEV_CREATE, r) \<longleftrightarrow> False"
| "neutral (SysIoctl fd UI_DEV_DESTROY, r) \<longleftrightarrow> False"
| "neutral (c, r) \<longleftrightarrow> True"

text \<open>
  The contract under which a property of the process survives every operation on the virtual
  device and its source: it survives neutral calls, the creation of the device, and opening one
  of the two descriptors while it is not open.
\<close>

locale device_invariant =
  fixes K :: kernel and I :: "proc \<Rightarrow> bool"
  assumes call: "list_all neutral ext \<Longrightarrow> I w \<Longrightarrow> I (w\<lparr>trace := trace w @ ext\<rparr>)"
    and created: "I w \<Longrightarrow> r = K (trace w) (SysIoctl (uinput_fd w) UI_DEV_CREATE) \<Longrightarrow>
      I (w\<lparr>trace := trace w @ [(SysIoctl (uinput_fd w) UI_DEV_CREATE, r)],
           device_created := device_created w \<or> ret r = 0\<rparr>)"
    and opened_source: "I w \<Longrightarrow> source_fd w < 0 \<Longrightarrow> r = K (trace w) (SysOpen p f) \<Longrightarrow>
      I (w\<lparr>trace := trace w @ [(SysOpen p f, r)], source_fd := ret r\<rparr>)"
    and opened_uinput: "I w \<Longrightarrow> uinput_fd w < 0 \<Longrightarrow> r = K (trace w) (SysOpen p f) \<Longrightarrow>
      I (w\<lparr>trace := trace w @ [(SysOpen p f, r)], uinput_fd := ret r\<rparr>)"
begin

lemma device_ops:
  "preserves I (EnableEventType K t)" "preserves I (EnableKeyEvent K c)" "preserves I (EnableAbsEvent K c)"
  "preserves I (SendEvent K t c v)" "preserves I (PlayEffect K m i)"
  by (rule preservesI; simp add: EnableEventType_def EnableKeyEvent_def EnableAbsEvent_def SendEvent_def
      PlayEffect_def call)+

lemma ioctl_op: "neutral (SysIoctl fd q, undefined) \<Longrightarrow> preserves I (sys K (SysIoctl fd q))"
  by (rule preservesI) (cases q; simp add: sys_def call)

lemma FinalizeUinputCreation_op: "preserves I (FinalizeUinputCreation K name)"
proof (rule preservesI)
  fix w
  assume w: "I w"
  let ?conf = "SysIoctl (uinput_fd w) (UI_DEV_SETUP (device_info name))"
  let ?w1 = "w\<lparr>trace := trace w @ [(?conf, K (trace w) ?conf)]\<rparr>"
  have w1: "I ?w1" using w by (simp add: call)
  have "I (?w1\<lparr>trace := trace ?w1 @ [(SysIoctl (uinput_fd ?w1) UI_DEV_CREATE, r)],
      device_created := device_created ?w1 \<or> ret r = 0\<rparr>)"
    if "r = K (trace ?w1) (SysIoctl (uinput_fd ?w1) UI_DEV_CREATE)" for r
    using created [OF w1 that] .
  from this [OF refl] w1 show "I (snd (FinalizeUinputCreation K name w))"
    by (auto simp: FinalizeUinputCreation_def split: if_splits)
qed

lemma UploadEffect_op: "preserves I (UploadEffect K m mag ms)"
  by (rule preservesI) (simp add: UploadEffect_def call split: sum.split)

lemma GetNextEvent_op: "preserves I (GetNextEvent K timeout_ms n)"
  by (rule preservesI) (simp add: GetNextEvent_def read_event_run Let_def call)

lemma read_clock_op: "preserves I (read_clock K)"
  by (rule preservesI) (simp add: read_clock_def call split: payload.split)

lemma open_ops: "preserves I (OpenSourceDevice K path)" "preserves I (CreateUinputFD K)"
  by (rule preservesI; simp add: OpenSourceDevice_def CreateUinputFD_def Let_def opened_source opened_uinput)+

lemmas ops [simp] = device_ops ioctl_op FinalizeUinputCreation_op UploadEffect_op GetNextEvent_op read_clock_op open_ops

lemma lift_op [simp]: "preserves I (io_lift r)"
  by (simp add: preserves_def io_lift_def split: sum.split)

lemma EventTriggered_op: "preserves I (EventTriggered K mgr ev x y)"
  by (auto simp: EventTriggered_def PlayEffectOfEvent_def intro!: preserves_bind split: option.split)

lemma perform_all_op: "preserves I (perform_all K mgr outs)"
proof (induction outs)
  case (Cons out outs)
  then show ?case by (cases out) (auto intro!: preserves_bind EventTriggered_op)
qed simp

lemma kb_Run_op: "preserves I (kb_Run K mgr path name orders kb)"
proof -
  have "preserves I (enable_keys K ks)" for ks by (induction ks) (auto intro!: preserves_bind)
  then have set: "preserves I (keyboard_setup K path name ks)" for ks
    by (auto simp: keyboard_setup_def and_then_def EnableKeyboardEvents_def intro!: preserves_bind)
  have "preserves I (kb_iteration K mgr order tids kb)" for order tids kb
    by (auto simp: kb_iteration_def kb_wait_def kb_react_def intro!: preserves_bind perform_all_op
        split: sum.split)
  then have "preserves I (kb_Consume K mgr orders kb)" for orders kb
    by (induction K mgr orders kb rule: kb_Consume.induct) (auto intro!: preserves_bind)
  with set show ?thesis by (auto simp: kb_Run_def intro!: preserves_bind)
qed

lemma copy_axes_op: "preserves I (copy_axes K src w h xres yres codes cs)"
proof (induction cs)
  case (Cons c cs)
  show ?case
  proof (rule preservesI)
    fix s
    assume "I s"
    with Cons show "I (snd (copy_axes K src w h xres yres codes (c # cs) s))"
      by (simp add: preserves_def EnableAbsEvent_def io_bind_def [of "EnableAbsEvent K c"] call)
  qed
qed simp

lemma touchpad_Run_op: "preserves I (touchpad_Run K path name all_orders tp w_mm h_mm)"
proof -
  have check: "preserves I m \<Longrightarrow> preserves I (check m msg)" for m msg by (auto simp: check_def intro!: preserves_bind)
  have "preserves I (enable_buttons K cs)" for cs by (induction cs) (auto intro!: preserves_bind)
  then have buttons: "preserves I (EnableTouchpadButtons K)"
    by (auto simp: EnableTouchpadButtons_def intro!: preserves_bind)
  have axes: "preserves I (CopyABSOutputEvents K src w h xres yres)" for src w h xres yres
    by (auto simp: CopyABSOutputEvents_def Let_def intro!: preserves_bind copy_axes_op)
  have axes: "preserves I (\<lambda>s. check (CopyABSOutputEvents K (source_fd s) w h xres yres) msg s)" for w h xres yres msg
    by (rule preserves_state [where g = source_fd and m = "\<lambda>x. check (CopyABSOutputEvents K x w h xres yres) msg"])
      (rule check [OF axes])
  have set: "preserves I (touchpad_setup K path name tp w_mm h_mm)"
    unfolding touchpad_setup_def
    by (auto intro!: preserves_bind check buttons axes split: prod.split)
  have "preserves I (SendEvents K es)" for es by (induction es) (auto intro!: preserves_bind)
  then have "preserves I (tp_iteration K orders tp)" for orders tp
    by (auto simp: tp_iteration_def intro!: preserves_bind split: option.split sum.split)
  then have "preserves I (touchpad_Consume K all_orders tp)" for tp
    by (induction all_orders arbitrary: tp) (auto intro!: preserves_bind)
  with set show ?thesis by (auto simp: touchpad_Run_def intro!: preserves_bind)
qed

end

text \<open>The two properties of the process that the workers need: the balance, and idle motors.\<close>

definition motors_idle :: "proc \<Rightarrow> bool" where
  "motors_idle w \<longleftrightarrow> left_fd w = -1 \<and> right_fd w = -1"

lemma neutral_fds: "list_all neutral ext \<Longrightarrow> opened ext = {#} \<and> closed_all ext = {#}"
proof (induction ext)
  case (Cons x ext)
  then show ?case by (cases x rule: neutral.cases) simp_all
qed simp

lemma balanced_fields [simp]:
  "balanced (w\<lparr>device_created := b\<rparr>) = balanced w"
  by (simp add: balanced_def)

interpretation ledger: device_invariant K balanced for K
  by unfold_locales (auto simp: balanced_def held_def neutral_fds)

interpretation idle: device_invariant K motors_idle for K
  by unfold_locales (auto simp: motors_idle_def)

section \<open>The motors\<close>

lemma close_motor_keeps: "keeps (CloseFDIfValid K m)"
  by (rule preservesI) (cases m; auto simp: CloseFDIfValid_def motor_fd_def set_motor_fd_def balanced_def held_def)

text \<open>\<^verbatim>\<open>open\<close> returns a descriptor or -1.\<close>

definition open_works :: "kernel \<Rightarrow> bool" where
  "open_works K \<longleftrightarrow> (\<forall>tr p f. -1 \<le> ret (K tr (SysOpen p f)))"

lemmas balanced_call [simp] = ledger.call

lemma init_motor_keeps:
  assumes "open_works K"
  shows "keeps (FFDriver_Init K m path)"
proof (rule preservesI)
  fix w
  assume bal: "balanced w"
  define w1 where "w1 = snd (CloseFDIfValid K m w)"
  then have w1: "CloseFDIfValid K m w = (Inr (), w1)" "motor_fd m w1 = -1"
    by (cases m; simp add: CloseFDIfValid_def motor_fd_def set_motor_fd_def)+
  let ?r = "K (trace w1) (SysOpen path (O_RDWR + O_CLOEXEC))"
  have "-1 \<le> ret ?r" using assms by (simp add: open_works_def)
  moreover have "balanced w1" using preservesD [OF close_motor_keeps w1(1) bal] .
  ultimately have "balanced (set_motor_fd m (ret ?r) (w1\<lparr>trace := trace w1 @
      [(SysOpen path (O_RDWR + O_CLOEXEC), ?r)]\<rparr>))"
    using w1(2) by (cases m) (auto simp: motor_fd_def set_motor_fd_def balanced_def held_def)
  then show "balanced (snd (FFDriver_Init K m path w))"
    using w1(1) by (cases "ret ?r = -1") (simp_all add: FFDriver_Init_def set_gain_def Let_def)
qed

lemma manager_keeps:
  assumes "open_works K"
  shows "keeps (TouchFFManager_new K max_x max_y r mag ms)"
  by (auto simp: TouchFFManager_new_def RegisterFF_def Let_def init_motor_keeps [OF assms] ledger.ops
      intro!: preserves_bind split: option.split)

section \<open>Destruction\<close>

text \<open>The destructors close what the device and the motors hold, and nothing else.\<close>

lemma device_destructor_run:
  assumes "FakeDevice_destructor K w = (r, w')"
  shows "opened (trace w') = opened (trace w)"
    and "closed_all (trace w') = closed_all (trace w) + held (source_fd w) + held (uinput_fd w)"
    and "left_fd w' = left_fd w" and "right_fd w' = right_fd w"
  using assms
  by (cases "0 \<le> source_fd w"; cases "0 \<le> uinput_fd w"; cases "device_created w";
      auto simp: FakeDevice_destructor_def EvdevSource_destructor_def UinputDevice_destructor_def
        io_bind_def [of "EvdevSource_destructor K"] held_def)+

lemma manager_destructor_run:
  assumes "TouchFFManager_destructor K w = (r, w')" and "-1 \<le> left_fd w" and "-1 \<le> right_fd w"
  shows "opened (trace w') = opened (trace w)"
    and "closed_all (trace w') = closed_all (trace w) + held (left_fd w) + held (right_fd w)"
  using assms
  by (cases "left_fd w = -1"; cases "right_fd w = -1";
      auto simp: TouchFFManager_destructor_def CloseFDIfValid_def motor_fd_def set_motor_fd_def
        io_bind_def [of "CloseFDIfValid K RightMotor"] held_def)+

text \<open>The constructor throws only before it has opened anything.\<close>

lemma manager_throws_early:
  assumes "TouchFFManager_new K max_x max_y rot v ms w = (Inl e, w')"
  shows "w' = w"
proof (cases "0 < max_x \<and> 0 < max_y \<and> isfinite v \<and> \<not> fp_less v (Fin 0) \<and> \<not> fp_less (Fin 1) v \<and>
    1 \<le> ms \<and> ms \<le> 1000 \<and> upright_width max_x max_y rot \<noteq> None")
  case True
  then obtain width where "upright_width max_x max_y rot = Some width" by auto
  with True TouchFFManager_new_returns [of max_x max_y v ms rot width K]
  have "returns (\<lambda>mgr. wf_manager mgr \<and> touch_max_x mgr = width \<and> touch_rotation mgr = rot)
    (TouchFFManager_new K max_x max_y rot v ms)" by simp
  from returnsD [OF this, of w] assms show ?thesis by auto
next
  case False
  with assms show ?thesis by (auto simp: TouchFFManager_new_def split: if_splits option.splits)
qed

text \<open>Starting the haptics does not touch the device.\<close>

definition no_device :: "proc \<Rightarrow> bool" where
  "no_device w \<longleftrightarrow> uinput_fd w < 0 \<and> source_fd w < 0"

lemma manager_no_device: "preserves no_device (TouchFFManager_new K max_x max_y r mag ms)"
proof -
  have set [simp]: "no_device (set_motor_fd m fd w) \<longleftrightarrow> no_device w" for m fd w
    by (cases m) (simp_all add: no_device_def set_motor_fd_def)
  have tr [simp]: "no_device (w\<lparr>trace := tr\<rparr>) \<longleftrightarrow> no_device w" for w tr
    by (simp add: no_device_def)
  have "preserves no_device (CloseFDIfValid K m)" for m
    by (rule preservesI) (simp add: CloseFDIfValid_def)
  note close = this
  have init: "preserves no_device (FFDriver_Init K m path)" for m path
    unfolding FFDriver_Init_def
    by (rule preserves_bind, rule close, rule preservesI) (simp add: set_gain_def Let_def)
  have "preserves no_device (UploadEffect K m v time_ms)" for m v time_ms
    by (rule preservesI) (simp add: UploadEffect_def split: sum.split)
  with init show ?thesis
    by (auto simp: TouchFFManager_new_def RegisterFF_def Let_def intro!: preserves_bind split: option.split)
qed

lemma initial_balanced: "balanced proc_initial"
  by (simp add: balanced_def proc_initial_def held_def)

lemma device_life:
  assumes "keeps m" and "balanced w" and "io_finally m (FakeDevice_destructor K) w = (r, w')"
  shows "opened (trace w') = closed_all (trace w') + held (left_fd w') + held (right_fd w')"
    and "-1 \<le> left_fd w'" and "-1 \<le> right_fd w'"
proof -
  obtain r1 w1 where m: "m w = (r1, w1)" by fastforce
  obtain r2 w2 where d: "FakeDevice_destructor K w1 = (r2, w2)" by fastforce
  have "w' = w2" using assms(3) m d by (simp add: io_finally_def)
  with preservesD [OF assms(1) m assms(2)] device_destructor_run [OF d]
  show "opened (trace w') = closed_all (trace w') + held (left_fd w') + held (right_fd w')"
    "-1 \<le> left_fd w'" "-1 \<le> right_fd w'"
    by (simp_all add: balanced_def union_ac)
qed

text \<open>
  The runs of the two workers up to the destruction of the device, as the part of the process
  that a \<open>device_invariant\<close> survives.
\<close>

context device_invariant
begin

lemma keyboard_part_op:
  "preserves I (io_bind (io_lift (FakeKeyboard_new hw path rows)) (\<lambda>kb. kb_Run K haptics source name orders kb))"
  by (auto intro!: preserves_bind kb_Run_op)

lemma touchpad_part_op:
  "preserves I (io_bind (io_lift (FakeTouchpad_new hw path row)) (\<lambda>(tp, width_mm, height_mm).
     touchpad_Run K source name all_orders tp width_mm height_mm))"
  by (auto intro!: preserves_bind touchpad_Run_op split: prod.split)

end

lemma FakeDevice_new_run:
  "FakeDevice_new w = (Inr (), w\<lparr>uinput_fd := -1, device_created := False, source_fd := -1\<rparr>)"
  by (simp add: FakeDevice_new_def UinputDevice_new_def EvdevSource_new_def io_bind_def)

lemma drivers_initial:
  "io_bind (FFDriver_new LeftMotor) (\<lambda>_. io_bind (FFDriver_new RightMotor) (\<lambda>_. m)) proc_initial = m proc_initial"
  by (simp add: FFDriver_new_def set_motor_fd_def io_bind_def proc_initial_def)

lemma device_initial: "io_bind FakeDevice_new (\<lambda>_. m) proc_initial = m proc_initial"
  by (simp add: io_bind_def FakeDevice_new_run proc_initial_def)

text \<open>The keyboard worker in stages: the haptics, the device until it is destroyed, the haptics again.\<close>

lemma keyboard_worker_stages:
  assumes "keyboard_worker K hw opts layout_path rows orders proc_initial = (r, w')"
  obtains (early) e where
      "TouchFFManager_new K (res_x hw) (res_y hw) (rotation hw) (haptic_magnitude opts)
         (haptic_duration_ms opts) proc_initial = (Inl e, proc_initial)" and "w' = proc_initial"
  | (run) haptics w1 w2 r3 where
      "TouchFFManager_new K (res_x hw) (res_y hw) (rotation hw) (haptic_magnitude opts)
         (haptic_duration_ms opts) proc_initial = (Inr haptics, w1)"
      "io_finally (io_bind (io_lift (FakeKeyboard_new hw layout_path rows)) (\<lambda>kb.
           kb_Run K haptics kTouchSensorDevicePath ''Halo Keyboard'' orders kb))
         (FakeDevice_destructor K) (w1\<lparr>uinput_fd := -1, device_created := False, source_fd := -1\<rparr>) = (r, w2)"
      "TouchFFManager_destructor K w2 = (r3, w')"
proof -
  obtain r1 w1 where new: "TouchFFManager_new K (res_x hw) (res_y hw) (rotation hw) (haptic_magnitude opts)
      (haptic_duration_ms opts) proc_initial = (r1, w1)" by fastforce
  show thesis
  proof (cases r1)
    case (Inl e)
    with assms new manager_throws_early [of K] show thesis
      by (intro early [of e]) (simp_all add: keyboard_worker_def drivers_initial)
  next
    case (Inr haptics)
    obtain r2 w2 where body: "io_finally (io_bind (io_lift (FakeKeyboard_new hw layout_path rows)) (\<lambda>kb.
           kb_Run K haptics kTouchSensorDevicePath ''Halo Keyboard'' orders kb))
         (FakeDevice_destructor K) (w1\<lparr>uinput_fd := -1, device_created := False, source_fd := -1\<rparr>) = (r2, w2)"
      by fastforce
    obtain r3 w3 where d: "TouchFFManager_destructor K w2 = (r3, w3)" by fastforce
    have "w' = w3" "r2 = r"
      using assms new Inr body d
      by (simp_all add: keyboard_worker_def drivers_initial io_finally_def [of _ "TouchFFManager_destructor K"]
          io_bind_def [of FakeDevice_new] FakeDevice_new_run)
    with run [OF new [unfolded Inr]] body d show thesis by simp
  qed
qed

lemma keyboard_worker_closes:
  assumes K: "open_works K"
    and worker: "keyboard_worker K hw opts layout_path rows orders proc_initial = (r, w')"
  shows "opened (trace w') = closed_all (trace w')"
  using worker
proof (cases rule: keyboard_worker_stages)
  case early
  then show ?thesis by (simp add: proc_initial_def)
next
  case (run haptics w1 w2 r3)
  have "balanced w1" by (rule preservesD [OF manager_keeps [OF K] run(1) initial_balanced])
  moreover have "no_device w1"
    by (rule preservesD [OF manager_no_device run(1)]) (simp add: no_device_def proc_initial_def)
  ultimately have "balanced (w1\<lparr>uinput_fd := -1, device_created := False, source_fd := -1\<rparr>)"
    by (simp add: balanced_def no_device_def held_def)
  from device_life [OF ledger.keyboard_part_op this run(2)] manager_destructor_run [OF run(3)]
  show ?thesis by simp
qed

lemma touchpad_worker_closes:
  assumes "touchpad_worker K hw region_path row all_orders proc_initial = (r, w')"
  shows "opened (trace w') = closed_all (trace w')"
proof -
  let ?part = "io_bind (io_lift (FakeTouchpad_new hw region_path row)) (\<lambda>(tp, width_mm, height_mm).
    touchpad_Run K kTouchSensorDevicePath ''Halo Keyboard Touchpad'' all_orders tp width_mm height_mm)"
  have run: "io_finally ?part (FakeDevice_destructor K) proc_initial = (r, w')"
    using assms by (simp add: touchpad_worker_def device_initial)
  obtain r1 w1 where m: "?part proc_initial = (r1, w1)" by fastforce
  obtain r2 w2 where d: "FakeDevice_destructor K w1 = (r2, w2)" by fastforce
  have "motors_idle w1"
    by (rule preservesD [OF idle.touchpad_part_op m]) (simp add: motors_idle_def proc_initial_def)
  moreover have "w' = w2" using run m d by (simp add: io_finally_def)
  ultimately have "left_fd w' = -1" "right_fd w' = -1"
    using device_destructor_run(3,4) [OF d] by (simp_all add: motors_idle_def)
  with device_life(1) [OF ledger.touchpad_part_op initial_balanced run] show ?thesis
    by (simp add: held_def)
qed

text \<open>
  C15: no worker leaks a descriptor. If \<^verbatim>\<open>open\<close> returns a descriptor or -1, then whatever the
  kernel answers, whatever the configuration files hold and whenever and however a worker ends,
  the descriptors it has closed once its objects are destroyed are exactly those it has opened,
  as often as it has opened them: the device, its source and both motors.
\<close>

theorem workers_close_their_descriptors:
  assumes "open_works K"
  shows "opened (trace (snd (keyboard_worker K hw opts layout_path rows orders proc_initial))) =
      closed_all (trace (snd (keyboard_worker K hw opts layout_path rows orders proc_initial))) \<and>
    opened (trace (snd (touchpad_worker K hw region_path row all_orders proc_initial))) =
      closed_all (trace (snd (touchpad_worker K hw region_path row all_orders proc_initial)))"
  using keyboard_worker_closes [OF assms, of hw opts layout_path rows orders _ "snd (keyboard_worker K hw opts layout_path rows orders proc_initial)"]
    touchpad_worker_closes [of K hw region_path row all_orders _ "snd (touchpad_worker K hw region_path row all_orders proc_initial)"]
  by (metis prod.collapse)

theorem workers_close_their_descriptors_witness:
  "opened (trace (snd (keyboard_worker panel_kernel (sample_hw 0) default_options ''layout.csv''
       [Inr sample_row] [([], [])] proc_initial))) =
   closed_all (trace (snd (keyboard_worker panel_kernel (sample_hw 0) default_options ''layout.csv''
       [Inr sample_row] [([], [])] proc_initial)))"
proof -
  have "open_works panel_kernel" by (simp add: open_works_def panel_kernel_def)
  from workers_close_their_descriptors [OF this] show ?thesis by blast
qed

end
