(* ===== verification/Supervisor.thy ===== *)
theory Supervisor
  imports Workers
begin

text \<open>
  \<^verbatim>\<open>src/main.cc\<close>: the process that starts the two workers, waits until one of them ends, stops
  the other one and turns the way the first one ended into its own exit status. Its state is
  the trace of its system calls; what it writes to the log is not modelled. A loop that repeats
  an interrupted call may run forever: the functions return \<open>None\<close> if they do not return.
\<close>

section \<open>The exit status of a worker\<close>

definition EXIT_SUCCESS :: int where "EXIT_SUCCESS = 0"
definition EXIT_FAILURE :: int where "EXIT_FAILURE = 1"

text \<open>
  What the child passes to \<^verbatim>\<open>_exit\<close>: its worker returned or threw. Undefined behaviour has no
  exit status.
\<close>

definition worker_exit :: "exn + 'a \<Rightarrow> int option" where
  "worker_exit r =
     (case r of
        Inr _ \<Rightarrow> Some EXIT_FAILURE
      | Inl (SystemError code what) \<Rightarrow>
          Some (if IsExpectedSourceDeviceError code then EXIT_SUCCESS else EXIT_FAILURE)
      | Inl (UndefinedBehaviour what) \<Rightarrow> None
      | Inl _ \<Rightarrow> Some EXIT_FAILURE)"

text \<open>
  In the parent, where \<^verbatim>\<open>fork\<close> does not return 0: the child's process id, or an exception. The
  child runs its worker and exits with \<open>worker_exit\<close> of the outcome.
\<close>

definition SpawnWorker :: "kernel \<Rightarrow> string \<Rightarrow> trace \<Rightarrow> (exn + int) \<times> trace" where
  "SpawnWorker K name tr =
     (let r = K tr SysFork in
      (if ret r < 0 then Inl (RuntimeError (''unable to fork '' @ name @ '' worker'')) else Inr (ret r),
       tr @ [(SysFork, r)]))"

section \<open>Waiting and stopping\<close>

definition interrupted :: "sysret \<Rightarrow> bool" where
  "interrupted r \<longleftrightarrow> ret r < 0 \<and> err r = EINTR"

partial_function (option) wait_uninterrupted :: "kernel \<Rightarrow> int \<Rightarrow> trace \<Rightarrow> (sysret \<times> trace) option" where
  "wait_uninterrupted K pid tr =
     (let r = K tr (SysWaitpid pid); tr1 = tr @ [(SysWaitpid pid, r)] in
      if interrupted r then wait_uninterrupted K pid tr1 else Some (r, tr1))"

declare wait_uninterrupted.simps [code]

definition WaitForWorker :: "kernel \<Rightarrow> trace \<Rightarrow> (sysret \<times> trace) option" where
  "WaitForWorker K tr = wait_uninterrupted K (-1) tr"

definition StopWorker :: "kernel \<Rightarrow> int \<Rightarrow> trace \<Rightarrow> trace option" where
  "StopWorker K pid tr =
     (if pid \<le> 0 then Some tr
      else let r = K tr (SysKill pid SIGTERM) in
        map_option snd (wait_uninterrupted K pid (tr @ [(SysKill pid SIGTERM, r)])))"

definition stop_both :: "kernel \<Rightarrow> int \<Rightarrow> int \<Rightarrow> trace \<Rightarrow> trace option" where
  "stop_both K keyboard_pid touchpad_pid tr =
     Option.bind (StopWorker K keyboard_pid tr) (StopWorker K touchpad_pid)"

section \<open>Supervision\<close>

text \<open>The macros of \<^verbatim>\<open>sys/wait.h\<close>; the status stays 0 if the kernel stores none.\<close>

definition stored_status :: "payload \<Rightarrow> int" where
  "stored_status p = (case p of WaitStatus s \<Rightarrow> s | _ \<Rightarrow> 0)"

definition WIFEXITED :: "int \<Rightarrow> bool" where
  "WIFEXITED status \<longleftrightarrow> status mod 128 = 0"

definition WEXITSTATUS :: "int \<Rightarrow> int" where
  "WEXITSTATUS status = (status div 256) mod 256"

definition Supervise :: "kernel \<Rightarrow> int \<Rightarrow> int \<Rightarrow> trace \<Rightarrow> (int \<times> trace) option" where
  "Supervise K keyboard_pid touchpad_pid tr =
     (case WaitForWorker K tr of
        None \<Rightarrow> None
      | Some (r, tr1) \<Rightarrow>
          if ret r < 0
          then map_option (\<lambda>tr2. (EXIT_FAILURE, tr2)) (stop_both K keyboard_pid touchpad_pid tr1)
          else
            let exited_pid = ret r;
                status = stored_status (payload r);
                expected_stop = WIFEXITED status \<and> WEXITSTATUS status = EXIT_SUCCESS
            in map_option (\<lambda>tr2. (if expected_stop then EXIT_SUCCESS else EXIT_FAILURE, tr2))
                 (if exited_pid = keyboard_pid then StopWorker K touchpad_pid tr1
                  else if exited_pid = touchpad_pid then StopWorker K keyboard_pid tr1
                  else stop_both K keyboard_pid touchpad_pid tr1))"

section \<open>The program\<close>

text \<open>
  \<^verbatim>\<open>operator/\<close> of a path and a file name. The log level set by the options is in
  theory Diagnostics. \<open>hardware_row\<close> is what the CSV reader delivers for a
  path.
\<close>

definition path_append :: "string \<Rightarrow> string \<Rightarrow> string" where
  "path_append dir file = (if dir = [] \<or> last dir = CHR ''/'' then dir @ file else dir @ ''/'' @ file)"

definition config_path :: "string \<Rightarrow> options \<Rightarrow> string" where
  "config_path default_directory opts =
     path_append (if config_directory opts = [] then default_directory else config_directory opts)
       ''hardware.csv''"

text \<open>The handler of the outer \<^verbatim>\<open>try\<close>: it stops what has been started.\<close>

definition fail :: "kernel \<Rightarrow> int \<Rightarrow> int \<Rightarrow> trace \<Rightarrow> (int \<times> trace) option" where
  "fail K keyboard_pid touchpad_pid tr =
     map_option (\<lambda>tr1. (EXIT_FAILURE, tr1)) (stop_both K keyboard_pid touchpad_pid tr)"

definition start_workers :: "kernel \<Rightarrow> trace \<Rightarrow> (int \<times> trace) option" where
  "start_workers K tr =
     (case SpawnWorker K ''keyboard'' tr of
        (Inl _, tr1) \<Rightarrow> fail K (-1) (-1) tr1
      | (Inr keyboard_pid, tr1) \<Rightarrow>
          (case SpawnWorker K ''touchpad'' tr1 of
             (Inl _, tr2) \<Rightarrow> fail K keyboard_pid (-1) tr2
           | (Inr touchpad_pid, tr2) \<Rightarrow> Supervise K keyboard_pid touchpad_pid tr2))"

definition main ::
  "kernel \<Rightarrow> string \<Rightarrow> (string \<Rightarrow> exn + hardware_config option) \<Rightarrow> string list \<Rightarrow> (int \<times> trace) option" where
  "main K default_directory hardware_row arguments =
     (case ParseOptions arguments (Some default_options) (Some []) of
        (kHelp, _, _) \<Rightarrow> Some (EXIT_SUCCESS, [])
      | (kSuccess, Some opts, _) \<Rightarrow>
          (let path = config_path default_directory opts in
           case LoadHardwareConfig path (hardware_row path) of
             Inl _ \<Rightarrow> fail K (-1) (-1) []
           | Inr hw \<Rightarrow> start_workers K [])
      | _ \<Rightarrow> Some (EXIT_FAILURE, []))"

section \<open>Interrupted calls\<close>

text \<open>The trace after a call has been interrupted \<open>n\<close> times.\<close>

primrec retried :: "kernel \<Rightarrow> int \<Rightarrow> nat \<Rightarrow> trace \<Rightarrow> trace" where
  "retried K pid 0 tr = tr"
| "retried K pid (Suc n) tr = retried K pid n (tr @ [(SysWaitpid pid, K tr (SysWaitpid pid))])"

definition still_interrupted :: "kernel \<Rightarrow> int \<Rightarrow> trace \<Rightarrow> nat \<Rightarrow> bool" where
  "still_interrupted K pid tr n \<longleftrightarrow> interrupted (K (retried K pid n tr) (SysWaitpid pid))"

lemma wait_step:
  "interrupted (K tr (SysWaitpid pid)) \<Longrightarrow>
   wait_uninterrupted K pid tr = wait_uninterrupted K pid (tr @ [(SysWaitpid pid, K tr (SysWaitpid pid))])"
  by (subst wait_uninterrupted.simps) (simp add: Let_def)

lemma wait_done:
  "\<not> interrupted (K tr (SysWaitpid pid)) \<Longrightarrow>
   wait_uninterrupted K pid tr = Some (K tr (SysWaitpid pid), tr @ [(SysWaitpid pid, K tr (SysWaitpid pid))])"
  by (subst wait_uninterrupted.simps) (simp add: Let_def)

lemma wait_returns:
  "\<not> still_interrupted K pid tr n \<Longrightarrow> \<exists>res. wait_uninterrupted K pid tr = Some res"
proof (induction n arbitrary: tr)
  case 0
  then show ?case using wait_done [of K tr pid] by (simp add: still_interrupted_def)
next
  case (Suc n)
  let ?tr1 = "tr @ [(SysWaitpid pid, K tr (SysWaitpid pid))]"
  show ?case
  proof (cases "interrupted (K tr (SysWaitpid pid))")
    case True
    from Suc.prems have "\<not> still_interrupted K pid ?tr1 n" by (simp add: still_interrupted_def)
    from Suc.IH [OF this] wait_step [of K tr pid] True show ?thesis by simp
  next
    case False
    then show ?thesis using wait_done [of K tr pid] by simp
  qed
qed

text \<open>What a wait that returns has done: it was interrupted a number of times, and then not.\<close>

definition waited :: "kernel \<Rightarrow> int \<Rightarrow> trace \<Rightarrow> sysret \<times> trace \<Rightarrow> bool" where
  "waited K pid tr res \<longleftrightarrow> (\<exists>n. (\<forall>k < n. still_interrupted K pid tr k) \<and> \<not> still_interrupted K pid tr n \<and>
     res = (K (retried K pid n tr) (SysWaitpid pid), retried K pid (Suc n) tr))"

lemma wait_result:
  assumes "wait_uninterrupted K pid tr = Some res"
  shows "waited K pid tr res"
proof (induct rule: wait_uninterrupted.raw_induct)
  case (1 wait K pid tr res)
  let ?r = "K tr (SysWaitpid pid)"
  show ?case
  proof (cases "interrupted ?r")
    case True
    with 1(2) have "wait K pid (tr @ [(SysWaitpid pid, ?r)]) = Some res" by (simp add: Let_def)
    then have "waited K pid (tr @ [(SysWaitpid pid, ?r)]) res" by (rule 1(1))
    then obtain n where n: "\<forall>k < n. still_interrupted K pid tr (Suc k)" "\<not> still_interrupted K pid tr (Suc n)"
      "res = (K (retried K pid (Suc n) tr) (SysWaitpid pid), retried K pid (Suc (Suc n)) tr)"
      by (auto simp: waited_def still_interrupted_def)
    have "\<forall>k < Suc n. still_interrupted K pid tr k"
      using n(1) True by (auto simp: less_Suc_eq_0_disj still_interrupted_def)
    with n show ?thesis unfolding waited_def by blast
  next
    case False
    with 1(2) show ?thesis
      by (intro exI [of _ 0] | simp add: waited_def still_interrupted_def Let_def)+
  qed
qed (rule assms)

lemma wait_returns_iff:
  "wait_uninterrupted K pid tr \<noteq> None \<longleftrightarrow> (\<exists>n. \<not> still_interrupted K pid tr n)"
  using wait_returns [of K pid tr] wait_result [of K pid tr] by (auto simp: waited_def)

end
