(* ===== verification/Supervisor_Props.thy ===== *)
theory Supervisor_Props
  imports Supervisor
begin

text \<open>
  What the supervisor guarantees: it returns if its waits are not interrupted for ever, it
  leaves no worker running, it never signals a worker it has already reaped, and its exit
  status says how the first worker ended.
\<close>

section \<open>Waiting and stopping\<close>

lemma retried_waits:
  "\<exists>ws. retried K pid n tr = tr @ ws \<and> (\<forall>x \<in> set ws. fst x = SysWaitpid pid)"
proof (induction n arbitrary: tr)
  case (Suc n)
  from Suc.IH [of "tr @ [(SysWaitpid pid, K tr (SysWaitpid pid))]"] show ?case by force
qed simp

lemma retried_Suc:
  "retried K pid (Suc n) tr = retried K pid n tr @ [(SysWaitpid pid, K (retried K pid n tr) (SysWaitpid pid))]"
proof (induction n arbitrary: tr)
  case (Suc n)
  let ?tr1 = "tr @ [(SysWaitpid pid, K tr (SysWaitpid pid))]"
  have "retried K pid (Suc (Suc n)) tr = retried K pid (Suc n) ?tr1" by simp
  also note Suc.IH [of ?tr1]
  finally show ?case by simp
qed simp

lemma wait_run:
  assumes "wait_uninterrupted K pid tr = Some (r, tr')"
  obtains ws where "tr' = tr @ ws @ [(SysWaitpid pid, r)]" and "\<forall>x \<in> set ws. fst x = SysWaitpid pid"
    and "\<not> interrupted r"
proof -
  from wait_result [OF assms] obtain n where n: "\<not> still_interrupted K pid tr n"
    "r = K (retried K pid n tr) (SysWaitpid pid)" "tr' = retried K pid (Suc n) tr"
    by (auto simp: waited_def)
  from retried_waits [of K pid n tr] obtain ws where "retried K pid n tr = tr @ ws"
    "\<forall>x \<in> set ws. fst x = SysWaitpid pid" by blast
  with n show thesis
    by (intro that [of ws]) (simp_all add: retried_Suc still_interrupted_def del: retried.simps)
qed

text \<open>A process was told to terminate, and then waited for until it was gone.\<close>

definition stopped :: "int \<Rightarrow> trace \<Rightarrow> bool" where
  "stopped p tr \<longleftrightarrow> (\<exists>a k b r c. tr = a @ (SysKill p SIGTERM, k) # b @ (SysWaitpid p, r) # c \<and> \<not> interrupted r)"

definition signalled :: "int \<Rightarrow> trace \<Rightarrow> bool" where
  "signalled p tr \<longleftrightarrow> (\<exists>x \<in> set tr. \<exists>s. fst x = SysKill p s)"

definition forked :: "int \<Rightarrow> trace \<Rightarrow> bool" where
  "forked p tr \<longleftrightarrow> (\<exists>x \<in> set tr. fst x = SysFork \<and> ret (snd x) = p)"

lemma stopped_append: "stopped p tr \<Longrightarrow> stopped p (tr @ ext)" "stopped p tr \<Longrightarrow> stopped p (pre @ tr)"
  unfolding stopped_def by (metis append_assoc append_Cons)+

lemma signalled_simps [simp]:
  "\<not> signalled p []" "signalled p (x # tr) \<longleftrightarrow> (\<exists>s. fst x = SysKill p s) \<or> signalled p tr"
  "signalled p (tr @ tr') \<longleftrightarrow> signalled p tr \<or> signalled p tr'"
  by (auto simp: signalled_def)

lemma forked_simps [simp]:
  "\<not> forked p []" "forked p (x # tr) \<longleftrightarrow> (fst x = SysFork \<and> ret (snd x) = p) \<or> forked p tr"
  "forked p (tr @ tr') \<longleftrightarrow> forked p tr \<or> forked p tr'"
  by (auto simp: forked_def)

lemma waits_quiet:
  "\<forall>x \<in> set ws. fst x = SysWaitpid pid \<Longrightarrow> \<not> signalled p ws \<and> \<not> forked p ws"
  by (induction ws) auto

lemma StopWorker_run:
  assumes "StopWorker K pid tr = Some tr'"
  obtains ext where "tr' = tr @ ext" and "0 < pid \<longrightarrow> stopped pid ext"
    and "\<forall>p. signalled p ext \<longrightarrow> p = pid \<and> 0 < pid" and "\<forall>p. \<not> forked p ext"
proof (cases "pid \<le> 0")
  case True
  with assms show thesis by (intro that [of "[]"]) (simp_all add: StopWorker_def)
next
  case False
  let ?k = "(SysKill pid SIGTERM, K tr (SysKill pid SIGTERM))"
  from assms False obtain r where "wait_uninterrupted K pid (tr @ [?k]) = Some (r, tr')"
    by (auto simp: StopWorker_def Let_def)
  then obtain ws where ws: "tr' = tr @ [?k] @ ws @ [(SysWaitpid pid, r)]"
    "\<forall>x \<in> set ws. fst x = SysWaitpid pid" "\<not> interrupted r"
    by (elim wait_run) simp
  have "stopped pid ([?k] @ ws @ [(SysWaitpid pid, r)])"
    unfolding stopped_def using ws(3) by (intro exI [of _ "[]"]) auto
  with ws waits_quiet [OF ws(2)] False show thesis
    by (intro that [of "[?k] @ ws @ [(SysWaitpid pid, r)]"]) auto
qed

lemma stop_both_run:
  assumes "stop_both K kb tp tr = Some tr'"
  obtains ext where "tr' = tr @ ext" and "0 < kb \<longrightarrow> stopped kb ext" and "0 < tp \<longrightarrow> stopped tp ext"
    and "\<forall>p. signalled p ext \<longrightarrow> p \<in> {kb, tp} \<and> 0 < p" and "\<forall>p. \<not> forked p ext"
proof -
  from assms obtain tr1 where s: "StopWorker K kb tr = Some tr1" "StopWorker K tp tr1 = Some tr'"
    by (auto simp: stop_both_def bind_eq_Some_conv)
  from s(1) obtain e1 where e1: "tr1 = tr @ e1" "0 < kb \<longrightarrow> stopped kb e1"
    "\<forall>p. signalled p e1 \<longrightarrow> p = kb \<and> 0 < kb" "\<forall>p. \<not> forked p e1" by (rule StopWorker_run)
  from s(2) obtain e2 where e2: "tr' = tr1 @ e2" "0 < tp \<longrightarrow> stopped tp e2"
    "\<forall>p. signalled p e2 \<longrightarrow> p = tp \<and> 0 < tp" "\<forall>p. \<not> forked p e2" by (rule StopWorker_run)
  show thesis
    using e1 e2 by (intro that [of "e1 @ e2"]) (auto simp: stopped_append)
qed

lemma WaitForWorker_run:
  assumes "WaitForWorker K tr = Some (r, tr')"
  obtains ext where "tr' = tr @ ext @ [(SysWaitpid (-1), r)]" and "\<forall>p. \<not> signalled p ext"
    and "\<forall>p. \<not> forked p ext" and "\<not> interrupted r"
  using assms unfolding WaitForWorker_def by (elim wait_run) (metis waits_quiet that)

section \<open>Supervision\<close>

text \<open>The first wait ended with this result of \<^verbatim>\<open>waitpid\<close>: what ended, or an error.\<close>

definition expected_stop :: "sysret \<Rightarrow> bool" where
  "expected_stop r \<longleftrightarrow> 0 \<le> ret r \<and> WIFEXITED (stored_status (payload r)) \<and>
     WEXITSTATUS (stored_status (payload r)) = 0"

lemma Supervise_run:
  assumes "Supervise K kb tp tr = Some (st, tr')"
  obtains r before after where "tr' = tr @ before @ [(SysWaitpid (-1), r)] @ after"
    and "\<not> interrupted r" and "\<forall>p. \<not> signalled p before"
    and "st = (if expected_stop r then EXIT_SUCCESS else EXIT_FAILURE)"
    and "\<forall>p \<in> {kb, tp}. 0 < p \<longrightarrow> ret r = p \<or> stopped p after"
    and "kb \<noteq> tp \<longrightarrow> (\<forall>p. signalled p after \<longrightarrow> p \<in> {kb, tp} \<and> 0 < p \<and> ret r \<noteq> p)"
    and "\<forall>p. \<not> forked p (before @ after)"
proof -
  from assms obtain r tr1 where w: "WaitForWorker K tr = Some (r, tr1)"
    by (auto simp: Supervise_def split: option.splits)
  then obtain before where before: "tr1 = tr @ before @ [(SysWaitpid (-1), r)]"
    "\<forall>p. \<not> signalled p before" "\<forall>p. \<not> forked p before" "\<not> interrupted r"
    by (rule WaitForWorker_run)
  let ?st = "if expected_stop r then EXIT_SUCCESS else EXIT_FAILURE"
  consider (first) "ret r = kb" "0 \<le> ret r" "StopWorker K tp tr1 = Some tr'"
    | (second) "ret r = tp" "ret r \<noteq> kb" "0 \<le> ret r" "StopWorker K kb tr1 = Some tr'"
    | (both) "0 < ret r \<longrightarrow> ret r \<notin> {kb, tp}" "stop_both K kb tp tr1 = Some tr'"
    using assms w by (auto simp: Supervise_def Let_def split: if_splits)
  note cases = this
  have st: "st = ?st"
    using assms w by (auto simp: Supervise_def Let_def expected_stop_def EXIT_SUCCESS_def split: if_splits)
  show thesis
  proof (cases rule: cases)
    case first
    from first(3) obtain after where "tr' = tr1 @ after" "0 < tp \<longrightarrow> stopped tp after"
      "\<forall>p. signalled p after \<longrightarrow> p = tp \<and> 0 < tp" "\<forall>p. \<not> forked p after" by (rule StopWorker_run)
    then show thesis using before first st by (intro that [of before r after]) auto
  next
    case second
    from second(4) obtain after where "tr' = tr1 @ after" "0 < kb \<longrightarrow> stopped kb after"
      "\<forall>p. signalled p after \<longrightarrow> p = kb \<and> 0 < kb" "\<forall>p. \<not> forked p after" by (rule StopWorker_run)
    then show thesis using before second st by (intro that [of before r after]) auto
  next
    case both
    from both(2) obtain after where "tr' = tr1 @ after" "0 < kb \<longrightarrow> stopped kb after"
      "0 < tp \<longrightarrow> stopped tp after"
      "\<forall>p. signalled p after \<longrightarrow> p \<in> {kb, tp} \<and> 0 < p" "\<forall>p. \<not> forked p after" by (rule stop_both_run)
    then show thesis using before both(1) st by (intro that [of before r after]) auto
  qed
qed

lemma fail_run:
  assumes "fail K kb tp tr = Some (st, tr')"
  shows "st = EXIT_FAILURE \<and> (\<exists>ext. tr' = tr @ ext \<and> (0 < kb \<longrightarrow> stopped kb ext) \<and>
    (0 < tp \<longrightarrow> stopped tp ext) \<and> (\<forall>p. \<not> forked p ext))"
proof -
  from assms have "stop_both K kb tp tr = Some tr'" "st = EXIT_FAILURE" by (auto simp: fail_def)
  from this(1) obtain ext where "tr' = tr @ ext" "0 < kb \<longrightarrow> stopped kb ext" "0 < tp \<longrightarrow> stopped tp ext"
    "\<forall>p. \<not> forked p ext" by (rule stop_both_run)
  with \<open>st = EXIT_FAILURE\<close> show ?thesis by blast
qed

definition reaped_first :: "int \<Rightarrow> trace \<Rightarrow> bool" where
  "reaped_first p tr \<longleftrightarrow> (\<exists>r. (SysWaitpid (-1), r) \<in> set tr \<and> ret r = p \<and> \<not> interrupted r)"

lemma start_workers_run:
  assumes "start_workers K [] = Some (st, tr)"
  shows "st \<in> {EXIT_SUCCESS, EXIT_FAILURE} \<and>
    (\<forall>p. forked p tr \<and> 0 < p \<longrightarrow> stopped p tr \<or> reaped_first p tr)"
proof -
  let ?r1 = "K [] SysFork"
  let ?r2 = "K [(SysFork, ?r1)] SysFork"
  consider (none) "ret ?r1 < 0" "fail K (-1) (-1) [(SysFork, ?r1)] = Some (st, tr)"
    | (one) "ret ?r2 < 0" "fail K (ret ?r1) (-1) [(SysFork, ?r1), (SysFork, ?r2)] = Some (st, tr)"
    | (two) "Supervise K (ret ?r1) (ret ?r2) [(SysFork, ?r1), (SysFork, ?r2)] = Some (st, tr)"
    using assms by (auto simp: start_workers_def SpawnWorker_def Let_def split: if_splits)
  then show ?thesis
  proof cases
    case none
    from fail_run [OF none(2)] none(1) show ?thesis by auto
  next
    case one
    from fail_run [OF one(2)] one(1) stopped_append(2) show ?thesis by fastforce
  next
    case two
    from two obtain r before after where tr: "tr = [(SysFork, ?r1), (SysFork, ?r2)] @ before @ [(SysWaitpid (-1), r)] @ after"
      "\<not> interrupted r" "st = (if expected_stop r then EXIT_SUCCESS else EXIT_FAILURE)"
      "\<forall>p \<in> {ret ?r1, ret ?r2}. 0 < p \<longrightarrow> ret r = p \<or> stopped p after"
      "\<forall>p. \<not> forked p (before @ after)" by (rule Supervise_run)
    have "stopped p tr \<or> reaped_first p tr" if "forked p tr" "0 < p" for p
    proof -
      have "p \<in> {ret ?r1, ret ?r2}" using that(1) tr(1,5) by auto
      with that(2) tr(4) consider "ret r = p" | "stopped p after" by blast
      then show ?thesis
      proof cases
        case 1
        with tr(1,2) show ?thesis by (auto simp: reaped_first_def)
      next
        case 2
        then show ?thesis unfolding tr(1) by (intro disjI1 stopped_append(2))
      qed
    qed
    with tr(3) show ?thesis by auto
  qed
qed

text \<open>
  C12: the supervisor from its start to its exit. However it ends, with whatever the kernel
  answers to \<^verbatim>\<open>fork\<close>, \<^verbatim>\<open>waitpid\<close> and \<^verbatim>\<open>kill\<close>, each worker it has started has either been reaped by the
  first wait or been told to terminate and then waited for, so none is left running; and the
  exit status is 0 or 1.
\<close>

theorem no_worker_survives:
  assumes "main K default_directory hardware_row arguments = Some (st, tr)"
  shows "st \<in> {EXIT_SUCCESS, EXIT_FAILURE} \<and>
    (\<forall>p. forked p tr \<and> 0 < p \<longrightarrow> stopped p tr \<or> reaped_first p tr)"
proof -
  consider "(st, tr) \<in> {(EXIT_SUCCESS, []), (EXIT_FAILURE, [])}" | "fail K (-1) (-1) [] = Some (st, tr)"
    | "start_workers K [] = Some (st, tr)"
    using assms by (auto simp: main_def Let_def split: prod.splits ParseResult.splits option.splits sum.splits)
  then show ?thesis
  proof cases
    case 3
    then show ?thesis by (rule start_workers_run)
  qed (auto dest: fail_run)
qed

text \<open>
  A kernel that forks two children, interrupts the first wait once and then reports that the
  first child has exited with the given status; waiting for a named process succeeds.
\<close>

definition forking_kernel :: "int \<Rightarrow> kernel" where
  "forking_kernel status tr c =
     (case c of
        SysFork \<Rightarrow> \<lparr>ret = 100 + int (length tr), err = 0, payload = NoData\<rparr>
      | SysWaitpid pid \<Rightarrow>
          if length tr = 2 then \<lparr>ret = -1, err = EINTR, payload = NoData\<rparr>
          else \<lparr>ret = (if pid = -1 then 100 else pid), err = 0, payload = WaitStatus status\<rparr>
      | _ \<Rightarrow> \<lparr>ret = 0, err = 0, payload = NoData\<rparr>)"

definition forking_main :: "int \<Rightarrow> (int \<times> trace) option" where
  "forking_main status = main (forking_kernel status) ''/etc'' (\<lambda>_. Inr (Some (sample_hw 0))) []"

lemma forking_main_starts: "forking_main status = start_workers (forking_kernel status) []"
proof -
  have "LoadHardwareConfig path (Inr (Some (sample_hw 0))) = Inr (sample_hw 0)" for path
    by (simp add: LoadHardwareConfig_def Validate_def sample_hw_def isfinite_def IsSupportedRotation_def)
  moreover have "ParseOptions [] (Some default_options) (Some []) = (kSuccess, Some default_options, Some [])"
    by (simp add: ParseOptions_def)
  ultimately show ?thesis by (simp add: forking_main_def main_def Let_def)
qed

lemma forking_main_run:
  "map_option (\<lambda>(st, tr). (st, map (\<lambda>x. (fst x, ret (snd x))) tr)) (forking_main 0) =
     Some (EXIT_SUCCESS, [(SysFork, 100), (SysFork, 101), (SysWaitpid (-1), -1), (SysWaitpid (-1), 100),
       (SysKill 101 SIGTERM, 0), (SysWaitpid 101, 101)])"
  unfolding forking_main_starts by code_simp

theorem no_worker_survives_witness:
  "\<exists>tr. forking_main 0 = Some (EXIT_SUCCESS, tr) \<and> forked 101 tr \<and> (stopped 101 tr \<or> reaped_first 101 tr)"
proof -
  from forking_main_run obtain tr where run: "forking_main 0 = Some (EXIT_SUCCESS, tr)"
    and tr: "map (\<lambda>x. (fst x, ret (snd x))) tr = [(SysFork, 100), (SysFork, 101), (SysWaitpid (-1), -1),
      (SysWaitpid (-1), 100), (SysKill 101 SIGTERM, 0), (SysWaitpid 101, 101)]" by auto
  then have "forked 101 tr" by (auto simp: forked_def map_eq_Cons_conv)
  with no_worker_survives [OF run [unfolded forking_main_def]] run show ?thesis by auto
qed

text \<open>
  C13: supervision. The exit status is success exactly if the first worker to end exited with
  status 0. Nothing is signalled before that worker has been reaped; afterwards a worker is
  signalled only if it is not the one that was reaped, so the signal cannot hit a process that
  has taken over its number, and each other worker is terminated and waited for.
\<close>

theorem supervision_is_correct:
  assumes "Supervise K keyboard_pid touchpad_pid tr = Some (st, tr')" and "keyboard_pid \<noteq> touchpad_pid"
  shows "\<exists>r before after. tr' = tr @ before @ [(SysWaitpid (-1), r)] @ after \<and> \<not> interrupted r \<and>
    (st = EXIT_SUCCESS \<longleftrightarrow> expected_stop r) \<and> (\<forall>p. \<not> signalled p before) \<and>
    (\<forall>p \<in> {keyboard_pid, touchpad_pid}. 0 < p \<longrightarrow>
       (if ret r = p then \<not> signalled p after else stopped p after))"
proof -
  from assms(1) obtain r before after where run: "tr' = tr @ before @ [(SysWaitpid (-1), r)] @ after"
    "\<not> interrupted r" "\<forall>p. \<not> signalled p before"
    "st = (if expected_stop r then EXIT_SUCCESS else EXIT_FAILURE)"
    "\<forall>p \<in> {keyboard_pid, touchpad_pid}. 0 < p \<longrightarrow> ret r = p \<or> stopped p after"
    "keyboard_pid \<noteq> touchpad_pid \<longrightarrow> (\<forall>p. signalled p after \<longrightarrow> p \<in> {keyboard_pid, touchpad_pid} \<and> 0 < p \<and> ret r \<noteq> p)"
    by (rule Supervise_run)
  have "st = EXIT_SUCCESS \<longleftrightarrow> expected_stop r" using run(4) by (simp add: EXIT_SUCCESS_def EXIT_FAILURE_def)
  with run assms(2) show ?thesis by (intro exI [of _ r] exI [of _ before] exI [of _ after]) auto
qed

theorem supervision_is_correct_witness:
  "\<exists>tr'. Supervise (forking_kernel 256) 100 101 [] = Some (EXIT_FAILURE, tr') \<and>
     (\<exists>r before after. tr' = before @ [(SysWaitpid (-1), r)] @ after \<and> \<not> expected_stop r \<and>
        (if ret r = 100 then \<not> signalled 100 after else stopped 100 after))"
proof -
  have "map_option fst (Supervise (forking_kernel 256) 100 101 []) = Some EXIT_FAILURE" by code_simp
  then obtain tr' where run: "Supervise (forking_kernel 256) 100 101 [] = Some (EXIT_FAILURE, tr')" by auto
  from supervision_is_correct [OF run] obtain r before after where
    "tr' = before @ [(SysWaitpid (-1), r)] @ after" "\<not> expected_stop r"
    "if ret r = 100 then \<not> signalled 100 after else stopped 100 after"
    by (auto simp: EXIT_SUCCESS_def EXIT_FAILURE_def)
  with run show ?thesis by blast
qed

text \<open>
  From the worker's exception to the program's exit status. When the first worker to end
  exits with the status of its outcome, the program succeeds exactly if that worker ended with
  a system error whose code is that of a missing file or device, which is how the panel
  disappears when the surface enters pen mode; every other end of a worker is a failure.
\<close>

theorem pen_mode_is_a_success:
  assumes "Supervise K keyboard_pid touchpad_pid tr = Some (st, tr')"
    and "WaitForWorker K tr = Some (x, tr1)" and "0 \<le> ret x" and "payload x = WaitStatus (256 * status)"
    and "worker_exit r = Some status"
  shows "st = EXIT_SUCCESS \<longleftrightarrow> (\<exists>code what. r = Inl (SystemError code what) \<and> code \<in> {ENOENT, ENODEV})"
proof -
  have "st = (if expected_stop x then EXIT_SUCCESS else EXIT_FAILURE)"
    using assms(1-3) by (auto simp: Supervise_def Let_def expected_stop_def EXIT_SUCCESS_def split: if_splits)
  moreover have "status = EXIT_SUCCESS \<longleftrightarrow> (\<exists>code what. r = Inl (SystemError code what) \<and> code \<in> {ENOENT, ENODEV})"
    and "status \<in> {EXIT_SUCCESS, EXIT_FAILURE}"
    using assms(5)
    by (auto simp: worker_exit_def IsExpectedSourceDeviceError_def EXIT_SUCCESS_def EXIT_FAILURE_def
        split: sum.splits exn.splits if_splits)
  ultimately show ?thesis
    using assms(3,4)
    by (auto simp: expected_stop_def stored_status_def WIFEXITED_def WEXITSTATUS_def EXIT_SUCCESS_def
        EXIT_FAILURE_def)
qed

theorem pen_mode_is_a_success_witness:
  "\<exists>tr'. Supervise (forking_kernel 0) 100 101 [] = Some (EXIT_SUCCESS, tr')"
proof -
  have "map_option (\<lambda>_. ()) (Supervise (forking_kernel 0) 100 101 []) = Some ()" by code_simp
  then obtain st tr' where run: "Supervise (forking_kernel 0) 100 101 [] = Some (st, tr')" by auto
  let ?r = "forking_kernel 0 [] (SysWaitpid (-1))"
  have wait: "WaitForWorker (forking_kernel 0) [] = Some (?r, [(SysWaitpid (-1), ?r)])"
    using wait_done [of "forking_kernel 0" "[]" "-1"]
    by (simp add: WaitForWorker_def forking_kernel_def interrupted_def)
  have "worker_exit (Inl (SystemError ENODEV ''read input device'') :: exn + unit) = Some 0"
    by (simp add: worker_exit_def IsExpectedSourceDeviceError_def EXIT_SUCCESS_def)
  from pen_mode_is_a_success [OF run wait _ _ this] have "st = EXIT_SUCCESS"
    by (simp add: forking_kernel_def)
  with run show ?thesis by blast
qed

text \<open>
  The code of the error is all that counts: a virtual device that is lost while an event is
  sent to it ends the program as pen mode does.
\<close>

lemma lost_virtual_device_counts_as_pen_mode:
  assumes "ret (K (trace w) (SysWrite (uinput_fd w) (input_ev (to_u16 t) (to_u16 c) v))) < 0"
    and "err (K (trace w) (SysWrite (uinput_fd w) (input_ev (to_u16 t) (to_u16 c) v))) = ENODEV"
  shows "worker_exit (fst (SendEvent K t c v w)) = Some EXIT_SUCCESS"
  using assms by (simp add: SendEvent_def worker_exit_def IsExpectedSourceDeviceError_def)

section \<open>Termination\<close>

text \<open>A kernel that does not interrupt a wait for ever.\<close>

definition patient :: "kernel \<Rightarrow> bool" where
  "patient K \<longleftrightarrow> (\<forall>pid tr. \<exists>n. \<not> still_interrupted K pid tr n)"

lemma patient_wait: "patient K \<Longrightarrow> \<exists>res. wait_uninterrupted K pid tr = Some res"
  using wait_returns unfolding patient_def by blast

lemma patient_StopWorker: "patient K \<Longrightarrow> \<exists>tr'. StopWorker K pid tr = Some tr'"
  using patient_wait [of K pid] by (simp add: StopWorker_def Let_def) (metis option.simps(9))

lemma patient_stop_both: "patient K \<Longrightarrow> \<exists>tr'. stop_both K kb tp tr = Some tr'"
  using patient_StopWorker [of K] unfolding stop_both_def by (metis bind.bind_lunit)

lemma patient_Supervise:
  assumes "patient K"
  shows "\<exists>res. Supervise K kb tp tr = Some res"
proof -
  obtain r tr1 where "WaitForWorker K tr = Some (r, tr1)"
    using patient_wait [OF assms, of "-1" tr] by (auto simp: WaitForWorker_def)
  then show ?thesis
    using patient_StopWorker [OF assms] patient_stop_both [OF assms]
    by (simp add: Supervise_def Let_def)
qed

text \<open>
  C14: a wait returns exactly if it is not interrupted for ever, and the whole program returns,
  for every command line and every configuration, on a kernel that interrupts no wait for ever.
\<close>

theorem program_terminates:
  "(wait_uninterrupted K pid tr \<noteq> None \<longleftrightarrow> (\<exists>n. \<not> still_interrupted K pid tr n)) \<and>
   (patient K \<longrightarrow> main K default_directory hardware_row arguments \<noteq> None)"
proof
  show "wait_uninterrupted K pid tr \<noteq> None \<longleftrightarrow> (\<exists>n. \<not> still_interrupted K pid tr n)"
    by (rule wait_returns_iff)
  have fail: "patient K \<Longrightarrow> \<exists>res. fail K kb tp tr = Some res" for kb tp tr
    using patient_stop_both [of K kb tp tr] by (auto simp: fail_def)
  have "patient K \<Longrightarrow> \<exists>res. start_workers K tr = Some res" for tr
    using fail patient_Supervise by (simp add: start_workers_def split: prod.split sum.split)
  with fail show "patient K \<longrightarrow> main K default_directory hardware_row arguments \<noteq> None"
    by (auto simp: main_def Let_def split: prod.split ParseResult.split option.split sum.split)
qed

theorem program_terminates_witness: "forking_main 0 \<noteq> None \<and> patient (forking_kernel 0)"
proof -
  have "\<not> still_interrupted (forking_kernel 0) pid tr (if length tr = 2 then 1 else 0)" for pid tr
    by (simp add: still_interrupted_def forking_kernel_def interrupted_def)
  then have "patient (forking_kernel 0)" unfolding patient_def by blast
  with program_terminates [of "forking_kernel 0"] show ?thesis by (auto simp: forking_main_def)
qed

end
