(* ===== verification/Keyboard_Liveness.thy ===== *)
theory Keyboard_Liveness
  imports Keyboard_Process
begin

text \<open>
  The keyboard worker does not spin: time is taken from the trace of its calls, a wait that times
  out ends after the first deadline and shortens the queue, and only events of the panel lengthen
  it, by a bounded number.
\<close>

section \<open>Time in the trace\<close>

text \<open>
  What \<^verbatim>\<open>clock_gettime\<close> and \<^verbatim>\<open>select\<close> promise: every reading of the clock is normalised and not
  before the last one, and a \<^verbatim>\<open>select\<close> that reports a timeout has slept for the whole interval.
  \<open>ns\<close> is the last reading and \<open>slept\<close> the time slept since, in nanoseconds.
\<close>

fun timely :: "int \<Rightarrow> int \<Rightarrow> trace \<Rightarrow> bool" where
  "timely ns slept [] \<longleftrightarrow> True"
| "timely ns slept ((SysClock, r) # tr) \<longleftrightarrow>
     (case payload r of
        Clock ts \<Rightarrow> normal_ts ts \<and> ns + slept \<le> to_ns ts \<and> timely (to_ns ts) 0 tr
      | _ \<Rightarrow> False)"
| "timely ns slept ((SysSelect fd sec usec, r) # tr) \<longleftrightarrow>
     timely ns (slept + (if ret r = 0 then (sec * 1000000 + usec) * 1000 else 0)) tr"
| "timely ns slept (x # tr) \<longleftrightarrow> timely ns slept tr"

text \<open>Writing takes no part in this.\<close>

fun is_write :: "syscall \<times> sysret \<Rightarrow> bool" where
  "is_write (SysWrite fd e, r) \<longleftrightarrow> True"
| "is_write (c, r) \<longleftrightarrow> False"

lemma timely_writes: "list_all is_write tr \<Longrightarrow> timely ns slept (tr @ tr') \<longleftrightarrow> timely ns slept tr'"
proof (induction tr)
  case (Cons x tr)
  then show ?case by (cases x rule: is_write.cases) simp_all
qed simp

lemma reads_writes: "list_all is_write tr \<Longrightarrow> reads tr = 0"
proof (induction tr)
  case (Cons x tr)
  then show ?case by (cases x rule: is_write.cases) simp_all
qed simp

section \<open>What performing the outputs does to the trace\<close>

lemma write_calls:
  "calls is_write (SendEvent K t c v)" "calls is_write (PlayEffect K m i)"
  by (rule callsI; auto simp: SendEvent_def PlayEffect_def split: if_splits)+

lemma perform_all_writes: "calls is_write (perform_all K mgr outs)"
proof (induction outs)
  case (Cons out outs)
  have "calls is_write (perform K mgr out)"
    by (cases out) (auto simp: EventTriggered_def PlayEffectOfEvent_def write_calls
        intro!: calls_bind split: option.split)
  with Cons show ?case by (auto intro: calls_bind)
qed simp

section \<open>How fast the queue grows\<close>

lemma length_EnqueueEvent [simp]: "length (EnqueueEvent e q) = Suc (length q)"
  by (induction q) auto

lemma length_EnqueueKeyUpEvent [simp]: "length (EnqueueKeyUpEvent c now q) = Suc (length q)"
  by (simp add: EnqueueKeyUpEvent_def)

lemma reject_growth:
  "length (pending_events (RejectFinger tid r (kb\<lparr>fingers := F\<rparr>))) \<le> length (pending_events kb)"
  using RejectFinger_pending_length [of tid r "kb\<lparr>fingers := F\<rparr>"] by simp

lemma process_finger_growth:
  assumes "process_finger now tid finger kb = Inr (outs, kb')"
  shows "length (pending_events kb') \<le> Suc (length (pending_events kb))"
proof (cases "fingers kb tid")
  case None
  with assms show ?thesis
    by (auto simp: process_finger_def arriving_finger_def GenerateEventForArrivingFinger_def Let_def
        split: option.splits if_splits)
next
  case (Some data)
  with assms show ?thesis
    by (auto simp: process_finger_def known_finger_def Let_def le_SucI reject_growth split: if_splits sum.splits bool.splits)
qed

lemma process_fingers_growth:
  "process_fingers now snap order kb = Inr (outs, kb') \<Longrightarrow>
     length (pending_events kb') \<le> length (pending_events kb) + length order"
proof (induction order arbitrary: kb outs)
  case (Cons tid order)
  show ?case
  proof (cases "snap tid")
    case None
    with Cons.prems Cons.IH [of kb outs] show ?thesis by simp
  next
    case (Some finger)
    with Cons.prems obtain outs1 kb1 outs2 where one: "process_finger now tid finger kb = Inr (outs1, kb1)"
      and two: "process_fingers now snap order kb1 = Inr (outs2, kb')"
      by (auto split: sum.splits)
    from process_finger_growth [OF one] Cons.IH [OF two] show ?thesis by simp
  qed
qed simp

lemma missing_finger_growth:
  "length (pending_events (missing_finger now snap tid kb)) \<le>
     length (pending_events kb) + (if fingers kb tid \<noteq> None \<and> snap tid = None then 1 else 0)"
  by (auto simp: missing_finger_def HandleLeavingFinger_def Let_def case_prod_beta
      split: option.split)

lemma process_missing_growth:
  "length (pending_events (process_missing now snap tids kb)) \<le>
     length (pending_events kb) + length (filter (\<lambda>tid. snap tid = None) tids)"
proof (induction tids arbitrary: kb)
  case (Cons tid tids)
  from Cons.IH [of "missing_finger now snap tid kb"] missing_finger_growth [of now snap tid kb]
  show ?case by (auto split: if_splits)
qed simp

lemma fire_loop_length:
  "fire_loop now kb = Inr (outs, kb') \<Longrightarrow> length (pending_events kb') \<le> length (pending_events kb) \<and>
     (\<forall>e q. pending_events kb = e # q \<longrightarrow> \<not> now < pe_deadline e \<longrightarrow>
        length (pending_events kb') < length (pending_events kb))"
proof (induction now kb arbitrary: outs kb' rule: fire_loop.induct)
  case (1 now kb)
  show ?case
  proof (cases "pending_events kb")
    case Nil
    with "1.prems" show ?thesis by (simp add: fire_loop.simps [of now kb])
  next
    case (Cons e rest)
    show ?thesis
    proof (cases "now < pe_deadline e")
      case True
      with Cons "1.prems" show ?thesis by (simp add: fire_loop.simps [of now kb])
    next
      case False
      from "1.prems" Cons False obtain outs1 kb1 outs2 where
        one: "fire_event e (kb\<lparr>pending_events := rest\<rparr>) = Inr (outs1, kb1)"
        and two: "fire_loop now kb1 = Inr (outs2, kb')"
        by (auto simp: fire_loop.simps [of now kb] split: sum.splits)
      from "1.IH" [OF Cons _ one refl two] False fire_event_pending_length [OF one] Cons
      show ?thesis by simp
    qed
  qed
qed

text \<open>A timeout with a due event shortens the queue; an event lengthens it by two frames' fingers at most.\<close>

lemma timeout_shortens:
  assumes "consume_event now None order tids kb = Inr (outs, kb')"
    and "pending_events kb = e # q" and "pe_deadline e \<le> now"
  shows "length (pending_events kb') < length (pending_events kb)"
  using assms fire_loop_length [of now kb]
  by (auto simp: consume_event_def fire_pending_def not_less split: sum.splits)

lemma completed_frame_small:
  assumes "completed_frame ready sm = Some snap" and "wf_mt sm"
  shows "card (dom snap) \<le> kNumSlots \<and> finite (dom snap)"
proof -
  from assms(1) obtain ev where ev: "ready = Some ev" by (auto simp: completed_frame_def split: option.splits)
  have "snap = FillSnapshot sm"
    using assms(1) AddEvent_result [of ev "Some Map.empty" sm]
    by (auto simp: completed_frame_def ev Let_def split: bool.splits if_splits)
  with card_dom_FillSnapshot [OF assms(2)] show ?thesis by simp
qed

lemma event_growth:
  assumes run: "consume_event now ready order tids kb = Inr (outs, kb')"
    and ok: "iteration_ok clock now ready order tids kb" and wf: "wf_mt (kb_sm kb)"
    and few: "card (dom (fingers kb)) \<le> kNumSlots" "finite (dom (fingers kb))"
  shows "length (pending_events kb') \<le> length (pending_events kb) + 2 * kNumSlots"
proof (cases rule: consume_event_cases [of ready now order tids kb])
  case timeout
  with run fire_loop_length [of now kb] show ?thesis
    by (auto simp: fire_pending_def split: sum.splits)
next
  case (partial ev)
  with run show ?thesis by auto
next
  case (frame ev snap)
  let ?kb = "kb\<lparr>kb_sm := mt_step ev (kb_sm kb)\<rparr>"
  from run [unfolded frame(3)] obtain outs1 kb2 outs2 where
    p: "ProcessIncomingSnapshot now snap order tids ?kb = Inr (outs1, kb2)"
    and f: "fire_pending now kb2 = Inr (outs2, kb')" by auto
  from p obtain kb1 where one: "process_fingers now snap order ?kb = Inr (outs1, kb1)"
    and kb2: "kb2 = process_missing now snap tids kb1"
    by (auto simp: ProcessIncomingSnapshot_def split: sum.splits)
  from f obtain outs3 where two: "fire_loop now kb2 = Inr (outs3, kb')"
    by (auto simp: fire_pending_def split: sum.splits)
  note snap = completed_frame_small [OF frame(2) wf]
  have en: "enumerates order (dom snap)" "enumerates tids (dom (fingers kb) \<union> dom snap)"
    using ok frame(2) by (simp_all add: iteration_ok_def)
  have "length order \<le> kNumSlots"
    using distinct_card [of order] enumeratesD [OF en(1)] snap by simp
  moreover have "length (filter (\<lambda>tid. snap tid = None) tids) \<le> kNumSlots"
  proof -
    let ?l = "filter (\<lambda>tid. snap tid = None) tids"
    have "distinct ?l" using enumeratesD(1) [OF en(2)] by simp
    then have "length ?l = card (set ?l)" by (simp only: distinct_card)
    also have "\<dots> \<le> card (dom (fingers kb))"
      using enumeratesD(2) [OF en(2)] by (intro card_mono few(2)) auto
    finally show ?thesis using few(1) by simp
  qed
  ultimately show ?thesis
    using process_fingers_growth [OF one] process_missing_growth [of now snap tids kb1]
      fire_loop_length [OF two] by (simp add: kb2)
qed

section \<open>Waiting\<close>

text \<open>The calls of a wait that returns: it either reads one event or times out on the front of the queue.\<close>

lemma read_clock_Inr:
  assumes "read_clock K w = (Inr ts, w')"
  obtains r where "trace w' = trace w @ [(SysClock, r)]" "payload r = Clock ts" "source_fd w' = source_fd w"
  using assms by (auto simp: read_clock_def split: payload.splits)

lemma GetNextEvent_Inr:
  assumes "GetNextEvent K t False w = (Inr ready, w')"
  obtains (timeout) r where "ready = None" "0 \<le> t" "ret r = 0"
      "trace w' = trace w @ [(SysSelect (source_fd w) (t div 1000) (t mod 1000 * 1000), r)]"
  | (event) r where "ready \<noteq> None" "trace w' = trace w @ [(SysRead (source_fd w), r)]"
  | (ready) r1 r2 where "ready \<noteq> None" "0 \<le> t" "ret r1 \<noteq> 0" 
      "trace w' = trace w @ [(SysSelect (source_fd w) (t div 1000) (t mod 1000 * 1000), r1),
                             (SysRead (source_fd w), r2)]"
  using assms
  by (auto simp: GetNextEvent_def read_event_run Let_def split: if_splits)

lemma kb_wait_calls:
  assumes "kb_wait K kb w = (Inr (now, ready), w')"
  obtains (event) ext where "trace w' = trace w @ ext" "reads ext = 1" "ready \<noteq> None"
      "\<And>ns tr. timely ns 0 (ext @ tr) \<Longrightarrow> ns \<le> to_ns now \<and> normal_ts now \<and> timely (to_ns now) 0 tr"
  | (timeout) e q now1 t r1 r2 r3 where "ready = None" "pending_events kb = e # q" "0 \<le> t"
      "t = consume_timeout now1 (e # q)" "payload r1 = Clock now1" "payload r3 = Clock now" "ret r2 = 0"
      "trace w' = trace w @ [(SysClock, r1), (SysSelect (source_fd w) (t div 1000) (t mod 1000 * 1000), r2),
                             (SysClock, r3)]"
proof -
  from assms obtain now1 w1 w2 where
    c1: "read_clock K w = (Inr now1, w1)"
    and g: "GetNextEvent K (consume_timeout now1 (pending_events kb)) False w1 = (Inr ready, w2)"
    and c2: "read_clock K w2 = (Inr now, w')"
    by (auto simp: kb_wait_def io_bind_eq)
  obtain r1 where r1: "trace w1 = trace w @ [(SysClock, r1)]" "payload r1 = Clock now1"
    "source_fd w1 = source_fd w" by (rule read_clock_Inr [OF c1])
  obtain r3 where r3: "trace w' = trace w2 @ [(SysClock, r3)]" "payload r3 = Clock now"
    by (rule read_clock_Inr [OF c2])
  from g show thesis
  proof (cases rule: GetNextEvent_Inr)
    case (timeout r)
    then obtain e q where "pending_events kb = e # q"
      by (cases "pending_events kb") (auto simp: consume_timeout_def)
    with timeout r1 r3 that(2) [of e q "consume_timeout now1 (e # q)" now1 r1 r3 r] show thesis by simp
  next
    case (event r)
    with r1 r3 that(1) [of "[(SysClock, r1), (SysRead (source_fd w), r), (SysClock, r3)]"]
    show thesis by auto
  next
    case (ready x y)
    with r1 r3 that(1) [of "[(SysClock, r1), (SysSelect (source_fd w) (consume_timeout now1 (pending_events kb) div 1000)
      (consume_timeout now1 (pending_events kb) mod 1000 * 1000), x), (SysRead (source_fd w), y), (SysClock, r3)]"]
    show thesis by auto
  qed
qed

lemma timed_out_deadline:
  assumes reach: "reachable ks s" and q: "pending_events (conf_kb s) = e # q"
    and now1: "normal_ts now1" "to_ns (conf_clock s) \<le> to_ns now1" and now: "normal_ts now"
    and slept: "to_ns now1 + consume_timeout now1 (e # q) * 1000000 \<le> to_ns now"
  shows "pe_deadline e \<le> now"
proof -
  note inv = reachable_kinv [OF reach]
  have e: "normal_ts (pe_deadline e)" using kinvD(3) [OF inv, of e] q by (simp add: event_ok_def)
  show ?thesis
  proof (cases "now1 < pe_deadline e")
    case True
    then have "to_ns now1 < to_ns (pe_deadline e)" using less_to_ns [OF now1(1) e] by simp
    moreover have "conf_clock s \<le> now1" using now1 kinvD(1) [OF inv] by (simp add: le_to_ns)
    ultimately have "to_ns (pe_deadline e) \<le> to_ns now"
      using wait_covers_deadline [OF reach now1(1) _ q] slept by simp
    with e now show ?thesis by (simp add: le_to_ns)
  next
    case False
    moreover have "0 \<le> consume_timeout now1 (e # q)" by (simp add: consume_timeout_nonneg)
    ultimately show ?thesis using slept now1(1) now e by (simp add: not_less le_to_ns)
  qed
qed

section \<open>The fingers known\<close>

lemma reachable_few_fingers:
  assumes "reachable ks s"
  shows "finite (dom (fingers (conf_kb s))) \<and> card (dom (fingers (conf_kb s))) \<le> kNumSlots"
proof -
  from assms obtain t where t: "normal_ts t" and run: "kb_step\<^sup>*\<^sup>* (conf_initial ks t) s"
    by (auto simp: reachable_def)
  from run show ?thesis
  proof (induction rule: rtranclp_induct)
    case base
    then show ?case by (simp add: conf_initial_def kb_initial_def)
  next
    case (step s s')
    have inv: "conf_inv ks s" using t step(1) by (intro reachable_inv) (auto simp: reachable_def)
    from step(2) show ?case
    proof (rule kb_stepE)
      fix now ready order tids outs kb'
      assume s': "s' = \<lparr>conf_kb = kb', conf_clock = now, conf_sent = conf_sent s @ outs\<rparr>"
        and ok: "iteration_ok (conf_clock s) now ready order tids (conf_kb s)"
        and run: "consume_event now ready order tids (conf_kb s) = Inr (outs, kb')"
      have "dom (fingers kb') = (case completed_frame ready (kb_sm (conf_kb s)) of
          None \<Rightarrow> dom (fingers (conf_kb s)) | Some snap \<Rightarrow> dom snap)"
        using conf_inv_iteration [OF inv ok] run by auto
      then show ?thesis
        using step.IH completed_frame_small [of ready "kb_sm (conf_kb s)"] inv
        by (auto simp: s' conf_inv_def split: option.splits)
    qed
  qed
qed

section \<open>Progress\<close>

text \<open>Whatever the loop does, it only adds to the trace.\<close>

lemma kb_Consume_calls: "calls (\<lambda>_. True) (kb_Consume K mgr orders kb)"
proof -
  have "calls (\<lambda>_. True) (GetNextEvent K t False)" for t
    by (rule callsI) (auto simp: GetNextEvent_def read_event_run Let_def split: if_splits)
  moreover have "calls (\<lambda>_. True) (perform_all K mgr outs)" for outs
    by (rule calls_mono [OF perform_all_writes]) simp
  ultimately have "calls (\<lambda>_. True) (kb_iteration K mgr order tids kb)" for order tids kb
    by (auto simp: kb_iteration_def kb_wait_def kb_react_def read_clock_def intro!: calls_bind
        split: payload.split sum.split)
  then show ?thesis
    by (induction K mgr orders kb rule: kb_Consume.induct) (auto intro!: calls_bind)
qed

lemma react_calls:
  assumes "kb_react K mgr now ready order tids kb w = (Inr kb', w')"
  obtains outs ext where "consume_event now ready order tids kb = Inr (outs, kb')"
    and "trace w' = trace w @ ext" and "list_all is_write ext"
proof -
  from assms obtain outs w1 where c: "consume_event now ready order tids kb = Inr (outs, kb')"
    and p: "perform_all K mgr outs w = (Inr (), w')"
    by (auto simp: kb_react_def io_bind_eq split: sum.splits)
  obtain ext where "trace w' = trace w @ ext" "\<forall>x \<in> set ext. is_write x"
    by (rule callsE [OF perform_all_writes p])
  with c that show thesis by (simp add: list_all_iff)
qed

text \<open>One iteration: it passes the time on, and reads an event or shortens the queue.\<close>

lemma iteration_progress:
  assumes reach: "reachable ks s" and ok: "iteration_ok (conf_clock s) now ready order tids (conf_kb s)"
    and wait: "kb_wait K (conf_kb s) w = (Inr (now, ready), w1)"
    and c: "consume_event now ready order tids (conf_kb s) = Inr (outs, kb1)"
    and e2: "trace w2 = trace w1 @ e2" "list_all is_write e2"
  obtains e1 where "trace w2 = trace w @ e1"
    and "\<And>tr. timely (to_ns (conf_clock s)) 0 (e1 @ tr) \<Longrightarrow> timely (to_ns now) 0 tr \<and>
      Suc (length (pending_events kb1)) \<le> length (pending_events (conf_kb s)) + (2 * kNumSlots + 1) * reads e1"
proof -
  note e2w = timely_writes [OF e2(2)] reads_writes [OF e2(2)]
  from wait show thesis
  proof (cases rule: kb_wait_calls)
    case (event e)
    have few: "finite (dom (fingers (conf_kb s)))" "card (dom (fingers (conf_kb s))) \<le> kNumSlots"
      using reachable_few_fingers [OF reach] by simp_all
    have wf: "wf_mt (kb_sm (conf_kb s))" using reachable_inv [OF reach] by (simp add: conf_inv_def)
    have "timely (to_ns now) 0 tr" if "timely (to_ns (conf_clock s)) 0 (e @ e2 @ tr)" for tr
      using event(4) [OF that] by (simp add: e2w)
    with event_growth [OF c ok wf few(2,1)] event(2) show thesis
      by (intro that [of "e @ e2"]) (simp_all add: event(1) e2(1) e2w algebra_simps)
  next
    case (timeout e q now1 t r1 r2 r3)
    let ?e1 = "[(SysClock, r1), (SysSelect (source_fd w) (t div 1000) (t mod 1000 * 1000), r2), (SysClock, r3)]"
    have sleep: "1000000000 * (t div 1000) + 1000000 * (t mod 1000) = t * 1000000"
      using div_mult_mod_eq [of t 1000] by linarith
    show thesis
    proof (rule that [of "?e1 @ e2"])
      show "trace w2 = trace w @ ?e1 @ e2" by (simp add: timeout(8) e2(1))
      fix tr
      assume "timely (to_ns (conf_clock s)) 0 ((?e1 @ e2) @ tr)"
      then have time: "normal_ts now1" "to_ns (conf_clock s) \<le> to_ns now1" "normal_ts now"
        "to_ns now1 + t * 1000000 \<le> to_ns now" "timely (to_ns now) 0 tr"
        using timeout(5,6,7) by (simp_all add: e2w sleep)
      have "pe_deadline e \<le> now"
        by (rule timed_out_deadline [OF reach timeout(2) time(1,2,3)]) (use time(4) timeout(4) in simp)
      with timeout_shortens [OF c [unfolded timeout(1)] timeout(2)] time(5)
      show "timely (to_ns now) 0 tr \<and> Suc (length (pending_events kb1))
          \<le> length (pending_events (conf_kb s)) + (2 * kNumSlots + 1) * reads (?e1 @ e2)"
        by (simp add: e2w)
    qed
  qed
qed

lemma progress_bound:
  assumes "reachable ks s" and "kb_environment K mgr orders (conf_clock s) (conf_kb s) w"
    and "kb_Consume K mgr orders (conf_kb s) w = (Inr kb', w')"
    and "trace w' = trace w @ ext" and "timely (to_ns (conf_clock s)) 0 ext"
  shows "length orders + length (pending_events kb') \<le>
    length (pending_events (conf_kb s)) + (2 * kNumSlots + 1) * reads ext"
  using assms
proof (induction orders arbitrary: s w ext)
  case Nil
  then show ?case by simp
next
  case (Cons ord rest)
  obtain order tids where ord: "ord = (order, tids)" by fastforce
  from Cons.prems(3) obtain now ready w1 kb1 w2 where
    wait: "kb_wait K (conf_kb s) w = (Inr (now, ready), w1)"
    and react: "kb_react K mgr now ready order tids (conf_kb s) w1 = (Inr kb1, w2)"
    and run: "kb_Consume K mgr rest kb1 w2 = (Inr kb', w')"
    by (auto simp: ord kb_iteration_def io_bind_eq)
  have ok: "iteration_ok (conf_clock s) now ready order tids (conf_kb s)"
    and env: "kb_environment K mgr rest now kb1 w2"
    using Cons.prems(2) wait react by (auto simp: ord)
  obtain outs e2 where c: "consume_event now ready order tids (conf_kb s) = Inr (outs, kb1)"
    and e2: "trace w2 = trace w1 @ e2" "list_all is_write e2"
    by (rule react_calls [OF react])
  obtain e1 where e1: "trace w2 = trace w @ e1" and step:
      "\<And>tr. timely (to_ns (conf_clock s)) 0 (e1 @ tr) \<Longrightarrow> timely (to_ns now) 0 tr \<and>
        Suc (length (pending_events kb1)) \<le> length (pending_events (conf_kb s)) + (2 * kNumSlots + 1) * reads e1"
    using iteration_progress [OF Cons.prems(1) ok wait c e2] by blast
  let ?s = "\<lparr>conf_kb = kb1, conf_clock = now, conf_sent = conf_sent s @ outs\<rparr>"
  have reach: "reachable ks ?s" by (rule reachable_step [OF Cons.prems(1) kb_step.intros [OF ok c]])
  obtain e3 where e3: "trace w' = trace w2 @ e3" by (rule callsE [OF kb_Consume_calls run])
  have ext: "ext = e1 @ e3" using Cons.prems(4) e1 e3 by simp
  from Cons.IH [OF reach, of w2 e3] step [of e3] Cons.prems(5) env run e3 show ?case
    by (simp add: ord ext algebra_simps)
qed

text \<open>
  C9: the worker never spins. In every run of the loop that does not end with an exception the
  number of iterations is bounded by the number of events read from the panel and of key events
  pending at the start: an iteration either reads an event, which adds at most twenty key events,
  or sleeps until the first deadline has passed and takes at least that key event from the queue.
  In particular, when the panel is quiet the loop settles every pending event in as many
  iterations as there are, and then blocks until the next touch.
\<close>

theorem worker_does_not_spin:
  assumes "reachable ks s" and "kb_environment K mgr orders (conf_clock s) (conf_kb s) w"
    and "kb_Consume K mgr orders (conf_kb s) w = (Inr kb', w')"
    and "trace w' = trace w @ ext" and "timely (to_ns (conf_clock s)) 0 ext"
  shows "length orders + length (pending_events kb') \<le>
    length (pending_events (conf_kb s)) + (2 * kNumSlots + 1) * reads ext"
  using assms by (rule progress_bound)

text \<open>
  A touch, then silence: five events are read, the sixth iteration times out and sends the key.
\<close>

definition typing_start :: proc where
  "typing_start = snd (keyboard_setup typing_kernel ''/dev/halo_keyboard'' ''Halo Keyboard''
     [sample_key 30] proc_initial)"

definition typing_loop :: "(exn + keyboard) \<times> proc" where
  "typing_loop = kb_Consume typing_kernel silent_manager typing_orders (kb_initial [sample_key 30]) typing_start"

definition loop_trace :: trace where
  "loop_trace = drop (length (trace typing_start)) (trace (snd typing_loop))"

lemma typing_start_facts: "length (trace typing_start) = 6" "reads (trace typing_start) = 0"
  by code_simp+

lemma typing_loop_facts:
  "case_sum (\<lambda>_. False) (\<lambda>kb. pending_events kb = []) (fst typing_loop)"
  "timely (to_ns (Timespec 0 0)) 0 loop_trace" "reads loop_trace = 5"
  by code_simp+

theorem worker_does_not_spin_witness:
  "\<exists>kb'. fst typing_loop = Inr kb' \<and>
     length typing_orders + length (pending_events kb') \<le> (2 * kNumSlots + 1) * reads loop_trace \<and>
     length typing_orders = Suc (reads loop_trace)"
proof -
  let ?s = "conf_initial [sample_key 30] (Timespec 0 0)"
  obtain kb' where kb': "fst typing_loop = Inr kb'" using typing_loop_facts(1) by (cases "fst typing_loop") auto
  then have run: "kb_Consume typing_kernel silent_manager typing_orders (conf_kb ?s) typing_start =
      (Inr kb', snd typing_loop)"
    by (metis conf_initial_def kb_conf.select_convs(1) prod.collapse typing_loop_def)
  obtain ext where ext: "trace (snd typing_loop) = trace typing_start @ ext"
    by (rule callsE [OF kb_Consume_calls run])
  then have "trace (snd typing_loop) = trace typing_start @ loop_trace" by (simp add: loop_trace_def)
  moreover have "reachable [sample_key 30] ?s" by (rule reachable_initial) simp
  moreover have "kb_environment typing_kernel silent_manager typing_orders (conf_clock ?s) (conf_kb ?s) typing_start"
    using typing_environment [of typing_start] typing_start_facts by (simp add: conf_initial_def)
  moreover have "timely (to_ns (conf_clock ?s)) 0 loop_trace"
    using typing_loop_facts(2) by (simp add: conf_initial_def)
  ultimately have "length typing_orders + length (pending_events kb') \<le>
      length (pending_events (conf_kb ?s)) + (2 * kNumSlots + 1) * reads loop_trace"
    using worker_does_not_spin run by blast
  with kb' typing_loop_facts(3) show ?thesis by (simp add: conf_initial_def kb_initial_def typing_orders_def)
qed

end
