(* ===== verification/Keyboard_Report.thy ===== *)
theory Keyboard_Report
  imports Keyboard_Liveness Keyboard_Press
begin

text \<open>
  A finger that rests on a key is reported: when the panel is quiet, the worker decides its press
  within as many iterations as key events were pending, and writes it to the virtual device if
  its pressure is in range.
\<close>

section \<open>A quiet iteration\<close>

text \<open>An iteration of a loop that reads nothing fires the queue, and the loop goes on.\<close>

lemma quiet_iteration:
  assumes "reachable ks s" and "clock_works K" and "fds_ok w"
    and "kb_environment K mgr (ord # rest) (conf_clock s) (conf_kb s) w"
    and "kb_Consume K mgr (ord # rest) (conf_kb s) w = (Inr kb', w')"
    and "trace w' = trace w @ ext" and "reads ext = 0"
  obtains s1 w1 outs e1 e2 where "fire_pending (conf_clock s1) (conf_kb s) = Inr (outs, conf_kb s1)"
    and "kb_inv (conf_kb s) (conf_clock s1) (\<lambda>c. net c (conf_sent s))"
    and "reachable ks s1" and "fds_ok w1" and "uinput_fd w1 = uinput_fd w"
    and "kb_environment K mgr rest (conf_clock s1) (conf_kb s1) w1"
    and "kb_Consume K mgr rest (conf_kb s1) w1 = (Inr kb', w')"
    and "ext = e1 @ e2" and "trace w' = trace w1 @ e2" and "reads e2 = 0"
    and "device_writes (uinput_fd w) e1 = emitted outs"
proof -
  obtain order tids where ord: "ord = (order, tids)" by fastforce
  from assms(5) obtain now ready w1 kb1 w2 where
    wait: "kb_wait K (conf_kb s) w = (Inr (now, ready), w1)"
    and react: "kb_react K mgr now ready order tids (conf_kb s) w1 = (Inr kb1, w2)"
    and run: "kb_Consume K mgr rest kb1 w2 = (Inr kb', w')"
    by (auto simp: ord kb_iteration_def io_bind_eq)
  have ok: "iteration_ok (conf_clock s) now ready order tids (conf_kb s)"
    and env: "kb_environment K mgr rest now kb1 w2"
    using assms(4) wait react by (auto simp: ord)
  have src: "0 \<le> source_fd w" "source_fd w < FD_SETSIZE" using assms(3) by (simp_all add: fds_ok_def)
  obtain e1 where e1: "w1 = w\<lparr>trace := trace w @ e1\<rparr>" "no_writes e1"
    using kb_wait_run [OF assms(2) src wait] by blast
  from react obtain outs where c: "consume_event now ready order tids (conf_kb s) = Inr (outs, kb1)"
    and p: "perform_all K mgr outs w1 = (Inr (), w2)"
    by (auto simp: kb_react_def io_bind_eq split: sum.splits)
  have "uinput_fd w1 \<noteq> left_fd w1" "uinput_fd w1 \<noteq> right_fd w1"
    using assms(3) by (simp_all add: e1(1) fds_ok_def)
  from perform_all_run [OF this p] obtain e2 where e2: "w2 = w1\<lparr>trace := trace w1 @ e2\<rparr>"
    "device_writes (uinput_fd w1) e2 = emitted outs" by auto
  obtain e3 where e3: "trace w' = trace w2 @ e3" by (rule callsE [OF kb_Consume_calls run])
  have ext: "ext = (e1 @ e2) @ e3" using assms(6) e1(1) e2(1) e3 by simp
  have "ready = None"
  proof (cases rule: kb_wait_calls [OF wait])
    case (1 e)
    with assms(7) show ?thesis by (simp add: ext e1(1))
  next
    case 2
    then show ?thesis by simp
  qed
  with c have fire: "fire_pending now (conf_kb s) = Inr (outs, kb1)" by (simp add: consume_event_def)
  let ?s = "\<lparr>conf_kb = kb1, conf_clock = now, conf_sent = conf_sent s @ outs\<rparr>"
  have "reachable ks ?s" by (rule reachable_step [OF assms(1) kb_step.intros [OF ok c]])
  moreover have "kb_inv (conf_kb s) now (\<lambda>c. net c (conf_sent s))"
    using kinv_later [OF reachable_kinv [OF assms(1)]] ok reachable_inv [OF assms(1)]
    by (simp add: iteration_ok_def kb_inv_def conf_inv_def)
  ultimately show thesis
    using that [of ?s outs w2 "e1 @ e2" e3] fire env run ext e3 e2 e1 assms(3,7)
    by (simp add: fds_ok_def no_writes_device)
qed

section \<open>A resting finger\<close>

definition decided :: "keyboard \<Rightarrow> int \<Rightarrow> finger_data \<Rightarrow> input_event list \<Rightarrow> keyboard \<Rightarrow> bool" where
  "decided kb tid d evs kb' \<longleftrightarrow>
     (if press_in_range (starting_code (layout kb) d) d
      then input_ev EV_KEY (to_u16 (event_code d)) 1 \<in> set evs \<and>
           fingers kb' tid = Some (d\<lparr>down_sent := True\<rparr>)
      else fingers kb' tid = Some (d\<lparr>rejection_status := refusal d\<rparr>))"

lemma fire_pending_loop:
  assumes "fire_pending now kb = Inr (outs, kb')"
  obtains outs' where "fire_loop now kb = Inr (outs', kb')" and "set (emitted outs') \<subseteq> set (emitted outs)"
proof -
  from assms obtain outs' where loop: "fire_loop now kb = Inr (outs', kb')"
    and "outs = outs' \<or> outs = outs' @ [Emit EV_SYN SYN_REPORT 0]"
    by (auto simp: fire_pending_def split: sum.splits if_splits)
  then show thesis by (intro that [OF loop]) auto
qed

lemma reachable_layout: "reachable ks s \<Longrightarrow> layout (conf_kb s) = ks"
  using reachable_inv by (auto simp: conf_inv_def)

lemma emitted_mem: "Emit t c v \<in> set outs \<Longrightarrow> input_ev (to_u16 t) (to_u16 c) v \<in> set (emitted outs)"
proof (induction outs)
  case (Cons out outs)
  then show ?case by (cases out) auto
qed simp

text \<open>A finger whose press is decided stays as it is.\<close>

lemma decided_stays:
  assumes "reachable ks s" and "clock_works K" and "fds_ok w"
    and "kb_environment K mgr orders (conf_clock s) (conf_kb s) w"
    and "kb_Consume K mgr orders (conf_kb s) w = (Inr kb', w')"
    and "trace w' = trace w @ ext" and "reads ext = 0"
    and "fingers (conf_kb s) tid = Some d" and "rejection_status d \<noteq> kNotRejectedYet \<or> down_sent d"
  shows "fingers kb' tid = Some d"
  using assms
proof (induction orders arbitrary: s w ext)
  case Nil
  then show ?case by simp
next
  case (Cons ord rest)
  show ?case
  proof (rule quiet_iteration [OF Cons.prems(1-7)])
    fix s1 w1 outs e1 e2
    assume fire: "fire_pending (conf_clock s1) (conf_kb s) = Inr (outs, conf_kb s1)"
      and inv: "kb_inv (conf_kb s) (conf_clock s1) (\<lambda>c. net c (conf_sent s))"
      and next1: "reachable ks s1" "fds_ok w1" "kb_environment K mgr rest (conf_clock s1) (conf_kb s1) w1"
        "kb_Consume K mgr rest (conf_kb s1) w1 = (Inr kb', w')" "trace w' = trace w1 @ e2" "reads e2 = 0"
    obtain outs' where loop: "fire_loop (conf_clock s1) (conf_kb s) = Inr (outs', conf_kb s1)"
      by (rule fire_pending_loop [OF fire])
    have "fingers (conf_kb s1) tid = Some d"
      using fire_loop_other [OF loop] kinv_no_event [OF inv [unfolded kb_inv_def] Cons.prems(8,9)] Cons.prems(8)
      by simp
    from Cons.IH [OF next1(1) Cons.prems(2) next1(2-6) this Cons.prems(9)] show ?thesis .
  qed
qed

lemma resting_finger:
  assumes "reachable ks s" and "clock_works K" and "fds_ok w"
    and "kb_environment K mgr orders (conf_clock s) (conf_kb s) w"
    and "kb_Consume K mgr orders (conf_kb s) w = (Inr kb', w')"
    and "trace w' = trace w @ ext" and "reads ext = 0"
    and "fingers (conf_kb s) tid = Some d" and "rejection_status d = kNotRejectedYet" and "\<not> down_sent d"
  shows "fingers kb' tid = Some d \<and> pending_events kb' \<noteq> [] \<or>
    decided (conf_kb s) tid d (device_writes (uinput_fd w) ext) kb'"
  using assms
proof (induction orders arbitrary: s w ext)
  case Nil
  from kinvD(8) [OF reachable_kinv [OF Nil.prems(1)] Nil.prems(8)] Nil.prems(9,10)
  have "pending_events (conf_kb s) \<noteq> []" by (auto simp: finger_ok_def)
  with Nil show ?case by simp
next
  case (Cons ord rest)
  show ?case
  proof (rule quiet_iteration [OF Cons.prems(1-7)])
    fix s1 w1 outs e1 e2
    assume fire: "fire_pending (conf_clock s1) (conf_kb s) = Inr (outs, conf_kb s1)"
      and inv: "kb_inv (conf_kb s) (conf_clock s1) (\<lambda>c. net c (conf_sent s))"
      and next1: "reachable ks s1" "fds_ok w1" "kb_environment K mgr rest (conf_clock s1) (conf_kb s1) w1"
        "kb_Consume K mgr rest (conf_kb s1) w1 = (Inr kb', w')" "trace w' = trace w1 @ e2" "reads e2 = 0"
      and w: "ext = e1 @ e2" "uinput_fd w1 = uinput_fd w" "device_writes (uinput_fd w) e1 = emitted outs"
    obtain outs' where loop: "fire_loop (conf_clock s1) (conf_kb s) = Inr (outs', conf_kb s1)"
      and sub: "set (emitted outs') \<subseteq> set (emitted outs)" by (rule fire_pending_loop [OF fire])
    note r = tap_rejection_range [OF kinvD(8) [OF inv [unfolded kb_inv_def] Cons.prems(8)] Cons.prems(9)]
    from fire_loop_progress [OF inv Cons.prems(8-10) loop] show ?thesis
    proof
      assume v: "verdict (conf_kb s) tid d outs' (conf_kb s1)"
      note stays = decided_stays [OF next1(1) Cons.prems(2) next1(2-6)]
      show ?thesis
      proof (cases "press_in_range (starting_code (layout (conf_kb s)) d) d")
        case True
        with v r have "input_ev EV_KEY (to_u16 (event_code d)) 1 \<in> set (emitted outs)"
          "fingers kb' tid = Some (d\<lparr>down_sent := True\<rparr>)"
          using emitted_mem [of EV_KEY "event_code d" 1 outs'] sub by (auto simp: verdict_def to_u16_id intro!: stays)
        with True w show ?thesis by (auto simp: decided_def)
      next
        case False
        with v r have "fingers kb' tid = Some (d\<lparr>rejection_status := refusal d\<rparr>)"
          by (auto simp: verdict_def refusal_def intro!: stays)
        with False show ?thesis by (simp add: decided_def)
      qed
    next
      assume "fingers (conf_kb s1) tid = Some d \<and>
        (\<exists>e \<in> set (pending_events (conf_kb s)). pe_tid e = tid \<and> conf_clock s1 < pe_deadline e)"
      then have "fingers (conf_kb s1) tid = Some d" by blast
      from Cons.IH [OF next1(1) Cons.prems(2) next1(2-6) this Cons.prems(9,10)]
      show ?thesis
        using reachable_layout [OF Cons.prems(1)] reachable_layout [OF next1(1)]
        by (auto simp: decided_def w split: if_splits)
    qed
  qed
qed

text \<open>
  C10: a finger that rests on its key is reported. While no event arrives from the panel and the
  clock and \<^verbatim>\<open>select\<close> keep their promises, after as many iterations as key events were pending the
  press of the finger is decided: if its pressure (or diameter) is in the range of
  \<open>press_in_range\<close>, the press of its code has been written to the virtual device and accepted; if
  not, the finger is rejected for that reason. Before that it is unchanged.
\<close>

theorem resting_finger_is_reported:
  assumes "reachable ks s" and "clock_works K" and "fds_ok w"
    and "kb_environment K mgr orders (conf_clock s) (conf_kb s) w"
    and "kb_Consume K mgr orders (conf_kb s) w = (Inr kb', w')"
    and "trace w' = trace w @ ext" and "timely (to_ns (conf_clock s)) 0 ext" and "reads ext = 0"
    and "fingers (conf_kb s) tid = Some d" and "rejection_status d = kNotRejectedYet" and "\<not> down_sent d"
  shows "fingers kb' tid = Some d \<and> length orders < length (pending_events (conf_kb s)) \<or>
    decided (conf_kb s) tid d (device_writes (uinput_fd w) ext) kb'"
proof -
  have "length orders + length (pending_events kb') \<le> length (pending_events (conf_kb s))"
    using progress_bound [OF assms(1,4-7)] assms(8) by simp
  moreover from resting_finger [OF assms(1-6,8-11)] have
    "fingers kb' tid = Some d \<and> 0 < length (pending_events kb') \<or>
     decided (conf_kb s) tid d (device_writes (uinput_fd w) ext) kb'" by simp
  ultimately show ?thesis by linarith
qed

text \<open>The key of the sample run, pressed at time 0, and a kernel that sends nothing more.\<close>

definition resting_start :: proc where
  "resting_start = \<lparr>uinput_fd = 4, device_created = True, source_fd = 3, left_fd = -1, right_fd = -1, trace = []\<rparr>"

definition resting_run :: "(exn + keyboard) \<times> proc" where
  "resting_run = kb_Consume typing_kernel silent_manager [([], [])] (pressed_kb 30 80 (Timespec 0 0)) resting_start"

lemma resting_run_facts:
  "\<not> isl (fst resting_run)" "timely (to_ns (Timespec 0 0)) 0 (trace (snd resting_run))"
  "reads (trace (snd resting_run)) = 0"
  by code_simp+

theorem resting_finger_is_reported_witness:
  "input_ev EV_KEY 30 1 \<in> set (device_writes 4 (trace (snd resting_run)))"
proof -
  let ?s = "pressed_conf 30 80 (Timespec 0 0)" and ?d = "sample_data 30 80 (Timespec 0 0)"
  obtain kb' where run: "kb_Consume typing_kernel silent_manager [([], [])] (conf_kb ?s) resting_start =
      (Inr kb', snd resting_run)"
    using resting_run_facts(1) by (cases "fst resting_run")
      (auto simp: resting_run_def pressed_conf_def prod_eq_iff)
  have env: "kb_environment typing_kernel silent_manager [([], [])] (conf_clock ?s) (conf_kb ?s) resting_start"
    using typing_timeout [of "pressed_kb 30 80 (Timespec 0 0)" resting_start]
    by (auto simp: pressed_conf_def pressed_kb_def iteration_ok_def completed_frame_def split: sum.splits prod.splits)
  have ok: "clock_works typing_kernel" "fds_ok resting_start"
    "trace (snd resting_run) = trace resting_start @ trace (snd resting_run)"
    by (simp_all add: clock_works_def typing_kernel_def fds_ok_def resting_start_def FD_SETSIZE_def)
  have conf: "timely (to_ns (conf_clock ?s)) 0 (trace (snd resting_run))" "fingers (conf_kb ?s) 5 = Some ?d"
    "rejection_status ?d = kNotRejectedYet" "\<not> down_sent ?d" "length (pending_events (conf_kb ?s)) = 1"
    "uinput_fd resting_start = 4" "press_in_range (starting_code (layout (conf_kb ?s)) ?d) ?d" "event_code ?d = 30"
    using resting_run_facts(2)
    by (simp_all add: pressed_conf_def pressed_kb_def sample_data_def resting_start_def press_in_range_def
        sample_kb_def kb_initial_def sample_key_def)
  from resting_finger_is_reported [OF pressed_reachable [of "Timespec 0 0" 30 80] ok(1,2) env run ok(3) conf(1)
      resting_run_facts(3) conf(2-4)] conf(5-8)
  show ?thesis by (simp add: decided_def to_u16_id)
qed

end
