(* ===== verification/Keyboard_Direct.thy ===== *)
theory Keyboard_Direct
  imports Keyboard_Process
begin

text \<open>
  The keyboard loop in the order of the source: every vibration and every event is written in the
  middle of the computation that asks for it, where theory Keyboard_Worker computes an iteration
  first and writes its outputs afterwards. The two agree on every run: no write fails to happen
  and none happens that should not, because the computation itself never fails.
\<close>

section \<open>The loop in source order\<close>

definition direct_arrival ::
  "kernel \<Rightarrow> ff_manager \<Rightarrow> timespec \<Rightarrow> int \<Rightarrow> mt_finger \<Rightarrow> keyboard \<Rightarrow> keyboard io" where
  "direct_arrival K mgr now tid finger kb =
     (let (key, code, kb1) = GenerateEventForArrivingFinger now finger tid 0 kb;
          data = \<lparr>arrival_time = now, max_pressure = finger_p finger,
                  max_touch_major = finger_touch_major finger, starting_key_number = key,
                  event_code = code, down_sent = False, rejection_status = kNotRejectedYet\<rparr>;
          kb2 = (if code = KEY_FN then kb1\<lparr>fn_key_pressed := True\<rparr> else kb1)
      in if key = kNoKey
         then io_return (kb2\<lparr>fingers := (fingers kb2)(tid \<mapsto> data\<lparr>rejection_status := kRejectTouchdownOffKey\<rparr>)\<rparr>)
         else io_bind (EventTriggered K mgr FingerDown (finger_x finger) (finger_y finger))
                (\<lambda>_. io_return (kb2\<lparr>fingers := (fingers kb2)(tid \<mapsto> data)\<rparr>)))"

fun direct_fingers ::
  "kernel \<Rightarrow> ff_manager \<Rightarrow> timespec \<Rightarrow> snapshot \<Rightarrow> int list \<Rightarrow> keyboard \<Rightarrow> keyboard io" where
  "direct_fingers K mgr now snap [] kb = io_return kb"
| "direct_fingers K mgr now snap (tid # tids) kb =
     (case snap tid of
        None \<Rightarrow> direct_fingers K mgr now snap tids kb
      | Some finger \<Rightarrow>
          io_bind
            (case fingers kb tid of
               None \<Rightarrow> direct_arrival K mgr now tid finger kb
             | Some data \<Rightarrow>
                 if rejection_status data = kNotRejectedYet
                 then (case known_finger now tid finger data kb of
                         Inl e \<Rightarrow> io_throw e | Inr kb1 \<Rightarrow> io_return kb1)
                 else io_return kb)
            (\<lambda>kb1. direct_fingers K mgr now snap tids kb1))"

definition direct_snapshot ::
  "kernel \<Rightarrow> ff_manager \<Rightarrow> timespec \<Rightarrow> snapshot \<Rightarrow> int list \<Rightarrow> int list \<Rightarrow> keyboard \<Rightarrow> keyboard io" where
  "direct_snapshot K mgr now snap order tids kb =
     io_bind (direct_fingers K mgr now snap order kb)
       (\<lambda>kb1. io_return (process_missing now snap tids kb1))"

text \<open>\<open>mark_sent\<close> is what follows \<open>SendEvent\<close> in the firing loop; \<open>needs_syn\<close> is its local variable.\<close>

definition mark_sent :: "pending_event \<Rightarrow> keyboard \<Rightarrow> keyboard" where
  "mark_sent e kb =
     (if pe_down e
      then (case fingers kb (pe_tid e) of
              None \<Rightarrow> kb
            | Some d \<Rightarrow> kb\<lparr>fingers := (fingers kb)(pe_tid e \<mapsto> d\<lparr>down_sent := True\<rparr>)\<rparr>)
      else kb)"

definition check_tap :: "pending_event \<Rightarrow> keyboard \<Rightarrow> exn + RejectionStatus option" where
  "check_tap e kb = (case fingers kb (pe_tid e) of None \<Rightarrow> Inr None | Some d \<Rightarrow> tap_rejection kb d)"

lemma mark_sent_pending [simp]: "pending_events (mark_sent e kb) = pending_events kb"
  by (simp add: mark_sent_def split: option.split)

function direct_fire :: "kernel \<Rightarrow> timespec \<Rightarrow> bool \<Rightarrow> keyboard \<Rightarrow> (bool \<times> keyboard) io" where
  "direct_fire K now needs_syn kb =
     (case pending_events kb of
        [] \<Rightarrow> io_return (needs_syn, kb)
      | e # rest \<Rightarrow>
          if TimespecIsLater (pe_deadline e) now then io_return (needs_syn, kb)
          else (case check_tap e (kb\<lparr>pending_events := rest\<rparr>) of
                  Inl x \<Rightarrow> io_throw x
                | Inr (Some reason) \<Rightarrow>
                    direct_fire K now needs_syn (RejectFinger (pe_tid e) reason (kb\<lparr>pending_events := rest\<rparr>))
                | Inr None \<Rightarrow>
                    io_bind (SendEvent K EV_KEY (pe_code e) (if pe_down e then 1 else 0))
                      (\<lambda>_. direct_fire K now True (mark_sent e (kb\<lparr>pending_events := rest\<rparr>)))))"
  by pat_completeness auto
termination
  by (relation "measure (\<lambda>(K, now, needs_syn, kb). length (pending_events kb))")
    (auto intro: le_less_trans [OF RejectFinger_pending_length])

declare direct_fire.simps [simp del]

definition direct_firing :: "kernel \<Rightarrow> timespec \<Rightarrow> keyboard \<Rightarrow> keyboard io" where
  "direct_firing K now kb =
     io_bind (direct_fire K now False kb) (\<lambda>(needs_syn, kb1).
       if needs_syn then io_bind (SendEvent K EV_SYN SYN_REPORT 0) (\<lambda>_. io_return kb1)
       else io_return kb1)"

definition direct_iteration ::
  "kernel \<Rightarrow> ff_manager \<Rightarrow> int list \<Rightarrow> int list \<Rightarrow> keyboard \<Rightarrow> keyboard io" where
  "direct_iteration K mgr order tids kb =
     io_bind (kb_wait K kb) (\<lambda>(now, ready).
       case ready of
         None \<Rightarrow> direct_firing K now kb
       | Some ev \<Rightarrow>
           (case AddEvent ev (Some Map.empty) (kb_sm kb) of
              (True, Some snapshot, sm') \<Rightarrow>
                io_bind (direct_snapshot K mgr now snapshot order tids (kb\<lparr>kb_sm := sm'\<rparr>))
                  (\<lambda>kb1. direct_firing K now kb1)
            | (_, _, sm') \<Rightarrow> io_return (kb\<lparr>kb_sm := sm'\<rparr>)))"

fun direct_Consume ::
  "kernel \<Rightarrow> ff_manager \<Rightarrow> (int list \<times> int list) list \<Rightarrow> keyboard \<Rightarrow> keyboard io" where
  "direct_Consume K mgr [] kb = io_return kb"
| "direct_Consume K mgr ((order, tids) # rest) kb =
     io_bind (direct_iteration K mgr order tids kb) (\<lambda>kb1. direct_Consume K mgr rest kb1)"

definition direct_Run ::
  "kernel \<Rightarrow> ff_manager \<Rightarrow> string \<Rightarrow> string \<Rightarrow> (int list \<times> int list) list \<Rightarrow> keyboard \<Rightarrow> keyboard io" where
  "direct_Run K mgr source_device_path keyboard_device_name orders kb =
     io_bind (keyboard_setup K source_device_path keyboard_device_name (layout kb))
       (\<lambda>_. direct_Consume K mgr orders kb)"

section \<open>Agreement\<close>

lemma kb_react_emit:
  "kb_react K mgr now ready order tids kb = emit (perform_all K mgr) (consume_event now ready order tids kb)"
  by (simp add: kb_react_def emit_def)

lemma direct_arrival_emit:
  "direct_arrival K mgr now tid finger kb = emit (perform_all K mgr) (Inr (arriving_finger now tid finger kb))"
  by (simp add: direct_arrival_def arriving_finger_def Let_def split: prod.split)

lemma direct_fingers_emit:
  "process_fingers now snap order kb = Inr (outs, kb') \<Longrightarrow>
     direct_fingers K mgr now snap order kb = emit (perform_all K mgr) (Inr (outs, kb'))"
proof (induction order arbitrary: kb outs)
  case (Cons tid order)
  show ?case
  proof (cases "snap tid")
    case None
    with Cons show ?thesis by simp
  next
    case (Some finger)
    with Cons.prems obtain o1 kb1 o2 where one: "process_finger now tid finger kb = Inr (o1, kb1)"
      and two: "process_fingers now snap order kb1 = Inr (o2, kb')" and outs: "outs = o1 @ o2"
      by (auto split: sum.splits)
    have "(case fingers kb tid of
        None \<Rightarrow> direct_arrival K mgr now tid finger kb
      | Some data \<Rightarrow> if rejection_status data = kNotRejectedYet
          then (case known_finger now tid finger data kb of Inl e \<Rightarrow> io_throw e | Inr kb1 \<Rightarrow> io_return kb1)
          else io_return kb) = emit (perform_all K mgr) (Inr (o1, kb1))"
      using one
      by (auto simp: process_finger_def direct_arrival_emit split: option.splits if_splits sum.splits)
    then show ?thesis
      using Some Cons.IH [OF two] by (simp add: outs kb_channel.emit_append kb_channel.emit_bind del: io_simps(1))
  qed
qed simp

lemma direct_snapshot_emit:
  "ProcessIncomingSnapshot now snap order tids kb = Inr (outs, kb') \<Longrightarrow>
     direct_snapshot K mgr now snap order tids kb = emit (perform_all K mgr) (Inr (outs, kb'))"
  by (auto simp: direct_snapshot_def ProcessIncomingSnapshot_def direct_fingers_emit emit_def io_bind_assoc
      split: sum.splits simp del: io_simps(1))

lemma fire_event_check:
  "fire_event e kb =
     (case check_tap e kb of
        Inl x \<Rightarrow> Inl x
      | Inr (Some reason) \<Rightarrow> Inr ([], RejectFinger (pe_tid e) reason kb)
      | Inr None \<Rightarrow> Inr ([key_output e], mark_sent e kb))"
  by (auto simp: fire_event_def check_tap_def mark_sent_def split: option.split sum.split)

lemma direct_fire_emit:
  "fire_loop now kb = Inr (outs, kb') \<Longrightarrow>
     direct_fire K now needs_syn kb = emit (perform_all K mgr) (Inr (outs, (needs_syn \<or> outs \<noteq> [], kb')))"
proof (induction now kb arbitrary: outs needs_syn rule: fire_loop.induct)
  case (1 now kb)
  show ?case
  proof (cases "pending_events kb = [] \<or> TimespecIsLater (pe_deadline (hd (pending_events kb))) now")
    case True
    with "1.prems" show ?thesis
      by (subst direct_fire.simps, subst (asm) (2) fire_loop.simps) (auto split: list.splits)
  next
    case False
    then obtain e rest where q: "pending_events kb = e # rest" "\<not> TimespecIsLater (pe_deadline e) now"
      by (cases "pending_events kb") auto
    from "1.prems" q obtain o1 kb1 o2 where
      one: "fire_event e (kb\<lparr>pending_events := rest\<rparr>) = Inr (o1, kb1)"
      and two: "fire_loop now kb1 = Inr (o2, kb')" and outs: "outs = o1 @ o2"
      by (auto simp: fire_loop.simps [of now kb] split: sum.splits)
    note IH = "1.IH" [OF q one refl two]
    from one q(2) show ?thesis
      by (subst direct_fire.simps)
        (auto simp: q(1) fire_event_check outs IH key_output_def emit_def io_bind_assoc
          split: sum.splits option.splits simp del: io_simps(1))
  qed
qed

lemma direct_firing_emit:
  assumes "fire_pending now kb = Inr (outs, kb')"
  shows "direct_firing K now kb = emit (perform_all K mgr) (Inr (outs, kb'))"
proof -
  from assms obtain o1 where loop: "fire_loop now kb = Inr (o1, kb')"
    and outs: "outs = (if o1 \<noteq> [] then o1 @ [Emit EV_SYN SYN_REPORT 0] else o1)"
    by (auto simp: fire_pending_def split: sum.splits if_splits)
  show ?thesis
    by (simp add: direct_firing_def direct_fire_emit [OF loop, of _ _ mgr] outs emit_def kb_channel.send_all_append
        io_bind_assoc del: io_simps(1))
qed

lemma direct_reaction:
  assumes "consume_event now ready order tids kb = Inr (outs, kb')"
  shows "(case ready of
       None \<Rightarrow> direct_firing K now kb
     | Some ev \<Rightarrow>
         (case AddEvent ev (Some Map.empty) (kb_sm kb) of
            (True, Some snapshot, sm') \<Rightarrow>
              io_bind (direct_snapshot K mgr now snapshot order tids (kb\<lparr>kb_sm := sm'\<rparr>))
                (\<lambda>kb1. direct_firing K now kb1)
          | (_, _, sm') \<Rightarrow> io_return (kb\<lparr>kb_sm := sm'\<rparr>))) = emit (perform_all K mgr) (Inr (outs, kb'))"
proof (cases ready)
  case None
  with assms show ?thesis by (simp add: consume_event_def direct_firing_emit [of now kb outs kb' K mgr])
next
  case (Some ev)
  obtain r snap sm' where a: "AddEvent ev (Some Map.empty) (kb_sm kb) = (r, snap, sm')"
    by (cases "AddEvent ev (Some Map.empty) (kb_sm kb)") blast
  show ?thesis
  proof (cases "r \<and> snap \<noteq> None")
    case False
    with assms Some a show ?thesis by (cases snap) (auto simp: consume_event_def split: bool.splits)
  next
    case True
    then obtain snapshot where snap: "r" "snap = Some snapshot" by blast
    with assms Some a obtain o1 kb1 o2 where
      one: "ProcessIncomingSnapshot now snapshot order tids (kb\<lparr>kb_sm := sm'\<rparr>) = Inr (o1, kb1)"
      and two: "fire_pending now kb1 = Inr (o2, kb')" and outs: "outs = o1 @ o2"
      by (auto simp: consume_event_def split: sum.splits)
    show ?thesis
      using Some a snap direct_snapshot_emit [OF one, of K mgr] direct_firing_emit [OF two, of K mgr]
      by (simp add: outs emit_def kb_channel.send_all_append io_bind_assoc del: io_simps(1))
  qed
qed

lemma direct_iteration_agrees:
  assumes "\<And>now ready w1. kb_wait K kb w = (Inr (now, ready), w1) \<Longrightarrow>
    \<exists>outs kb'. consume_event now ready order tids kb = Inr (outs, kb')"
  shows "direct_iteration K mgr order tids kb w = kb_iteration K mgr order tids kb w"
proof (cases "kb_wait K kb w")
  case (Pair r w1)
  show ?thesis
  proof (cases r)
    case (Inl e)
    with Pair show ?thesis by (simp add: direct_iteration_def kb_iteration_def)
  next
    case (Inr x)
    obtain now ready where x: "x = (now, ready)" by fastforce
    with Pair Inr assms obtain outs kb' where c: "consume_event now ready order tids kb = Inr (outs, kb')"
      by blast
    from Pair Inr x show ?thesis
      by (simp add: direct_iteration_def kb_iteration_def kb_react_emit c direct_reaction [OF c, of K mgr])
  qed
qed

text \<open>Along a run of the loop the computations do not fail, so the two loops make the same calls.\<close>

lemma direct_Consume_agrees:
  assumes "reachable ks s" and "kb_environment K mgr orders (conf_clock s) (conf_kb s) w"
  shows "direct_Consume K mgr orders (conf_kb s) w = kb_Consume K mgr orders (conf_kb s) w"
  using assms
proof (induction orders arbitrary: s w)
  case Nil
  then show ?case by simp
next
  case (Cons ord rest)
  obtain order tids where ord: "ord = (order, tids)" by fastforce
  note fails = conf_inv_iteration [OF reachable_inv [OF Cons.prems(1)]]
  have ok: "iteration_ok (conf_clock s) now ready order tids (conf_kb s)"
    if "kb_wait K (conf_kb s) w = (Inr (now, ready), w1)" for now ready w1
    using Cons.prems(2) that by (simp add: ord)
  have it: "direct_iteration K mgr order tids (conf_kb s) w = kb_iteration K mgr order tids (conf_kb s) w"
    by (rule direct_iteration_agrees) (use fails ok in blast)
  show ?case
  proof (cases "kb_iteration K mgr order tids (conf_kb s) w")
    case (Pair r w2)
    show ?thesis
    proof (cases r)
      case (Inl e)
      with Pair it show ?thesis by (simp add: ord)
    next
      case (Inr kb1)
      with Pair obtain now ready w1 where wait: "kb_wait K (conf_kb s) w = (Inr (now, ready), w1)"
        and react: "kb_react K mgr now ready order tids (conf_kb s) w1 = (Inr kb1, w2)"
        by (auto simp: kb_iteration_def io_bind_eq)
      obtain outs where c: "consume_event now ready order tids (conf_kb s) = Inr (outs, kb1)"
        using react by (auto simp: kb_react_def io_bind_eq split: sum.splits)
      let ?s = "\<lparr>conf_kb = kb1, conf_clock = now, conf_sent = conf_sent s @ outs\<rparr>"
      have "reachable ks ?s" by (rule reachable_step [OF Cons.prems(1) kb_step.intros [OF ok [OF wait] c]])
      moreover have "kb_environment K mgr rest now kb1 w2" using Cons.prems(2) wait react by (simp add: ord)
      ultimately show ?thesis using Cons.IH [of ?s w2] Pair it Inr by (simp add: ord)
    qed
  qed
qed

text \<open>
  Writing each event and starting each vibration where the source does it, in the middle of
  the computation, is the same as computing an iteration first and writing its outputs afterwards:
  the two processes make the same system calls in the same order and end alike, for every kernel
  and whatever it refuses.
\<close>

theorem keyboard_writes_in_source_order:
  assumes "normal_ts t"
    and "\<And>w1. keyboard_setup K path name ks w = (Inr (), w1) \<Longrightarrow>
      kb_environment K mgr orders t (kb_initial ks) w1"
  shows "direct_Run K mgr path name orders (kb_initial ks) w = kb_Run K mgr path name orders (kb_initial ks) w"
proof (cases "keyboard_setup K path name ks w")
  case (Pair r w1)
  have layout: "layout (kb_initial ks) = ks" by (simp add: kb_initial_def)
  show ?thesis
  proof (cases r)
    case (Inl e)
    with Pair show ?thesis by (simp add: direct_Run_def kb_Run_def layout)
  next
    case (Inr u)
    with Pair assms(2) have env: "kb_environment K mgr orders t (kb_initial ks) w1" by simp
    have "direct_Consume K mgr orders (kb_initial ks) w1 = kb_Consume K mgr orders (kb_initial ks) w1"
      using direct_Consume_agrees [OF reachable_initial [OF assms(1)], of K mgr orders ks w1] env
      by (simp add: conf_initial_def)
    with Pair Inr show ?thesis by (simp add: direct_Run_def kb_Run_def layout)
  qed
qed

theorem keyboard_writes_in_source_order_witness:
  "device_writes 4 (trace (snd (direct_Run typing_kernel silent_manager ''/dev/halo_keyboard''
     ''Halo Keyboard'' typing_orders (kb_initial [sample_key 30]) proc_initial))) =
   [input_ev EV_KEY 30 1, input_ev EV_SYN SYN_REPORT 0]"
proof -
  have env: "kb_environment typing_kernel silent_manager typing_orders (Timespec 0 0)
      (kb_initial [sample_key 30]) w1"
    if "keyboard_setup typing_kernel ''/dev/halo_keyboard'' ''Halo Keyboard'' [sample_key 30]
      proc_initial = (Inr (), w1)" for w1
    using typing_setup [OF that] typing_environment by simp
  have "direct_Run typing_kernel silent_manager ''/dev/halo_keyboard'' ''Halo Keyboard''
      typing_orders (kb_initial [sample_key 30]) proc_initial = typing_run"
    unfolding typing_run_def by (rule keyboard_writes_in_source_order [OF typing_clock env])
  then show ?thesis by (simp add: typing_writes)
qed

end
