(* ===== verification/Touchpad_Stream.thy ===== *)
theory Touchpad_Stream
  imports Touchpad_Process
begin

text \<open>
  The touchpad worker as a function of streams: what it writes to its virtual device is what the
  model of theory Touchpad sends for the events it has read from the panel, for every kernel.
  Hence a reader of the virtual device sees the region of the panel.
\<close>

section \<open>One iteration\<close>

lemma SendEvents_reads: "SendEvents K es w = (r, w') \<Longrightarrow> trace w' = trace w @ ext \<Longrightarrow> panel_events fd ext = []"
proof (induction es arbitrary: w ext)
  case (Cons e es)
  let ?x = "(SysWrite (uinput_fd w) (input_ev (to_u16 (ev_type e)) (to_u16 (ev_code e)) (ev_value e)),
    K (trace w) (SysWrite (uinput_fd w) (input_ev (to_u16 (ev_type e)) (to_u16 (ev_code e)) (ev_value e))))"
  show ?case
  proof (cases "ret (snd ?x) = sizeof_input_event")
    case True
    let ?w1 = "w\<lparr>trace := trace w @ [?x]\<rparr>"
    have rest: "SendEvents K es ?w1 = (r, w')" using Cons.prems(1) True by (simp add: SendEvent_run Let_def)
    then obtain e2 where "trace w' = trace ?w1 @ e2" using SendEvents_run [OF rest] by auto
    with Cons.IH [OF rest this] Cons.prems(2) show ?thesis by auto
  next
    case False
    with Cons.prems(1) have "w' = w\<lparr>trace := trace w @ [?x]\<rparr>"
      by (cases "ret (snd ?x) < 0") (simp_all add: SendEvent_run Let_def)
    with Cons.prems(2) have "ext = [?x]" by simp
    then show ?thesis by simp
  qed
qed simp

text \<open>The events of the model fit the fields of the kernel's structure, so none is changed on the way.\<close>

lemma consume_u16:
  assumes "wf_tp tp" and "tp_consume ev orders tp = Inr (outs, tp')"
  shows "map (\<lambda>e. input_ev (to_u16 (ev_type e)) (to_u16 (ev_code e)) (ev_value e)) outs = outs"
proof -
  define tp1 where "tp1 = tp\<lparr>tp_sm := mt_step ev (tp_sm tp)\<rparr>"
  have "input_ev (to_u16 (ev_type e)) (to_u16 (ev_code e)) (ev_value e) = e" if "e \<in> set outs" for e
  proof -
    from assms(2) that tp_consume_eq [OF assms(1), of ev orders]
    consider (axis) i where "e \<in> set (slot_outs tp1 orders i)"
      | (button) n where "e \<in> set (SendTouchpadBtnEvents n)" | (report) "e = input_ev EV_SYN SYN_REPORT 0"
      by (auto simp: Let_def tp1_def split: if_splits)
    then show ?thesis
    proof cases
      case axis
      from slot_axes_kinds [OF this] show ?thesis by (cases e) (simp add: input_ev_def to_u16_id)
    next
      case button
      then show ?thesis by (auto simp: SendTouchpadBtnEvents_def to_u16_id)
    next
      case report
      then show ?thesis by (simp add: to_u16_id)
    qed
  qed
  then show ?thesis by (simp add: map_idI)
qed

lemma tp_iteration_stream:
  assumes "wf_tp tp" and "tp_iteration K orders tp w = (r, w')"
  obtains (read) e ext where "r = Inl e" and "kernel_error e" and "w' = w\<lparr>trace := trace w @ ext\<rparr>"
      and "panel_events (source_fd w) ext = []" and "device_writes (uinput_fd w) ext = []"
  | (consumed) ev outs tp' n ext where "tp_consume ev orders tp = Inr (outs, tp')"
      and "w' = w\<lparr>trace := trace w @ ext\<rparr>" and "panel_events (source_fd w) ext = [ev]"
      and "device_writes (uinput_fd w) ext = take n outs"
      and "r = Inr tp' \<and> length outs \<le> n \<or> (\<exists>e. r = Inl e \<and> kernel_error e)"
proof -
  let ?x = "(SysRead (source_fd w), K (trace w) (SysRead (source_fd w)))"
  let ?w1 = "w\<lparr>trace := trace w @ [?x]\<rparr>"
  have get: "GetNextEvent K kNoTimeout False w =
      (if ret (snd ?x) < 0 then Inl (SystemError (err (snd ?x)) ''read input device'')
       else if ret (snd ?x) = sizeof_input_event then Inr (Some (fill_event (payload (snd ?x))))
       else Inl (RuntimeError ''short read from input device''), ?w1)"
    by (simp add: GetNextEvent_def kNoTimeout_def read_event_run Let_def)
  show thesis
  proof (cases "ret (snd ?x) = sizeof_input_event")
    case False
    then obtain e where "GetNextEvent K kNoTimeout False w = (Inl e, ?w1)" "kernel_error e"
      by (cases "ret (snd ?x) < 0") (simp_all add: get)
    with assms(2) False show thesis by (intro read [of e "[?x]"]) (auto simp: tp_iteration_def)
  next
    case True
    let ?ev = "fill_event (payload (snd ?x))"
    have got: "GetNextEvent K kNoTimeout False w = (Inr (Some ?ev), ?w1)" using True by (simp add: get)
    obtain outs tp' where c: "tp_consume ?ev orders tp = Inr (outs, tp')"
      using tp_consume_total [OF assms(1)] by blast
    obtain r2 w2 where send: "SendEvents K outs ?w1 = (r2, w2)" by fastforce
    from SendEvents_run [OF send] consume_u16 [OF assms(1) c] obtain n ext where
      ext: "w2 = ?w1\<lparr>trace := trace ?w1 @ ext\<rparr>" "device_writes (uinput_fd w) ext = take n outs"
      "r2 = Inr () \<and> n = length outs \<or> (\<exists>e. r2 = Inl e \<and> kernel_error e)" by (auto simp flip: take_map)
    have "panel_events (source_fd w) ext = []" by (rule SendEvents_reads [OF send]) (simp add: ext(1))
    moreover have "w' = w2" "r = Inr tp' \<and> length outs \<le> n \<or> (\<exists>e. r = Inl e \<and> kernel_error e)"
      using assms(2) got c send ext(3) by (auto simp: tp_iteration_def io_bind_def split: sum.splits)
    ultimately show thesis
      using True ext(1,2) by (intro consumed [OF c, of "?x # ext" n]) auto
  qed
qed


section \<open>The loop\<close>

lemma touchpad_Consume_stream:
  assumes "wf_tp tp" and "touchpad_Consume K all_orders tp w = (r, w')"
  shows "\<exists>ext outs tp' n. w' = w\<lparr>trace := trace w @ ext\<rparr> \<and>
    length (panel_events (source_fd w) ext) \<le> length all_orders \<and>
    tp_play (zip (panel_events (source_fd w) ext) all_orders) tp = Inr (outs, tp') \<and>
    device_writes (uinput_fd w) ext = take n outs \<and>
    (r = Inr tp' \<and> length (panel_events (source_fd w) ext) = length all_orders \<and> length outs \<le> n \<or>
     (\<exists>e. r = Inl e \<and> kernel_error e))"
  using assms
proof (induction all_orders arbitrary: tp w)
  case Nil
  then show ?case by (intro exI [of _ "[]"]) auto
next
  case (Cons orders rest)
  obtain r1 w1 where it: "tp_iteration K orders tp w = (r1, w1)" by fastforce
  from Cons.prems(1) it show ?case
  proof (cases rule: tp_iteration_stream)
    case (read e ext)
    with Cons.prems(2) it have "r = Inl e" "w' = w1" by auto
    with read show ?thesis by (intro exI [of _ ext] exI [of _ "[]"] exI [of _ tp] exI [of _ 0]) simp
  next
    case (consumed ev outs tp1 n ext)
    show ?thesis
    proof (cases "r1 = Inr tp1")
      case False
      with consumed(5) obtain e where "r1 = Inl e" "kernel_error e" by blast
      with Cons.prems(2) it consumed(1-4) show ?thesis
        by (intro exI [of _ ext] exI [of _ outs] exI [of _ tp1] exI [of _ n]) auto
    next
      case True
      with Cons.prems(2) it have rest: "touchpad_Consume K rest tp1 w1 = (r, w')" by simp
      have "length outs \<le> n" using True consumed(5) by auto
      with Cons.IH [OF wf_tp_consume [OF Cons.prems(1) consumed(1)] rest] consumed(1-4)
      obtain ext2 outs2 tp2 n2 where "w' = w\<lparr>trace := trace w @ ext @ ext2\<rparr>"
        "length (panel_events (source_fd w) ext2) \<le> length rest"
        "tp_play (zip (panel_events (source_fd w) ext2) rest) tp1 = Inr (outs2, tp2)"
        "device_writes (uinput_fd w) (ext @ ext2) = take (length outs + n2) (outs @ outs2)"
        "r = Inr tp2 \<and> length (panel_events (source_fd w) ext2) = length rest \<and> length outs2 \<le> n2 \<or>
         (\<exists>e. r = Inl e \<and> kernel_error e)" by auto
      with consumed(1,3) show ?thesis
        by (intro exI [of _ "ext @ ext2"] exI [of _ "outs @ outs2"] exI [of _ tp2] exI [of _ "length outs + n2"]) auto
    qed
  qed
qed

section \<open>The reader\<close>

text \<open>The orders in which the entries of the slots are visited with each frame, along the events.\<close>

fun orders_along :: "(input_event \<times> (nat \<Rightarrow> event_key list)) list \<Rightarrow> mt_state \<Rightarrow> bool" where
  "orders_along [] sm \<longleftrightarrow> True"
| "orders_along ((ev, orders) # es) sm \<longleftrightarrow>
     (is_report ev \<longrightarrow> orders_ok orders (mt_step ev sm)) \<and> orders_along es (mt_step ev sm)"

lemma consume_sm: "wf_tp tp \<Longrightarrow> tp_consume ev orders tp = Inr (outs, tp') \<Longrightarrow> tp_sm tp' = mt_step ev (tp_sm tp)"
  by (auto simp: tp_consume_eq Let_def split: if_splits)

lemma consume_inv:
  assumes "tp_inv (tp, R)" and "\<not> is_dropped ev" and "tp_consume ev orders tp = Inr (outs, tp')"
    and "is_report ev \<longrightarrow> orders_ok orders (mt_step ev (tp_sm tp))"
  shows "tp_inv (tp', mt_run outs R)"
proof -
  have wf: "wf_tp tp" using assms(1) by (simp add: tp_inv_def)
  then obtain orders' where o': "orders_ok orders' (mt_step ev (tp_sm tp))"
    using orders_exist [of "mt_step ev (tp_sm tp)"] by (auto simp: wf_tp_def wf_mt_step)
  have "tp_step (tp, R) (tp', mt_run outs R)"
  proof (cases "is_report ev")
    case True
    with assms show ?thesis by (intro tp_step.intros) auto
  next
    case False
    then have "tp_consume ev orders' tp = Inr (outs, tp')"
      using assms(3) by (simp add: tp_consume_eq [OF wf] Let_def)
    with assms(2) o' show ?thesis by (rule tp_step.intros)
  qed
  with assms(1) show ?thesis by (rule tp_inv_step)
qed

lemma same_region_mirrors:
  assumes "same_region tp tp1" shows "mirrors tp1 sm R \<longleftrightarrow> mirrors tp sm R"
proof -
  have "tp_Contains tp1 = tp_Contains tp" "rotated tp1 = rotated tp"
    using assms by (simp_all add: same_region_def tp_Contains_def rotated_def fun_eq_iff)
  then show ?thesis by (simp add: mirrors_def)
qed

lemma play_mirrors:
  assumes "tp_inv (tp, R)" and "tp_play es tp = Inr (outs, tp')" and "es \<noteq> []"
    and "list_all (\<lambda>(ev, _). \<not> is_dropped ev) es" and "orders_along es (tp_sm tp)"
    and "is_report (fst (last es))" and "0 \<le> tp_xmin tp" and "0 \<le> tp_ymin tp"
  shows "mirrors tp (mt_run (map fst es) (tp_sm tp)) (mt_run outs R)"
  using assms
proof (induction es arbitrary: tp R outs)
  case Nil
  then show ?case by simp
next
  case (Cons x es)
  obtain ev orders where x: "x = (ev, orders)" by (cases x)
  have wf: "wf_tp tp" "wf_mt R" using Cons.prems(1) by (simp_all add: tp_inv_def)
  obtain o1 tp1 o2 where one: "tp_consume ev orders tp = Inr (o1, tp1)"
    and rest: "tp_play es tp1 = Inr (o2, tp')" "outs = o1 @ o2"
    using Cons.prems(2) by (auto simp: x split: sum.splits)
  note sm = consume_sm [OF wf(1) one]
  have region: "same_region tp tp1" by (rule consume_same_region [OF wf(1) one])
  have inv: "tp_inv (tp1, mt_run o1 R)"
    using Cons.prems(4,5) by (intro consume_inv [OF Cons.prems(1) _ one]) (simp_all add: x)
  show ?case
  proof (cases "es = []")
    case True
    with Cons.prems(5,6) have report: "is_report ev" and ok: "orders_ok orders (mt_step ev (tp_sm tp))"
      by (simp_all add: x)
    from frame_received [OF Cons.prems(1) ok report] one have
      "tp_sm tp1 = tp_sm tp" "\<And>i. i < kNumSlots \<Longrightarrow> region_slot tp (slots (tp_sm tp) ! i) (slots (mt_run o1 R) ! i)"
      by auto
    with region_slots_mirror [OF wf_mt_run [OF wf(2)] _ Cons.prems(7,8)] show ?thesis
      using True rest sm by (simp add: x)
  next
    case False
    have "mirrors tp1 (mt_run (map fst es) (tp_sm tp1)) (mt_run o2 (mt_run o1 R))"
      using Cons.prems(4-8) False region
      by (intro Cons.IH [OF inv rest(1) False])
        (auto simp: x sm same_region_def)
    then show ?thesis by (simp add: x sm rest(2) same_region_mirrors [OF region])
  qed
qed


section \<open>The process\<close>

lemma FakeTouchpad_new_initial:
  assumes "FakeTouchpad_new hw path row = Inr (tp, w_mm, h_mm)"
  shows "tp_start (tp, mt_initial)" and "tp_sm tp = mt_initial"
proof -
  from assms obtain a b c d where "set_region hw a b c d = Inr (tp, w_mm, h_mm)"
    by (auto simp: FakeTouchpad_new_def touchpad_LoadLayout_def split: option.splits)
  then have tp: "tp = tp_initial (tp_xmin tp) (tp_xmax tp) (tp_ymin tp) (tp_ymax tp) (tp_rotation tp)"
    by (auto simp: set_region_def Let_def tp_initial_def split: if_splits option.splits)
  then show "tp_start (tp, mt_initial)" unfolding tp_start_def by blast
  show "tp_sm tp = mt_initial" by (subst tp) (simp add: tp_initial_def)
qed

text \<open>
  C3: the touchpad from end to end. For every kernel and any number of iterations, provided the
  panel has reported no overrun (\<^verbatim>\<open>SYN_DROPPED\<close>), the last event read ends a frame, the corner of
  the region has no negative coordinate, and the maps of the slots are visited entry by entry: a
  reader that is fed with what the virtual touchpad has accepted has exactly those fingers that a
  reader of the panel itself has in the region, at their positions relative to the corner of the
  region, turned by the rotation.
\<close>

theorem touchpad_shows_the_panel:
  assumes "uinput_fd w < 0" and "source_fd w < 0"
    and "FakeTouchpad_new hw file row = Inr (tp, w_mm, h_mm)" and "0 \<le> tp_xmin tp" and "0 \<le> tp_ymin tp"
    and "touchpad_Run K path name all_orders tp w_mm h_mm w = (Inr tp', w')"
    and "trace w' = trace w @ ext" and "evs = panel_events (source_fd w') ext"
    and "evs \<noteq> []" and "is_report (last evs)" and "list_all (\<lambda>ev. \<not> is_dropped ev) evs"
    and "orders_along (zip evs all_orders) mt_initial"
  shows "mirrors tp (mt_run evs mt_initial) (mt_run (device_writes (uinput_fd w') ext) mt_initial)"
proof -
  note start = FakeTouchpad_new_initial [OF assms(3)]
  have inv: "tp_inv (tp, mt_initial)" by (rule tp_inv_start [OF start(1)])
  then have wf: "wf_tp tp" by (simp add: tp_inv_def)
  obtain w1 where set: "touchpad_setup K path name tp w_mm h_mm w = (Inr (), w1)"
    and loop: "touchpad_Consume K all_orders tp w1 = (Inr tp', w')"
    using assms(6) by (auto simp: touchpad_Run_def io_bind_eq)
  obtain e1 where e1: "trace w1 = trace w @ e1" "\<forall>x \<in> set e1. no_event x"
    by (rule callsE [OF touchpad_setup_no_event set])
  from touchpad_Consume_stream [OF wf loop] obtain e2 outs n where
    e2: "w' = w1\<lparr>trace := trace w1 @ e2\<rparr>" "length (panel_events (source_fd w1) e2) = length all_orders"
      "tp_play (zip (panel_events (source_fd w1) e2) all_orders) tp = Inr (outs, tp')"
      "device_writes (uinput_fd w1) e2 = outs" by auto
  have ext: "ext = e1 @ e2" using assms(7) e1(1) e2(1) by simp
  have evs: "evs = panel_events (source_fd w1) e2"
    by (simp add: assms(8) ext no_event_reads [OF e1(2)] e2(1))
  have len: "length evs = length all_orders" using e2(2) by (simp add: evs)
  have "list_all (\<lambda>(ev, _). \<not> is_dropped ev) (zip evs all_orders)"
    using assms(11) by (auto simp: list_all_iff dest: set_zip_leftD)
  moreover have "fst (last (zip evs all_orders)) = last evs"
    using len assms(9) last_map [of "zip evs all_orders" fst] by (cases "all_orders = []") simp_all
  ultimately have "mirrors tp (mt_run (map fst (zip evs all_orders)) (tp_sm tp)) (mt_run outs mt_initial)"
    using assms(4,5,9,10,12) len e2(3) start(2)
    by (intro play_mirrors [OF inv]) (auto simp: evs)
  then show ?thesis
    by (simp add: start(2) len ext no_writes_device [OF no_event_writes [OF e1(2)]] e2(1,4))
qed

lemma touching_panel:
  "source_fd (snd touching_read) = 3" "panel_events 3 (trace (snd touching_read)) = touching_script"
  by code_simp+

lemma touching_orders: "orders_along (zip touching_script (replicate 4 touching_order)) mt_initial"
  by (auto simp: touching_script_def numeral_eq_Suc orders_ok_def touching_order_def enumerates_def
      nth_list_update mt_step_synced mt_initial_def is_dropped_def is_report_def event_key_of_def IsSlot_def)

lemma touching_slots:
  "slots (mt_run touching_script mt_initial) =
     (replicate kNumSlots Map.empty)[0 := [TID \<mapsto> 7, XKEY \<mapsto> 200, YKEY \<mapsto> 300]]"
  by (simp add: touching_script_def mt_step_synced mt_initial_def is_dropped_def event_key_of_def
      IsSlot_def kNumSlots_def numeral_nat)

theorem touchpad_shows_the_panel_witness:
  "dom (FillSnapshot (mt_run (device_writes 4 (trace (snd touching_run))) mt_initial)) = {7}"
proof -
  have fresh: "uinput_fd proc_initial < 0" "source_fd proc_initial < 0"
    "trace (snd touching_run) = trace proc_initial @ trace (snd touching_run)"
    by (simp_all add: proc_initial_def)
  obtain t4 outs x where "touching_frame = Inr (outs, t4)" "ret x = sizeof_input_event"
    and run: "touching_run = (Inr t4, (snd touching_read)\<lparr>trace := trace (snd touching_read) @
      map (\<lambda>e. (SysWrite 4 (input_ev (to_u16 (ev_type e)) (to_u16 (ev_code e)) (ev_value e)), x)) outs\<rparr>)"
    by (rule touching_ends)
  have ran: "touchpad_Run touching_kernel ''p'' ''t'' (replicate 4 touching_order) (tp_initial 110 610 220 420 0)
      (Fin 50) (Fin 20) proc_initial = (Inr t4, snd touching_run)"
    using run by (simp add: touching_run_def)
  have "panel_events 3 (map (\<lambda>e. (SysWrite 4 (f e), x)) es) = []" for f :: "input_event \<Rightarrow> input_event" and es
    by (induction es) simp_all
  then have evs: "touching_script = panel_events (source_fd (snd touching_run)) (trace (snd touching_run))"
    by (simp add: run touching_panel)
  have "mirrors (tp_initial 110 610 220 420 0) (mt_run touching_script mt_initial)
      (mt_run (device_writes (uinput_fd (snd touching_run)) (trace (snd touching_run))) mt_initial)"
    by (rule touchpad_shows_the_panel [OF fresh(1,2) touching_region _ _ ran fresh(3) evs _ _ _ touching_orders])
      (simp_all add: tp_initial_def touching_script_def is_report_def is_dropped_def)
  moreover define here where "here i tid \<longleftrightarrow>
      tp_Contains (tp_initial 110 610 220 420 0) (slots (mt_run touching_script mt_initial) ! i) \<and>
      slot_tid (slots (mt_run touching_script mt_initial) ! i) = tid" for i tid
  have one: "here i tid \<longleftrightarrow> i = 0 \<and> tid = 7" if "i < kNumSlots" "tid \<noteq> -1" for i tid
    using that by (auto simp: here_def touching_slots nth_list_update tp_Contains_def tp_initial_def
        FindValueByEvent_def slot_tid_def kSlotMissingValue_def)
  have k: "0 < kNumSlots" by (simp add: kNumSlots_def)
  then have "here 0 7" by (subst one) simp_all
  with k have "tid \<noteq> -1 \<and> (\<exists>i < kNumSlots. here i tid) \<longleftrightarrow> tid = 7" for tid
    by (cases "tid = 7") (auto simp del: neq0_conv dest: one [THEN iffD1])
  then have "{tid. tid \<noteq> -1 \<and> (\<exists>i < kNumSlots. here i tid)} = {7}" by simp
  ultimately show ?thesis by (simp add: mirrors_def touching_writes(1) here_def)
qed

end
