(* ===== verification/Touchpad_Direct.thy ===== *)
theory Touchpad_Direct
  imports Touchpad_Process
begin

text \<open>
  The touchpad loop in the order of the source: every event is written where
  \<^verbatim>\<open>PassEventsThrough\<close>, \<^verbatim>\<open>SyncTouchEvents\<close> and \<^verbatim>\<open>SendTouchpadBtnEvents\<close> send it, where the theories
  Touchpad and Touchpad_Worker collect the events of a frame first. The two agree on every run.
\<close>

section \<open>The loop in source order\<close>

definition send_event :: "kernel \<Rightarrow> input_event \<Rightarrow> unit io" where
  "send_event K e = SendEvent K (ev_type e) (ev_code e) (ev_value e)"

text \<open>\<open>is_valid\<close> is the local variable of \<^verbatim>\<open>PassEventsThrough\<close>.\<close>

fun direct_pass :: "kernel \<Rightarrow> touchpad \<Rightarrow> slot \<Rightarrow> event_key list \<Rightarrow> bool \<Rightarrow> bool io" where
  "direct_pass K tp s [] is_valid = io_return is_valid"
| "direct_pass K tp s (k # order) is_valid =
     (case s k of
        None \<Rightarrow> direct_pass K tp s order is_valid
      | Some value \<Rightarrow>
          if \<not> IsSupportedForTouchpads k then direct_pass K tp s order is_valid
          else io_bind (send_event K (transform tp k value))
                 (\<lambda>_. direct_pass K tp s order
                    (if IsTrackingID k then is_valid \<or> value \<noteq> -1 else is_valid)))"

definition set_membership :: "nat \<Rightarrow> bool \<Rightarrow> touchpad \<Rightarrow> touchpad" where
  "set_membership i m tp = tp\<lparr>slot_memberships := (slot_memberships tp)[i := m]\<rparr>"

text \<open>One turn of the loop over the slots: whether the slot counts as a touch, and the new state.\<close>

definition direct_slot ::
  "kernel \<Rightarrow> event_key list \<Rightarrow> nat \<Rightarrow> touchpad \<Rightarrow> (bool \<times> touchpad) io" where
  "direct_slot K order i tp =
     (case slot_at (tp_sm tp) i of
        Inl e \<Rightarrow> io_throw e
      | Inr s \<Rightarrow>
          io_bind (SendEvent K EV_ABS ABS_MT_SLOT (int i)) (\<lambda>_.
            if length (slot_memberships tp) \<le> i
            then io_throw (UndefinedBehaviour ''slot_memberships_ index out of range'')
            else if \<not> tp_Contains tp s
            then io_bind (if slot_memberships tp ! i then SendEvent K EV_ABS ABS_MT_TRACKING_ID (-1)
                          else io_return ())
                   (\<lambda>_. io_return (False, set_membership i False tp))
            else io_bind (if \<not> slot_memberships tp ! i
                          then SendEvent K EV_ABS ABS_MT_TRACKING_ID
                                 (FindValueByEvent s EV_ABS ABS_MT_TRACKING_ID)
                          else io_return ())
                   (\<lambda>_. io_bind (direct_pass K (set_membership i True tp) s order False)
                     (\<lambda>valid_finger. io_return
                        (valid_finger \<and> slot_memberships (set_membership i True tp) ! i,
                         set_membership i True tp)))))"

fun direct_sync ::
  "kernel \<Rightarrow> (nat \<Rightarrow> event_key list) \<Rightarrow> nat list \<Rightarrow> int \<Rightarrow> touchpad \<Rightarrow> (int \<times> touchpad) io" where
  "direct_sync K orders [] touch_count tp = io_return (touch_count, tp)"
| "direct_sync K orders (i # is) touch_count tp =
     io_bind (direct_slot K (orders i) i tp) (\<lambda>(is_touch, tp1).
       direct_sync K orders is (if is_touch then touch_count + 1 else touch_count) tp1)"

definition direct_buttons :: "kernel \<Rightarrow> int \<Rightarrow> unit io" where
  "direct_buttons K touch_count =
     io_bind (SendEvent K EV_KEY BTN_TOUCH (if touch_count > 0 then 1 else 0)) (\<lambda>_.
     io_bind (SendEvent K EV_KEY BTN_TOOL_FINGER (if touch_count = 1 then 1 else 0)) (\<lambda>_.
     io_bind (SendEvent K EV_KEY BTN_TOOL_DOUBLETAP (if touch_count = 2 then 1 else 0)) (\<lambda>_.
     io_bind (SendEvent K EV_KEY BTN_TOOL_TRIPLETAP (if touch_count = 3 then 1 else 0)) (\<lambda>_.
     SendEvent K EV_KEY BTN_TOOL_QUADTAP (if touch_count = 4 then 1 else 0)))))"

definition direct_frame :: "kernel \<Rightarrow> (nat \<Rightarrow> event_key list) \<Rightarrow> touchpad \<Rightarrow> touchpad io" where
  "direct_frame K orders tp =
     io_bind (direct_sync K orders [0..<kNumSlots] 0 tp) (\<lambda>(touch_count, tp1).
     io_bind (direct_buttons K touch_count) (\<lambda>_.
     io_bind (SendEvent K EV_SYN SYN_REPORT 0) (\<lambda>_. io_return tp1)))"

definition direct_tp_iteration :: "kernel \<Rightarrow> (nat \<Rightarrow> event_key list) \<Rightarrow> touchpad \<Rightarrow> touchpad io" where
  "direct_tp_iteration K orders tp =
     io_bind (GetNextEvent K kNoTimeout False) (\<lambda>ready. case ready of
         None \<Rightarrow> io_return tp
       | Some ev \<Rightarrow>
           (case AddEvent ev None (tp_sm tp) of
              (frame, _, sm') \<Rightarrow>
                if frame then direct_frame K orders (tp\<lparr>tp_sm := sm'\<rparr>)
                else io_return (tp\<lparr>tp_sm := sm'\<rparr>)))"

fun direct_tp_Consume :: "kernel \<Rightarrow> (nat \<Rightarrow> event_key list) list \<Rightarrow> touchpad \<Rightarrow> touchpad io" where
  "direct_tp_Consume K [] tp = io_return tp"
| "direct_tp_Consume K (orders # rest) tp =
     io_bind (direct_tp_iteration K orders tp) (\<lambda>tp1. direct_tp_Consume K rest tp1)"

definition direct_tp_Run ::
  "kernel \<Rightarrow> string \<Rightarrow> string \<Rightarrow> (nat \<Rightarrow> event_key list) list \<Rightarrow> touchpad \<Rightarrow> fp \<Rightarrow> fp \<Rightarrow> touchpad io" where
  "direct_tp_Run K source_device_path touchpad_device_name all_orders tp w_mm h_mm =
     io_bind (touchpad_setup K source_device_path touchpad_device_name tp w_mm h_mm)
       (\<lambda>_. direct_tp_Consume K all_orders tp)"

section \<open>Agreement\<close>

lemma emit_send [simp]:
  "emit (SendEvents K) (Inr (input_ev t c v # es, x)) =
     io_bind (SendEvent K t c v) (\<lambda>_. emit (SendEvents K) (Inr (es, x)))"
  by simp

lemma direct_pass_emit:
  "direct_pass K tp s order is_valid =
     emit (SendEvents K) (Inr (fst (PassEventsThrough tp s order),
                               is_valid \<or> snd (PassEventsThrough tp s order)))"
proof (induction order arbitrary: is_valid)
  case (Cons k order)
  have IH: "direct_pass K tp s order v =
      emit (SendEvents K) (Inr (fst (PassEventsThrough tp s order), v \<or> snd (PassEventsThrough tp s order)))" for v
    by (rule Cons.IH)
  show ?case
  proof (cases "s k")
    case None
    then show ?thesis by (simp add: IH)
  next
    case (Some v)
    show ?thesis
      by (cases "IsSupportedForTouchpads k"; cases "IsTrackingID k")
        (simp_all add: Some IH send_event_def split_beta disj_assoc)
  qed
qed simp

lemma direct_slot_emit:
  assumes "slot_at (tp_sm tp) i = Inr s" and "i < length (slot_memberships tp)"
    and "sync_slot tp order i (slot_memberships tp ! i) s = (outs, member, cnt)"
  shows "direct_slot K order i tp = emit (SendEvents K) (Inr (outs, (cnt, set_membership i member tp)))"
  using assms
  by (auto simp: direct_slot_def sync_slot_def Let_def set_membership_def direct_pass_emit
      uinput_sink.emit_bind uinput_sink.emit_append emit_def io_bind_assoc split_beta
      split: if_splits simp del: io_simps(1))

lemma direct_sync_emit:
  "sync_slots orders is tp = Inr (outs, n, tp') \<Longrightarrow>
     direct_sync K orders is m tp = emit (SendEvents K) (Inr (outs, (m + n, tp')))"
proof (induction "is" arbitrary: tp outs n m)
  case (Cons i "is")
  from Cons.prems obtain s where s: "slot_at (tp_sm tp) i = Inr s" "i < length (slot_memberships tp)"
    by (auto split: sum.splits if_splits)
  obtain o1 member cnt where
    one: "sync_slot tp (orders i) i (slot_memberships tp ! i) s = (o1, member, cnt)"
    by (cases "sync_slot tp (orders i) i (slot_memberships tp ! i) s") blast
  from Cons.prems s one obtain o2 n2 where
    two: "sync_slots orders is (set_membership i member tp) = Inr (o2, n2, tp')"
    and outs: "outs = o1 @ o2" "n = (if cnt then 1 else 0) + n2"
    by (auto simp: set_membership_def split: sum.splits)
  show ?case
    by (simp add: direct_slot_emit [OF s one] Cons.IH [OF two] outs uinput_sink.emit_bind
        uinput_sink.emit_append add.assoc del: io_simps(1))
qed simp

lemma direct_frame_emit:
  assumes "SyncTouchEvents orders tp = Inr (outs, n, tp')"
  shows "direct_frame K orders tp =
    emit (SendEvents K) (Inr (outs @ SendTouchpadBtnEvents n @ [input_ev EV_SYN SYN_REPORT 0], tp'))"
  using direct_sync_emit [OF assms [unfolded SyncTouchEvents_def], of K 0]
  by (simp add: direct_frame_def direct_buttons_def SendTouchpadBtnEvents_def uinput_sink.emit_bind
      uinput_sink.emit_append io_bind_assoc del: io_simps(1))

lemma direct_tp_iteration_agrees:
  assumes "wf_tp tp"
  shows "direct_tp_iteration K orders tp = tp_iteration K orders tp"
proof -
  have "(case AddEvent ev None (tp_sm tp) of
          (frame, _, sm') \<Rightarrow>
            if frame then direct_frame K orders (tp\<lparr>tp_sm := sm'\<rparr>) else io_return (tp\<lparr>tp_sm := sm'\<rparr>)) =
        emit (SendEvents K) (tp_consume ev orders tp)" for ev
  proof -
    obtain frame out sm' where a: "AddEvent ev None (tp_sm tp) = (frame, out, sm')"
      by (cases "AddEvent ev None (tp_sm tp)") blast
    obtain outs n tp2 where "frame \<longrightarrow> SyncTouchEvents orders (tp\<lparr>tp_sm := sm'\<rparr>) = Inr (outs, n, tp2)"
      using tp_consume_total [OF assms, of ev orders] a
      by (auto simp: tp_consume_def Let_def split: if_splits sum.splits)
    then show ?thesis by (simp add: a tp_consume_def Let_def direct_frame_emit)
  qed
  then show ?thesis
    by (simp add: direct_tp_iteration_def tp_iteration_def emit_def cong: option.case_cong)
qed

lemma wf_tp_iteration:
  assumes "wf_tp tp" and "tp_iteration K orders tp w = (Inr tp', w')"
  shows "wf_tp tp'"
proof -
  from assms(2) obtain ready w0 where
    react: "(case ready of None \<Rightarrow> io_return tp
       | Some ev \<Rightarrow> (case tp_consume ev orders tp of Inl e \<Rightarrow> io_throw e
           | Inr (outs, tp1) \<Rightarrow> io_bind (SendEvents K outs) (\<lambda>_. io_return tp1))) w0 = (Inr tp', w')"
    unfolding tp_iteration_def io_bind_eq [of "GetNextEvent K kNoTimeout False"] by blast
  show ?thesis
  proof (cases ready)
    case None
    with react assms(1) show ?thesis by simp
  next
    case (Some ev)
    obtain outs tp1 where c: "tp_consume ev orders tp = Inr (outs, tp1)"
      using tp_consume_total [OF assms(1)] by blast
    with react Some have "tp' = tp1" by (auto simp: io_bind_eq)
    with wf_tp_consume [OF assms(1) c] show ?thesis by simp
  qed
qed

lemma direct_tp_Consume_agrees:
  "wf_tp tp \<Longrightarrow> direct_tp_Consume K all_orders tp w = touchpad_Consume K all_orders tp w"
proof (induction all_orders arbitrary: tp w)
  case (Cons orders rest)
  obtain r w1 where one: "tp_iteration K orders tp w = (r, w1)" by fastforce
  show ?case
    using one Cons.IH wf_tp_iteration [OF Cons.prems, of K orders w]
    by (cases r) (simp_all add: direct_tp_iteration_agrees [OF Cons.prems])
qed simp

text \<open>
  Sending each event of the touchpad where the source does it, slot by slot and entry by entry,
  is the same as collecting the events of a frame and sending them afterwards: the two processes
  make the same system calls in the same order and end alike, for every kernel, whatever it
  answers and refuses.
\<close>

theorem touchpad_writes_in_source_order:
  assumes "FakeTouchpad_new hw file row = Inr (tp, w_mm, h_mm)"
  shows "direct_tp_Run K path name all_orders tp w_mm h_mm w = touchpad_Run K path name all_orders tp w_mm h_mm w"
proof -
  have "wf_tp tp" using FakeTouchpad_new_region [OF assms] by blast
  then show ?thesis
    unfolding direct_tp_Run_def touchpad_Run_def
    by (cases "touchpad_setup K path name tp w_mm h_mm w"; cases "fst (touchpad_setup K path name tp w_mm h_mm w)")
      (simp_all add: direct_tp_Consume_agrees)
qed

theorem touchpad_writes_in_source_order_witness:
  "filter (\<lambda>e. ev_code e \<in> {ABS_MT_POSITION_X, ABS_MT_POSITION_Y, BTN_TOUCH})
     (device_writes 4 (trace (snd (direct_tp_Run touching_kernel ''p'' ''t'' (replicate 4 touching_order)
        (tp_initial 110 610 220 420 0) (Fin 50) (Fin 20) proc_initial)))) =
   [input_ev EV_ABS ABS_MT_POSITION_X 90, input_ev EV_ABS ABS_MT_POSITION_Y 80, input_ev EV_KEY BTN_TOUCH 1]"
  unfolding touchpad_writes_in_source_order [OF touching_region] touching_run_def [symmetric]
  using touching_frame_events [folded touching_writes(2)] by blast

end
