(* ===== verification/Conformance.thy ===== *)
theory Conformance
  imports Options_Props Config_Props Multitouch_Spec Workers
begin

text \<open>
  The repository's own unit tests (\<^verbatim>\<open>src/tests/*_test.cc\<close>) run on the model: each test is a definition
  that follows the test program and gives the list of its checks, and a lemma that they all hold.
  They tie the model to the behaviour its authors expect of the code, independently of the
  properties proved elsewhere.
\<close>

section \<open>\<^verbatim>\<open>state_machine_test.cc\<close>\<close>

definition AddFinger :: "int \<Rightarrow> int \<Rightarrow> int \<Rightarrow> int \<Rightarrow> mt_state \<Rightarrow> mt_state" where
  "AddFinger slot_index tracking_id x y machine =
     mt_run [input_ev EV_ABS ABS_MT_SLOT slot_index, input_ev EV_ABS ABS_MT_TRACKING_ID tracking_id,
             input_ev EV_ABS ABS_MT_POSITION_X x, input_ev EV_ABS ABS_MT_POSITION_Y y] machine"

definition finger_at :: "snapshot option \<Rightarrow> int \<Rightarrow> int \<Rightarrow> int \<Rightarrow> bool" where
  "finger_at out tid x y =
     (case out of None \<Rightarrow> False
      | Some snap \<Rightarrow> (case snap tid of None \<Rightarrow> False | Some f \<Rightarrow> finger_x f = x \<and> finger_y f = y))"

text \<open>The tracking ids of the fingers of a snapshot, so that its size can be computed.\<close>

definition live_tids :: "mt_state \<Rightarrow> int list" where
  "live_tids sm = remdups (filter (\<lambda>t. t \<noteq> -1) (map slot_tid (slots sm)))"

lemma live_tids: "dom (FillSnapshot sm) = set (live_tids sm)"
  by (auto simp: live_tids_def FillSnapshot_lookup Let_def filter_empty_conv dom_def)

fun threw_out_of_range :: "exn + 'a \<Rightarrow> bool" where
  "threw_out_of_range (Inl (OutOfRange m)) = True"
| "threw_out_of_range r = False"

definition state_machine_test :: "bool list" where
  "state_machine_test =
     (let m0 = AddFinger 2 42 120 340 mt_initial;
          (r1, out1, m1) = AddEvent (input_ev EV_SYN SYN_REPORT 0) (Some Map.empty) m0;
          m2 = mt_run [input_ev EV_ABS ABS_MT_SLOT (-1), input_ev EV_ABS ABS_MT_POSITION_X 999,
                       input_ev EV_ABS ABS_MT_SLOT 10, input_ev EV_ABS ABS_MT_POSITION_Y 999] m1;
          (r2, out2, m3) = AddEvent (input_ev EV_SYN SYN_REPORT 0) out1 m2;
          (r3, out3, m4) = AddEvent (input_ev EV_SYN SYN_DROPPED 0) out2 m3;
          m5 = AddFinger 0 77 1 2 m4;
          (r4, out4, m6) = AddEvent (input_ev EV_SYN SYN_REPORT 0) out3 m5;
          (r5, out5, m7) = AddEvent (input_ev EV_SYN SYN_REPORT 0) out4 m6;
          m8 = AddFinger 0 88 5 6 m7;
          (r6, out6, m9) = AddEvent (input_ev EV_SYN SYN_REPORT 0) out5 m8
      in [r1, live_tids m1 = [42] \<and> finger_at out1 42 120 340, r2, finger_at out2 42 120 340, \<not> r3, \<not> r4,
          \<not> r5 \<or> live_tids m7 = [], r6, live_tids m9 = [88] \<and> finger_at out6 88 5 6,
          threw_out_of_range (slot_at m9 10)])"

lemma state_machine_test_passes: "list_all id state_machine_test"
  by code_simp

section \<open>\<^verbatim>\<open>uinput_device_test.cc\<close>\<close>

definition FakeSyscalls :: "bool \<Rightarrow> bool \<Rightarrow> kernel" where
  "FakeSyscalls fail_create short_write tr c =
     \<lparr>ret = (case c of SysOpen _ _ \<Rightarrow> 42
                     | SysWrite _ _ \<Rightarrow> if short_write then sizeof_input_event - 1 else sizeof_input_event
                     | SysIoctl _ q \<Rightarrow> if q = UI_DEV_CREATE \<and> fail_create then -1 else 0
                     | _ \<Rightarrow> 0),
      err = 0, payload = NoData\<rparr>"

fun ioctl_code :: "syscall \<times> sysret \<Rightarrow> ioctl_request option" where
  "ioctl_code (SysIoctl fd q, r) = Some q"
| "ioctl_code (c, r) = None"

fun is_setup :: "ioctl_request option \<Rightarrow> bool" where
  "is_setup (Some (UI_DEV_SETUP d)) = True"
| "is_setup q = False"

definition setup_calls :: "trace \<Rightarrow> nat" where
  "setup_calls tr = length (filter (\<lambda>x. is_setup (ioctl_code x)) tr)"

definition create_calls :: "trace \<Rightarrow> nat" where
  "create_calls tr = length (filter (\<lambda>x. ioctl_code x = Some UI_DEV_CREATE) tr)"

definition destroy_calls :: "trace \<Rightarrow> nat" where
  "destroy_calls tr = length (filter (\<lambda>x. ioctl_code x = Some UI_DEV_DESTROY) tr)"

text \<open>The life of a test device: opened, set up if wanted, one key sent if wanted, destroyed.\<close>

definition test_device :: "kernel \<Rightarrow> bool \<Rightarrow> bool \<Rightarrow> (exn + bool \<times> bool) \<times> proc" where
  "test_device K finalize send =
     io_finally
       (io_bind (CreateUinputFD K) (\<lambda>opened.
        io_bind (if finalize then FinalizeUinputCreation K ''Halo Test'' else io_return True) (\<lambda>final.
        io_bind (if send then SendEvent K EV_KEY 30 1 else io_return ()) (\<lambda>_.
          io_return (opened, final)))))
       (UinputDevice_destructor K) proc_initial"

fun threw_runtime_error :: "exn + 'a \<Rightarrow> bool" where
  "threw_runtime_error (Inl (RuntimeError m)) = True"
| "threw_runtime_error r = False"

definition uinput_device_test :: "bool list" where
  "uinput_device_test =
     (let (r1, w1) = test_device (FakeSyscalls False False) True True;
          (r2, w2) = test_device (FakeSyscalls True False) True False;
          (r3, w3) = test_device (FakeSyscalls False True) False True
      in [r1 = Inr (True, True), setup_calls (trace w1) = 1, create_calls (trace w1) = 1,
          destroy_calls (trace w1) = 1, closed_all (trace w1) = {#42#},
          r2 = Inr (True, False), destroy_calls (trace w2) = 0, closed_all (trace w2) = {#42#},
          threw_runtime_error r3])"

lemma uinput_device_test_passes: "list_all id uinput_device_test"
  by code_simp

section \<open>\<^verbatim>\<open>evdev_source_test.cc\<close>\<close>

definition OpenResult :: "int \<Rightarrow> int \<Rightarrow> kernel" where
  "OpenResult open_result open_error tr c =
     \<lparr>ret = (case c of SysOpen _ _ \<Rightarrow> open_result | _ \<Rightarrow> 0), err = open_error, payload = NoData\<rparr>"

definition test_source :: "kernel \<Rightarrow> (exn + bool) \<times> proc" where
  "test_source K =
     io_finally (OpenSourceDevice K kTouchSensorDevicePath) (EvdevSource_destructor K) proc_initial"

text \<open>The error number is preserved, and classified as the test expects.\<close>

definition open_error :: "int \<Rightarrow> bool \<Rightarrow> bool" where
  "open_error e expected =
     (case fst (test_source (OpenResult (-1) e)) of
        Inl (SystemError code m) \<Rightarrow> code = e \<and> IsExpectedSourceDeviceError code = expected
      | _ \<Rightarrow> False)"

definition evdev_source_test :: "bool list" where
  "evdev_source_test =
     (let (r, w) = test_source (OpenResult 42 0)
      in [r = Inr True, closed_all (trace w) = {#42#},
          open_error ENOENT True, open_error ENODEV True, open_error 13 False])"

lemma evdev_source_test_passes: "list_all id evdev_source_test"
  by code_simp

section \<open>\<^verbatim>\<open>hardware_config_test.cc\<close>\<close>

definition test_row :: "int \<Rightarrow> int \<Rightarrow> fp \<Rightarrow> fp \<Rightarrow> fp \<Rightarrow> fp \<Rightarrow> int \<Rightarrow> hardware_config" where
  "test_row x y w h l t r =
     \<lparr>rotation = r, res_x = x, res_y = y, width_mm = w, height_mm = h, left_margin_mm = l, top_margin_mm = t\<rparr>"

definition loads :: "hardware_config \<Rightarrow> bool" where
  "loads row = (case LoadHardwareConfig ''test.csv'' (Inr (Some row)) of Inr c \<Rightarrow> c = row | Inl _ \<Rightarrow> False)"

definition hardware_config_test :: "bool list" where
  "hardware_config_test =
     [loads (test_row 1920 1080 (Fin 256) (Fin 144) (Fin (3/2)) (Fin (5/2)) 270),
      IsSupportedRotation 90, \<not> IsSupportedRotation 45,
      \<not> loads (test_row 0 1080 (Fin 256) (Fin 144) (Fin 0) (Fin 0) 0),
      \<not> loads (test_row 1920 1080 (Fin 256) (Fin 144) (Fin 0) (Fin 0) 45),
      \<not> loads (test_row 1920 1080 NaN (Fin 144) (Fin 0) (Fin 0) 0),
      \<not> loads (test_row 1920 1080 (Fin 256) (Fin 144) (Fin (-1)) (Fin 0) 0)]"

lemma hardware_config_test_passes: "list_all id hardware_config_test"
  by code_simp

section \<open>\<^verbatim>\<open>options_test.cc\<close>\<close>

definition Parse :: "string list \<Rightarrow> ParseResult \<times> options option \<times> string option" where
  "Parse arguments = ParseOptions arguments (Some default_options) (Some [])"

definition rejected :: "string list \<Rightarrow> bool" where
  "rejected arguments =
     (case Parse arguments of (result, _, error) \<Rightarrow> result = kError \<and> error \<noteq> None \<and> error \<noteq> Some [])"

definition parsed :: "string list \<Rightarrow> ParseResult \<Rightarrow> options \<Rightarrow> bool" where
  "parsed arguments result opts = (case Parse arguments of (r, o1, _) \<Rightarrow> r = result \<and> o1 = Some opts)"

lemma options_accepted:
  "parsed [] kSuccess \<lparr>debug_level = 0, haptic_magnitude = Fin 1, haptic_duration_ms = 12, config_directory = []\<rparr>"
  "parsed [''--debug'', ''--debug'', ''--magnitude'', ''0.25'', ''--duration-ms'', ''20'',
           ''--config-directory'', ''/tmp/halo''] kSuccess
     \<lparr>debug_level = 2, haptic_magnitude = Fin (1/4), haptic_duration_ms = 20, config_directory = ''/tmp/halo''\<rparr>"
  "parsed [''-d'', ''-m'', ''0'', ''-D'', ''1000'', ''-c'', ''/etc/halo-keyboard''] kSuccess
     \<lparr>debug_level = 1, haptic_magnitude = Fin 0, haptic_duration_ms = 1000,
      config_directory = ''/etc/halo-keyboard''\<rparr>"
  "parsed [''--help''] kHelp default_options"
  by code_simp+

lemma options_rejected:
  "rejected [''--magnitude'', ''1.1'']"
  "rejected [''--magnitude'', ''nan'']"
  "rejected [''--duration-ms'', ''0'']"
  "rejected [''--duration-ms'', ''12ms'']"
  "rejected [''--duration-ms'']"
  "rejected [''--config-directory'']"
  "rejected [''--config-directory'', []]"
  "rejected [''--unknown'']"
  by code_simp+

end
