(* ===== verification/Diagnostics.thy ===== *)
theory Diagnostics
  imports Options_Props
begin

text \<open>
  The diagnostics: the severities of \<^verbatim>\<open>logging.h\<close> and the threshold of \<^verbatim>\<open>logging.cc\<close>, and the usage
  text of \<^verbatim>\<open>options.cc\<close>, which documents exactly the options that the parser knows.
\<close>

section \<open>Severities\<close>

datatype LogSeverity = VERBOSE | DEBUG | INFO | WARNING | ERROR | FATAL_WITHOUT_ABORT | FATAL

primrec severity_value :: "LogSeverity \<Rightarrow> int" where
  "severity_value VERBOSE = 0"
| "severity_value DEBUG = 1"
| "severity_value INFO = 2"
| "severity_value WARNING = 3"
| "severity_value ERROR = 4"
| "severity_value FATAL_WITHOUT_ABORT = 5"
| "severity_value FATAL = 6"

text \<open>The order of the enumerators.\<close>

instantiation LogSeverity :: linorder
begin

definition less_eq_LogSeverity :: "LogSeverity \<Rightarrow> LogSeverity \<Rightarrow> bool" where
  "less_eq_LogSeverity s t \<longleftrightarrow> severity_value s \<le> severity_value t"

definition less_LogSeverity :: "LogSeverity \<Rightarrow> LogSeverity \<Rightarrow> bool" where
  "less_LogSeverity s t \<longleftrightarrow> severity_value s < severity_value t"

instance
proof
  fix s t :: LogSeverity
  show "s = t" if "s \<le> t" "t \<le> s"
    using that by (cases s; cases t) (simp_all add: less_eq_LogSeverity_def)
qed (auto simp: less_eq_LogSeverity_def less_LogSeverity_def)

end

datatype log_stream = Clog | NullStream

definition get_log_stream :: "LogSeverity \<Rightarrow> LogSeverity \<Rightarrow> log_stream" where
  "get_log_stream min_severity severity = (if severity \<ge> min_severity then Clog else NullStream)"

text \<open>The state of the module is the threshold, which \<^verbatim>\<open>main\<close> sets if the option \<^verbatim>\<open>-d\<close> is given.\<close>

definition initial_severity :: LogSeverity where "initial_severity = INFO"

definition SetMinimumLogSeverity :: "LogSeverity \<Rightarrow> LogSeverity \<Rightarrow> LogSeverity" where
  "SetMinimumLogSeverity severity min_severity = severity"

definition minimum_severity :: "options \<Rightarrow> LogSeverity" where
  "minimum_severity opts =
     (if debug_level opts > 0 then SetMinimumLogSeverity DEBUG initial_severity else initial_severity)"

lemma debug_messages_need_the_option:
  "get_log_stream (minimum_severity opts) s = Clog \<longleftrightarrow>
     s \<noteq> VERBOSE \<and> (s = DEBUG \<longrightarrow> 0 < debug_level opts)"
  by (cases s) (auto simp: get_log_stream_def minimum_severity_def SetMinimumLogSeverity_def
    initial_severity_def less_eq_LogSeverity_def)

section \<open>The usage text\<close>

definition usage :: "string list" where
  "usage =
     [''Usage: halo-keyboard-handler [options]'',
      ''  -h, --help                 Show this help'',
      ''  -d, --debug                Enable debug logging (repeatable)'',
      ''  -m, --magnitude VALUE      Haptic magnitude from 0.0 to 1.0'',
      ''  -D, --duration-ms VALUE    Haptic duration from 1 to 1000 ms'',
      ''  -c, --config-directory DIR Configuration directory'']"

text \<open>The names a line documents: up to the comma, and from after the comma and the space to the next space.\<close>

definition documented_names :: "string \<Rightarrow> string \<times> string" where
  "documented_names line =
     (let l = drop 2 line; rest = dropWhile (\<lambda>c. c \<noteq> CHR '','') l
      in (takeWhile (\<lambda>c. c \<noteq> CHR '','') l, takeWhile (\<lambda>c. c \<noteq> CHR '' '') (drop 2 rest)))"

lemma documented_options:
  "map documented_names (tl usage) =
     [(''-h'', ''--help''), (''-d'', ''--debug''), (''-m'', ''--magnitude''), (''-D'', ''--duration-ms''),
      (''-c'', ''--config-directory'')]"
  by code_simp

lemma known_messages:
  "magnitude_error \<noteq> ''unknown option: '' @ a" "duration_error \<noteq> ''unknown option: '' @ a"
  "directory_error \<noteq> ''unknown option: '' @ a"
proof -
  have "hd magnitude_error \<noteq> hd (''unknown option: '' @ a)" "hd duration_error \<noteq> hd (''unknown option: '' @ a)"
    "hd directory_error \<noteq> hd (''unknown option: '' @ a)"
    by (simp_all add: magnitude_error_def duration_error_def directory_error_def)
  then show "magnitude_error \<noteq> ''unknown option: '' @ a" "duration_error \<noteq> ''unknown option: '' @ a"
    "directory_error \<noteq> ''unknown option: '' @ a" by metis+
qed

lemma option_messages:
  "magnitude_option a rest opts err = Inl (r, opts', e) \<Longrightarrow> e = magnitude_error"
  "duration_option a rest opts err = Inl (r, opts', e) \<Longrightarrow> e = duration_error"
  "directory_option a rest opts err = Inl (r, opts', e) \<Longrightarrow> e = directory_error"
  unfolding magnitude_option_def duration_option_def directory_option_def TakeValue_def
  by (simp_all add: Let_def split: if_split_asm list.splits prod.splits)

text \<open>An argument is rejected as unknown exactly if no line of the usage text documents it.\<close>

lemma usage_is_complete:
  "(\<exists>(short, long) \<in> set (map documented_names (tl usage)). is_option argument short long) \<longleftrightarrow>
     parse_argument argument rest opts err \<noteq> Inl (kError, opts, ''unknown option: '' @ argument)"
proof -
  let ?unknown = "Inl (kError, opts, ''unknown option: '' @ argument)"
  have "magnitude_option argument rest opts err \<noteq> ?unknown" "duration_option argument rest opts err \<noteq> ?unknown"
    "directory_option argument rest opts err \<noteq> ?unknown"
    using option_messages known_messages by metis+
  then show ?thesis
    unfolding documented_options parse_argument_def
    by (simp only: list.set Bex_def insert_iff empty_iff prod.case split: if_split) blast
qed

end
