(* ===== verification/Float_Error.thy ===== *)
theory Float_Error
  imports Floats
begin

text \<open>
  Error bounds for \<^verbatim>\<open>double\<close> arithmetic on values of the size that the geometry of the panel has:
  the result of an operation is within \<open>2\<^sup>-\<^sup>4\<^sup>0\<close> of the exact one. \<open>near e v a\<close> says that the
  floating-point value \<open>a\<close> is finite and at most \<open>e\<close> from \<open>v\<close>; the rules propagate it through the
  operations, so that a chain of them is bounded without evaluating it.
\<close>

section \<open>Rounding error\<close>

definition eps :: rat where
  "eps = 1 / 2 ^ 40"

lemma eps_pos [simp]: "0 < eps" "0 \<le> eps"
  by (simp_all add: eps_def)

lemma round_half_even_error: "\<bar>of_int (round_half_even y) - y\<bar> \<le> 1 / 2"
proof -
  have "(round_half_even y = floor y \<and> y - of_int (floor y) \<le> 1 / 2) \<or>
        (round_half_even y = floor y + 1 \<and> 1 / 2 \<le> y - of_int (floor y))"
    by (auto simp: round_half_even_def Let_def)
  then show ?thesis
  proof (elim disjE conjE)
    assume "round_half_even y = floor y" "y - of_int (floor y) \<le> 1 / 2"
    then show ?thesis unfolding abs_le_iff by (simp only:) linarith
  next
    assume "round_half_even y = floor y + 1" "1 / 2 \<le> y - of_int (floor y)"
    then show ?thesis unfolding abs_le_iff by (simp only: of_int_add of_int_1) linarith
  qed
qed

lemma round_pos_error:
  assumes "0 \<le> x" and "x \<le> 4096"
  shows "\<bar>round_pos double_format x - x\<bar> \<le> eps"
proof (cases "x = 0")
  case True
  then show ?thesis by (simp add: round_pos_def)
next
  case False
  with assms have x: "0 < x" by simp
  define e where "e = ulp_exp double_format x"
  have "2 powi (leading_exp x) \<le> x" by (rule leading_exp_bounds(1) [OF x])
  also have "x < 2 powi 13" using assms(2) by simp
  finally have "leading_exp x < 13" unfolding powi_less .
  then have e: "e \<le> -40" by (simp add: e_def ulp_exp_def)
  have p: "(0 :: rat) < 2 powi e" by simp
  define d where "d = of_int (round_half_even (x / 2 powi e)) - x / 2 powi e"
  have "round_pos double_format x = of_int (round_half_even (x / 2 powi e)) * 2 powi e"
    using x by (simp only: round_pos_def Let_def e_def if_False less_imp_neq [THEN not_sym])
  moreover have "x = x / 2 powi e * 2 powi e" using p by simp
  ultimately have "round_pos double_format x - x = d * 2 powi e"
    unfolding d_def left_diff_distrib by metis
  then have "\<bar>round_pos double_format x - x\<bar> = \<bar>d\<bar> * 2 powi e"
    using p by (simp only: abs_mult abs_of_pos)
  also have "\<dots> \<le> 1 * 2 powi e"
    using round_half_even_error [of "x / 2 powi e"] p unfolding d_def
    by (intro mult_right_mono) linarith+
  also have "\<dots> \<le> 2 powi (-40)" using e by (simp only: mult_1 powi_mono)
  also have "(2 :: rat) powi (-40) = eps" by (simp add: eps_def power_int_def power_one_over)
  finally show ?thesis .
qed

lemma round_rat_error: "\<bar>x\<bar> \<le> 4096 \<Longrightarrow> \<bar>round_rat double_format x - x\<bar> \<le> eps"
  using round_pos_error [of x] round_pos_error [of "- x"] by (auto simp: round_rat_def)

lemma fp_of_rat_error:
  assumes "\<bar>x\<bar> \<le> 4096"
  shows "\<exists>r. fp_of_rat double_format x = Fin r \<and> \<bar>r - x\<bar> \<le> eps"
proof -
  let ?r = "round_rat double_format x"
  have "eps \<le> 1" by (simp add: eps_def)
  with round_rat_error [OF assms] assms have "\<bar>?r\<bar> < 2 powi 13" by simp
  also have "\<dots> < 2 powi 1024" unfolding powi_less by simp
  finally show ?thesis using round_rat_error [OF assms] by (simp add: fp_of_rat_def not_le)
qed

section \<open>Propagation\<close>

definition near :: "rat \<Rightarrow> rat \<Rightarrow> fp \<Rightarrow> bool" where
  "near e v a \<longleftrightarrow> (\<exists>r. a = Fin r \<and> \<bar>r - v\<bar> \<le> e)"

lemma near_Fin [simp]: "near e v (Fin r) \<longleftrightarrow> \<bar>r - v\<bar> \<le> e"
  by (simp add: near_def)

lemma near_isfinite: "near e v a \<Longrightarrow> isfinite a"
  by (auto simp: near_def isfinite_def)

lemma near_weaken: "near e v a \<Longrightarrow> e \<le> d \<Longrightarrow> near d v a"
  by (auto simp: near_def)

lemma near_fp_of_rat:
  assumes "\<bar>x - v\<bar> \<le> e" and "\<bar>v\<bar> + e \<le> 4096"
  shows "near (e + eps) v (fp_of_rat double_format x)"
proof -
  have "\<bar>x\<bar> \<le> 4096" using assms by linarith
  from fp_of_rat_error [OF this] assms(1) show ?thesis by (auto simp: near_def)
qed

lemma near_add:
  "near d u a \<Longrightarrow> near e v b \<Longrightarrow> \<bar>u + v\<bar> + (d + e) \<le> 4096 \<Longrightarrow> d + e + eps \<le> f \<Longrightarrow>
     near f (u + v) (fp_add double_format a b)"
  by (rule near_weaken [where e = "d + e + eps"])
    (auto simp: near_def [of d] near_def [of e] intro!: near_fp_of_rat)

lemma near_sub:
  "near d u a \<Longrightarrow> near e v b \<Longrightarrow> \<bar>u - v\<bar> + (d + e) \<le> 4096 \<Longrightarrow> d + e + eps \<le> f \<Longrightarrow>
     near f (u - v) (fp_sub double_format a b)"
  by (rule near_weaken [where e = "d + e + eps"])
    (auto simp: near_def [of d] near_def [of e] fp_sub_def intro!: near_fp_of_rat)

lemma near_mul:
  assumes a: "near d u a" and b: "near e v b"
    and bound: "\<bar>u * v\<bar> + ((\<bar>u\<bar> + d) * e + \<bar>v\<bar> * d) \<le> 4096"
  shows "near ((\<bar>u\<bar> + d) * e + \<bar>v\<bar> * d + eps) (u * v) (fp_mul double_format a b)"
proof -
  from a b obtain r s where rs: "a = Fin r" "b = Fin s" "\<bar>r - u\<bar> \<le> d" "\<bar>s - v\<bar> \<le> e"
    by (auto simp: near_def)
  have "r * s - u * v = r * (s - v) + v * (r - u)" by (simp add: algebra_simps)
  then have "\<bar>r * s - u * v\<bar> \<le> \<bar>r\<bar> * \<bar>s - v\<bar> + \<bar>v\<bar> * \<bar>r - u\<bar>"
    by (metis abs_triangle_ineq abs_mult)
  also have "\<dots> \<le> (\<bar>u\<bar> + d) * e + \<bar>v\<bar> * d"
    using rs by (intro add_mono mult_mono mult_left_mono) auto
  finally show ?thesis using bound by (auto simp: rs intro!: near_fp_of_rat)
qed

section \<open>Truncation\<close>

text \<open>
  A value close to \<open>m / q\<close> with \<open>0 \<le> m\<close> truncates to the quotient, or to one less when the quotient
  is exact and not zero.
\<close>

definition quotient_below :: "int \<Rightarrow> int \<Rightarrow> int" where
  "quotient_below m q = (if m mod q = 0 \<and> m \<noteq> 0 then m div q - 1 else m div q)"

lemma trunc_near:
  assumes r: "\<bar>r - of_int m / of_int q\<bar> \<le> e" and m: "0 \<le> m" and q: "0 < q"
    and e: "e * of_int q < 1"
  shows "quotient_below m q \<le> trunc_rat r" and "trunc_rat r \<le> m div q"
    and "m = 0 \<Longrightarrow> trunc_rat r = 0"
proof -
  define n k where "n = m div q" and "k = m mod q"
  have mq: "m = n * q + k" and k: "0 \<le> k" "k < q" using q by (simp_all add: n_def k_def)
  have n0: "0 \<le> n" using m q by (simp add: n_def pos_imp_zdiv_nonneg_iff)
  have qr: "(0 :: rat) < of_int q" using q by simp
  have v: "of_int m / of_int q = (of_int n + of_int k / of_int q :: rat)"
    using qr by (simp add: mq field_simps)
  have e1: "e < 1 / of_int q" using e qr by (simp add: pos_less_divide_eq)
  have "(1 :: rat) \<le> of_int q" using q by simp
  then have "1 / of_int q \<le> (1 :: rat)" by (simp add: pos_divide_le_eq)
  with e1 have e2: "e < 1" by linarith
  have "(of_int k :: rat) + 1 \<le> of_int q" using k(2) by (metis of_int_1 of_int_add of_int_le_iff zless_imp_add1_zle)
  then have "(of_int k :: rat) / of_int q + 1 / of_int q \<le> 1"
    using qr by (simp add: add_divide_distrib [symmetric] pos_divide_le_eq)
  then have up: "r < of_int n + 1" using r e1 unfolding v by linarith
  have lo: "of_int n \<le> r" if "0 < k"
  proof -
    have "(1 :: rat) \<le> of_int k" using that by simp
    then have "1 / of_int q \<le> of_int k / (of_int q :: rat)" by (intro divide_right_mono) (use qr in simp_all)
    with r e1 show ?thesis unfolding v by linarith
  qed
  have "(0 :: rat) \<le> of_int k / of_int q" using k(1) q by simp
  then have lo': "of_int n - 1 < r" using r e2 unfolding v by linarith
  have n_zero: "n = 0" if "r < 0"
  proof -
    have "(of_int n :: rat) < 1" using that lo' by linarith
    then show ?thesis using n0 by simp
  qed
  have neg: "trunc_rat r = 0" if "r < 0" "n = 0"
    using that lo' by (simp add: trunc_rat_def floor_eq_iff)
  have pos: "trunc_rat r = floor r" if "0 \<le> r" using that by (simp add: trunc_rat_def)
  have fl: "floor r \<le> n" using up by (simp add: floor_le_iff)
  have le: "trunc_rat r \<le> n"
  proof (cases "0 \<le> r")
    case True
    then show ?thesis by (simp add: pos fl)
  next
    case False
    then show ?thesis using n_zero neg by simp
  qed
  then show "trunc_rat r \<le> m div q" by (simp add: n_def)
  have m0: "m = 0 \<longleftrightarrow> n = 0 \<and> k = 0" using q by (auto simp: n_def k_def)
  show "quotient_below m q \<le> trunc_rat r"
  proof (cases "0 \<le> r")
    case True
    have "n - 1 \<le> floor r" using lo' by (simp add: le_floor_iff)
    moreover have "n \<le> floor r" if "0 < k" using lo [OF that] by (simp add: le_floor_iff)
    moreover have "n \<le> floor r" if "n = 0" using that True by simp
    ultimately show ?thesis
      using k m0 by (auto simp: quotient_below_def pos [OF True] n_def [symmetric] k_def [symmetric])
  next
    case False
    then have "n = 0" using n_zero by simp
    with False show ?thesis using neg by (auto simp: quotient_below_def n_def [symmetric])
  qed
  show "trunc_rat r = 0" if "m = 0"
  proof (cases "0 \<le> r")
    case True
    then show ?thesis using that m0 fl by (simp add: pos) linarith
  next
    case False
    then show ?thesis using that m0 neg by simp
  qed
qed

end
