(* ===== verification/Shipped_Config.thy ===== *)
theory Shipped_Config
  imports Float_Error Config_Props Keyboard_Steps
begin

text \<open>
  The configuration that the package installs: \<^verbatim>\<open>config/hardware.csv\<close>, \<^verbatim>\<open>config/touchpad.csv\<close> and the
  two layouts of \<^verbatim>\<open>config/layouts\<close>, transcribed column by column with lengths in hundredths of a
  millimetre, and what the loading code makes of them. The CSV reader is a parameter of the
  model, so all that is assumed of it is that it delivers every number of a layout to within a
  millionth of a millimetre, and the integers and halves of the other two files exactly.
\<close>

section \<open>The files\<close>

definition shipped_hardware :: hardware_config where
  "shipped_hardware = \<lparr>rotation = 270, res_x = 1200, res_y = 1920, width_mm = Fin 139,
     height_mm = Fin 242, left_margin_mm = Fin 0, top_margin_mm = Fin 4\<rparr>"

definition shipped_touchpad :: "exn + region_row option" where
  "shipped_touchpad = region_of 78 (197 / 2) (291 / 2) 133"

text \<open>A row of a layout: \<^verbatim>\<open>y\<close>, \<^verbatim>\<open>height\<close>, \<^verbatim>\<open>x\<close>, \<^verbatim>\<open>width\<close>, \<^verbatim>\<open>code\<close> and \<^verbatim>\<open>code_fn\<close> (0 where it is empty).\<close>

type_synonym key_spec = "int \<times> int \<times> int \<times> int \<times> int \<times> int"

definition pc104 :: "key_spec list" where
  "pc104 =
    [(0,800,0,1800,1,0), (0,800,2150,1200,59,113), (0,800,3600,1200,60,114),
     (0,800,5050,1200,61,115), (0,800,6500,1200,62,247), (0,800,8050,1200,63,224),
     (0,800,9500,1200,64,225), (0,800,10950,1200,65,136), (0,800,12400,1200,66,171),
     (0,800,14000,1200,67,165), (0,800,15400,1200,68,164), (0,800,16850,1200,87,163),
     (0,800,18300,1200,88,99), (0,800,19900,1800,111,0), (0,2500,22050,2000,14,0),
     (1150,1370,0,1000,41,0), (1150,1370,1350,1450,2,0), (1150,1370,3160,1450,3,0),
     (1150,1370,4970,1450,4,0), (1150,1370,6780,1450,5,0), (1150,1370,8590,1450,6,0),
     (1150,1370,10400,1450,7,0), (1150,1370,12210,1450,8,0), (1150,1370,14020,1450,9,0),
     (1150,1370,15830,1450,10,0), (1150,1370,17640,1450,11,0), (1150,1370,19450,950,12,0),
     (1150,1370,20760,950,13,0), (2900,1370,0,1450,15,0), (2900,1370,1780,1450,16,0),
     (2900,1370,3592,1450,17,0), (2900,1370,5404,1450,18,0), (2900,1370,7216,1450,19,0),
     (2900,1370,9028,1450,20,0), (2900,1370,10840,1450,21,0), (2900,1370,12652,1450,22,0),
     (2900,1370,14464,1450,23,0), (2900,1370,16276,1450,24,0), (2900,1370,18088,1450,25,0),
     (2900,1370,19900,1150,26,0), (2900,1370,21470,1150,27,0), (2900,1370,23040,1100,43,0),
     (4650,1370,0,1900,58,0), (4650,1370,2250,1450,30,0), (4650,1370,4062,1450,31,0),
     (4650,1370,5874,1450,32,0), (4650,1370,7686,1450,33,0), (4650,1370,9498,1450,34,0),
     (4650,1370,11310,1450,35,0), (4650,1370,13122,1450,36,0), (4650,1370,14934,1450,37,0),
     (4650,1370,16746,1450,38,0), (4650,1370,18558,1450,39,0), (4650,1370,20370,1150,40,0),
     (4650,1370,21900,2200,28,0), (6400,1370,0,2800,42,0), (6400,1370,3170,1450,44,0),
     (6400,1370,4980,1450,45,0), (6400,1370,6790,1450,46,0), (6400,1370,8600,1450,47,0),
     (6400,1370,10410,1450,48,0), (6400,1370,12220,1450,49,0), (6400,1370,14030,1450,50,0),
     (6400,1370,15840,1450,51,0), (6400,1370,17650,1450,52,0), (6400,1370,19460,1450,53,0),
     (6400,1370,21270,2850,54,0), (8150,1370,0,1450,464,0), (8150,1370,1800,1450,29,0),
     (8150,1370,3600,1000,125,0), (8150,1370,4960,1450,56,0), (8150,1370,6770,8700,57,0),
     (8150,1370,15840,1450,100,0), (8150,1370,17650,1450,97,0), (8150,950,19460,1300,104,0),
     (8150,950,21130,1350,103,0), (8150,950,22830,1300,109,0), (9270,950,19460,1300,105,102),
     (9270,950,21130,1350,108,0), (9270,950,22830,1300,106,107), (9850,3450,14500,1000,273,0),
     (9850,3450,6800,1000,272,0)]"

definition pc105 :: "key_spec list" where
  "pc105 =
    [(0,800,0,1800,1,0), (0,800,2150,1200,59,113), (0,800,3600,1200,60,114),
     (0,800,5050,1200,61,115), (0,800,6500,1200,62,247), (0,800,8050,1200,63,224),
     (0,800,9500,1200,64,225), (0,800,10950,1200,65,136), (0,800,12400,1200,66,171),
     (0,800,14000,1200,67,165), (0,800,15400,1200,68,164), (0,800,16850,1200,87,163),
     (0,800,18300,1200,88,99), (0,800,19900,1800,111,0), (0,2500,22050,2000,14,0),
     (1150,1370,0,1000,41,0), (1150,1370,1350,1450,2,0), (1150,1370,3160,1450,3,0),
     (1150,1370,4970,1450,4,0), (1150,1370,6780,1450,5,0), (1150,1370,8590,1450,6,0),
     (1150,1370,10400,1450,7,0), (1150,1370,12210,1450,8,0), (1150,1370,14020,1450,9,0),
     (1150,1370,15830,1450,10,0), (1150,1370,17640,1450,11,0), (1150,1370,19450,950,12,0),
     (1150,1370,20760,950,13,0), (2900,1370,0,1450,15,0), (2900,1370,1780,1450,16,0),
     (2900,1370,3592,1450,17,0), (2900,1370,5404,1450,18,0), (2900,1370,7216,1450,19,0),
     (2900,1370,9028,1450,20,0), (2900,1370,10840,1450,21,0), (2900,1370,12652,1450,22,0),
     (2900,1370,14464,1450,23,0), (2900,1370,16276,1450,24,0), (2900,1370,18088,1450,25,0),
     (2900,1370,19900,1150,26,0), (2900,1370,21470,1150,27,0), (2900,1370,22660,1540,28,0),
     (4650,1370,0,1900,58,0), (4650,1370,2250,1450,30,0), (4650,1370,4062,1450,31,0),
     (4650,1370,5874,1450,32,0), (4650,1370,7686,1450,33,0), (4650,1370,9498,1450,34,0),
     (4650,1370,11310,1450,35,0), (4650,1370,13122,1450,36,0), (4650,1370,14934,1450,37,0),
     (4650,1370,16746,1450,38,0), (4650,1370,18558,1450,39,0), (4650,1370,20370,1100,40,0),
     (4650,1370,21750,1100,43,0), (4270,1370,23150,1050,28,0), (6400,1370,0,1500,42,0),
     (6400,1370,1800,1050,86,0), (6400,1370,3170,1450,44,0), (6400,1370,4980,1450,45,0),
     (6400,1370,6790,1450,46,0), (6400,1370,8600,1450,47,0), (6400,1370,10410,1450,48,0),
     (6400,1370,12220,1450,49,0), (6400,1370,14030,1450,50,0), (6400,1370,15840,1450,51,0),
     (6400,1370,17650,1450,52,0), (6400,1370,19460,1450,53,0), (6400,1370,21270,2850,54,0),
     (8150,1370,0,1450,464,0), (8150,1370,1800,1450,29,0), (8150,1370,3600,1000,125,0),
     (8150,1370,4960,1450,56,0), (8150,1370,6770,8700,57,0), (8150,1370,15840,1450,100,0),
     (8150,1370,17650,1450,97,0), (8150,950,19460,1300,104,0), (8150,950,21130,1350,103,0),
     (8150,950,22830,1300,109,0), (9270,950,19460,1300,105,102), (9270,950,21130,1350,108,0),
     (9270,950,22830,1300,106,107), (9850,3450,14500,1000,273,0), (9850,3450,6800,1000,272,0)]"

text \<open>What the reader may deliver for a row.\<close>

definition tolerance :: rat where
  "tolerance = 1 / 10 ^ 6"

fun reads_as :: "key_spec \<Rightarrow> layout_row \<Rightarrow> bool" where
  "reads_as (y, h, x, w, code, fn) row \<longleftrightarrow>
     (\<exists>rx ry rw rh. row_x row = Some rx \<and> row_y row = Some ry \<and> row_w row = Some rw \<and>
        row_h row = Some rh \<and> near tolerance (of_int x / 100) rx \<and>
        near tolerance (of_int y / 100) ry \<and> near tolerance (of_int w / 100) rw \<and>
        near tolerance (of_int h / 100) rh) \<and>
     row_code row = Some code \<and> the_or 0 (row_code_fn row) = fn"

section \<open>The bounds of a key\<close>

text \<open>
  On the panel of the file, rotated by 270 degrees, one millimetre is \<open>1200 / 139\<close> units along
  the x axis, which the vertical position of a key goes to, and \<open>1920 / 242\<close> along the y axis. The
  exact bounds are fractions with the denominators 139 and 605; \<open>key_box\<close> is the smallest box
  that contains the key whichever way the rounding goes.
\<close>

fun key_box :: "key_spec \<Rightarrow> int \<times> int \<times> int \<times> int" where
  "key_box (y, h, x, w, code, fn) =
     (quotient_below (12 * (13500 - (y + h))) 139, 12 * (13500 - y) div 139,
      quotient_below (48 * x) 605, 48 * (x + w) div 605)"

fun spec_ok :: "key_spec \<Rightarrow> bool" where
  "spec_ok (y, h, x, w, code, fn) \<longleftrightarrow>
     0 \<le> y \<and> 0 < h \<and> y + h \<le> 13500 \<and> 0 \<le> x \<and> 0 < w \<and> x + w \<le> 24200 \<and>
     0 < code \<and> code \<le> KEY_MAX \<and> 0 \<le> fn \<and> fn \<le> KEY_MAX \<and>
     12 * (13500 - (y + h)) div 139 < quotient_below (12 * (13500 - y)) 139 \<and>
     48 * x div 605 < quotient_below (48 * (x + w)) 605"

text \<open>What the loading code makes of a row: the codes, and each bound within one of its quotient.\<close>

fun key_of_spec :: "key_spec \<Rightarrow> key \<Rightarrow> bool" where
  "key_of_spec (y, h, x, w, code, fn) k \<longleftrightarrow>
     key_event_code k = code \<and> key_event_code_fn k = fn \<and>
     quotient_below (12 * (13500 - (y + h))) 139 \<le> key_xmin k \<and>
     key_xmin k \<le> 12 * (13500 - (y + h)) div 139 \<and>
     quotient_below (12 * (13500 - y)) 139 \<le> key_xmax k \<and> key_xmax k \<le> 12 * (13500 - y) div 139 \<and>
     quotient_below (48 * x) 605 \<le> key_ymin k \<and> key_ymin k \<le> 48 * x div 605 \<and>
     quotient_below (48 * (x + w)) 605 \<le> key_ymax k \<and> key_ymax k \<le> 48 * (x + w) div 605"

lemma pitches:
  "near eps (1200 / 139) (ddiv (dint (res_x shipped_hardware)) (width_mm shipped_hardware))"
  "near eps (1920 / 242) (ddiv (dint (res_y shipped_hardware)) (height_mm shipped_hardware))"
  using near_fp_of_rat [of "1200 / 139" "1200 / 139" 0] near_fp_of_rat [of "1920 / 242" "1920 / 242" 0]
  by (simp_all add: shipped_hardware_def dint_numeral)

lemma tolerances: "0 \<le> tolerance" "tolerance \<le> 1 / 10 ^ 6" "eps \<le> 1 / 10 ^ 12"
  by (simp_all add: tolerance_def eps_def)

text \<open>A length of at most 242 mm, known to three millionths, is scaled with an error below \<open>10\<^sup>-\<^sup>3\<close>.\<close>

lemma near_scaled:
  assumes "near (3 / 10 ^ 6) v a" and "near eps p b"
    and "0 \<le> v" "v \<le> 242" and "0 \<le> p" "p \<le> 9"
  shows "near (1 / 1000) (v * p) (dmul a b)"
proof -
  have e: "(\<bar>v\<bar> + 3 / 10 ^ 6) * eps \<le> 243 * (1 / 10 ^ 12)"
    using assms tolerances by (intro mult_mono) auto
  have g: "v * p \<le> 242 * 9" using assms by (intro mult_mono) auto
  have "\<bar>v * p\<bar> + ((\<bar>v\<bar> + 3 / 10 ^ 6) * eps + \<bar>p\<bar> * (3 / 10 ^ 6)) \<le> 4096"
    using e g assms by simp
  from near_mul [OF assms(1,2) this] show ?thesis
    by (rule near_weaken) (use e tolerances assms in simp)
qed

text \<open>The four bounds before they are truncated.\<close>

lemma bounds_of_row:
  assumes ok: "spec_ok (y, h, x, w, code, fn)"
    and r: "near tolerance (of_int x / 100) rx" "near tolerance (of_int y / 100) ry"
      "near tolerance (of_int w / 100) rw" "near tolerance (of_int h / 100) rh"
  shows "\<exists>b1 b2 b3 b4. key_bounds shipped_hardware rx ry rw rh = Some (b1, b2, b3, b4) \<and>
    near (1 / 1000) (of_int (12 * (13500 - (y + h))) / of_int 139) b1 \<and>
    near (1 / 1000) (of_int (12 * (13500 - y)) / of_int 139) b2 \<and>
    near (1 / 1000) (of_int (48 * x) / of_int 605) b3 \<and>
    near (1 / 1000) (of_int (48 * (x + w)) / of_int 605) b4"
proof -
  have i: "0 \<le> (of_int y :: rat)" "0 \<le> (of_int h :: rat)" "of_int y + of_int h \<le> (13500 :: rat)"
    "0 \<le> (of_int x :: rat)" "0 \<le> (of_int w :: rat)" "of_int x + of_int w \<le> (24200 :: rat)"
    using ok by (simp_all flip: of_int_add)
  note t = tolerances
  have yh: "near (22 / 10 ^ 7) (of_int y / 100 + of_int h / 100) (dadd ry rh)"
    by (rule near_add [OF r(2,4)]) (use i t in simp_all)
  have yh4: "near (24 / 10 ^ 7) (of_int y / 100 + of_int h / 100 + 4) (dadd (dadd ry rh) (Fin 4))"
    by (rule near_add [OF yh, of 0]) (use i t in simp_all)
  have b1: "near (3 / 10 ^ 6) (139 - (of_int y / 100 + of_int h / 100 + 4))
      (dsub (Fin 139) (dadd (dadd ry rh) (Fin 4)))"
    by (rule near_sub [OF _ yh4, of 0]) (use i t in simp_all)
  have y4: "near (12 / 10 ^ 7) (of_int y / 100 + 4) (dadd ry (Fin 4))"
    by (rule near_add [OF r(2), of 0]) (use i t in simp_all)
  have b2: "near (3 / 10 ^ 6) (139 - (of_int y / 100 + 4)) (dsub (Fin 139) (dadd ry (Fin 4)))"
    by (rule near_sub [OF _ y4, of 0]) (use i t in simp_all)
  have x0: "near (12 / 10 ^ 7) (0 + of_int x / 100) (dadd (Fin 0) rx)"
    by (rule near_add [OF _ r(1), of 0]) (use i t in simp_all)
  then have b3: "near (3 / 10 ^ 6) (of_int x / 100) (dadd (Fin 0) rx)"
    by (auto elim: near_weaken)
  have xw: "near (3 / 10 ^ 6) (0 + of_int x / 100 + of_int w / 100) (dadd (dadd (Fin 0) rx) rw)"
    by (rule near_add [OF x0 r(3)]) (use i t in simp_all)
  note p = pitches [simplified shipped_hardware_def hardware_config.simps]
  have exact:
    "of_int (12 * (13500 - (y + h))) / of_int 139 =
       (139 - (of_int y / 100 + of_int h / 100 + 4)) * (1200 / 139 :: rat)"
    "of_int (12 * (13500 - y)) / of_int 139 = (139 - (of_int y / 100 + 4)) * (1200 / 139 :: rat)"
    "of_int (48 * x) / of_int 605 = of_int x / 100 * (1920 / 242 :: rat)"
    "of_int (48 * (x + w)) / of_int 605 = (0 + of_int x / 100 + of_int w / 100) * (1920 / 242 :: rat)"
    by (simp_all add: field_simps)
  have bounds: "key_bounds shipped_hardware rx ry rw rh =
      Some (dmul (dsub (Fin 139) (dadd (dadd ry rh) (Fin 4))) (ddiv (dint 1200) (Fin 139)),
            dmul (dsub (Fin 139) (dadd ry (Fin 4))) (ddiv (dint 1200) (Fin 139)),
            dmul (dadd (Fin 0) rx) (ddiv (dint 1920) (Fin 242)),
            dmul (dadd (dadd (Fin 0) rx) rw) (ddiv (dint 1920) (Fin 242)))"
    by (simp add: key_bounds_def shipped_hardware_def Let_def)
  show ?thesis
    unfolding exact
    by (intro exI conjI, rule bounds; rule near_scaled, (rule b1 b2 b3 xw, rule p)) (use i in simp_all)
qed

section \<open>Loading a layout\<close>

lemma trunc_bounds:
  assumes "near (1 / 1000) (of_int m / of_int q) b" and "0 \<le> m" and "0 < q" "q \<le> 605"
  shows "\<exists>r. b = Fin r \<and> quotient_below m q \<le> trunc_rat r \<and> trunc_rat r \<le> m div q"
proof -
  from assms(1) obtain r where r: "b = Fin r" "\<bar>r - of_int m / of_int q\<bar> \<le> 1 / 1000"
    by (auto simp: near_def)
  have "(of_int q :: rat) \<le> of_int 605" using assms(4) by (simp only: of_int_le_iff)
  then have "1 / 1000 * of_int q < (1 :: rat)" by simp
  from trunc_near(1,2) [OF r(2) assms(2,3) this] r(1) show ?thesis by blast
qed

lemma loaded_key:
  assumes ok: "spec_ok s" and "reads_as s row"
  shows "\<exists>k. load_key shipped_hardware row = Inr (Some k) \<and> key_of_spec s k"
proof -
  obtain y h x w code fn where s: "s = (y, h, x, w, code, fn)" by (cases s) auto
  from assms(2) obtain rx ry rw rh where row: "row_x row = Some rx" "row_y row = Some ry"
    "row_w row = Some rw" "row_h row = Some rh" "row_code row = Some code"
    "the_or 0 (row_code_fn row) = fn"
    and r: "near tolerance (of_int x / 100) rx" "near tolerance (of_int y / 100) ry"
      "near tolerance (of_int w / 100) rw" "near tolerance (of_int h / 100) rh"
    by (auto simp: s)
  have pos: "\<not> fp_le v (Fin 0)" if "near tolerance (of_int n / 100) v" "0 < n" for n v
  proof -
    have "(1 :: rat) \<le> of_int n" using that(2) by simp
    with that(1) tolerances show ?thesis by (auto simp: near_def)
  qed
  from bounds_of_row [OF ok [unfolded s] r] obtain b1 b2 b3 b4 where
    b: "key_bounds shipped_hardware rx ry rw rh = Some (b1, b2, b3, b4)"
      "near (1 / 1000) (of_int (12 * (13500 - (y + h))) / of_int 139) b1"
      "near (1 / 1000) (of_int (12 * (13500 - y)) / of_int 139) b2"
      "near (1 / 1000) (of_int (48 * x) / of_int 605) b3"
      "near (1 / 1000) (of_int (48 * (x + w)) / of_int 605) b4" by blast
  obtain r1 r2 r3 r4 where
    c: "b1 = Fin r1" "quotient_below (12 * (13500 - (y + h))) 139 \<le> trunc_rat r1"
      "trunc_rat r1 \<le> 12 * (13500 - (y + h)) div 139"
      "b2 = Fin r2" "quotient_below (12 * (13500 - y)) 139 \<le> trunc_rat r2"
      "trunc_rat r2 \<le> 12 * (13500 - y) div 139"
      "b3 = Fin r3" "quotient_below (48 * x) 605 \<le> trunc_rat r3" "trunc_rat r3 \<le> 48 * x div 605"
      "b4 = Fin r4" "quotient_below (48 * (x + w)) 605 \<le> trunc_rat r4"
      "trunc_rat r4 \<le> 48 * (x + w) div 605"
    using trunc_bounds [OF b(2)] trunc_bounds [OF b(3)] trunc_bounds [OF b(4)]
      trunc_bounds [OF b(5)] ok by (auto simp: s)
  have lo: "-1 \<le> quotient_below m q" if "0 \<le> m" "0 < q" for m q
  proof -
    have "0 \<le> m div q" using that by (simp add: pos_imp_zdiv_nonneg_iff)
    then show ?thesis by (simp add: quotient_below_def)
  qed
  have hi: "m div q \<le> m" if "0 \<le> m" "0 < q" for m q :: int
    using zdiv_mono2 [of m 1 q] that by simp
  have i: "int32 n" if "quotient_below m q \<le> n" "n \<le> m div q" "0 \<le> m" "0 < q" "m \<le> 2000000" for m q n
    using lo [of m q] hi [of m q] that by (simp add: int32_def)
  have ints: "int32 (trunc_rat r1)" "int32 (trunc_rat r2)" "int32 (trunc_rat r3)" "int32 (trunc_rat r4)"
    using i [OF c(2,3)] i [OF c(5,6)] i [OF c(8,9)] i [OF c(11,12)] ok by (simp_all add: s)
  have order: "trunc_rat r1 < trunc_rat r2" "trunc_rat r3 < trunc_rat r4"
    using c ok by (simp_all add: s)
  have "load_key shipped_hardware row = Inr (Some
      \<lparr>key_event_code = code, key_event_code_fn = fn, key_xmin = trunc_rat r1,
       key_xmax = trunc_rat r2, key_ymin = trunc_rat r3, key_ymax = trunc_rat r4\<rparr>)"
    using ok ints order row r [THEN near_isfinite] pos [OF r(3)] pos [OF r(4)]
    by (simp add: load_key_def initialised_def b(1) s the_or_def fp_to_int_def c(1,4,7,10) not_le)
  then show ?thesis using c by (simp add: s)
qed

lemma loaded_rows:
  "list_all spec_ok l \<Longrightarrow> list_all2 reads_as l rs \<Longrightarrow>
     \<exists>ks. load_rows shipped_hardware (map Inr rs) acc = Inr (acc @ ks \<noteq> [], acc @ ks) \<and>
          list_all2 key_of_spec l ks"
proof (induction l arbitrary: rs acc)
  case Nil
  then show ?case by simp
next
  case (Cons s l)
  from Cons.prems obtain row rs' where rs: "rs = row # rs'" "reads_as s row" "list_all2 reads_as l rs'"
    by (cases rs) auto
  from Cons.prems(1) have ok: "spec_ok s" "list_all spec_ok l" by simp_all
  from loaded_key [OF ok(1) rs(2)] obtain k where
    k: "load_key shipped_hardware row = Inr (Some k)" "key_of_spec s k" by blast
  from Cons.IH [OF ok(2) rs(3), of "acc @ [k]"] obtain ks where
    "load_rows shipped_hardware (map Inr rs') (acc @ [k]) = Inr (True, acc @ k # ks)"
    "list_all2 key_of_spec l ks" by auto
  with k show ?case by (intro exI [of _ "k # ks"]) (simp add: rs(1))
qed

section \<open>Keys do not overlap\<close>

fun disjoint_boxes :: "int \<times> int \<times> int \<times> int \<Rightarrow> int \<times> int \<times> int \<times> int \<Rightarrow> bool" where
  "disjoint_boxes (a1, a2, b1, b2) (c1, c2, d1, d2) \<longleftrightarrow> a2 \<le> c1 \<or> c2 \<le> a1 \<or> b2 \<le> d1 \<or> d2 \<le> b1"

fun pairwise_disjoint :: "(int \<times> int \<times> int \<times> int) list \<Rightarrow> bool" where
  "pairwise_disjoint [] \<longleftrightarrow> True"
| "pairwise_disjoint (b # bs) \<longleftrightarrow> list_all (disjoint_boxes b) bs \<and> pairwise_disjoint bs"

fun in_box :: "int \<times> int \<times> int \<times> int \<Rightarrow> int \<Rightarrow> int \<Rightarrow> bool" where
  "in_box (x1, x2, y1, y2) x y \<longleftrightarrow> x1 \<le> x \<and> x < x2 \<and> y1 \<le> y \<and> y < y2"

lemma key_in_box: "key_of_spec s k \<Longrightarrow> Key_Contains k x y \<Longrightarrow> in_box (key_box s) x y"
  by (cases s) (auto simp: Key_Contains_def)

lemma disjoint_boxesD: "disjoint_boxes b c \<Longrightarrow> in_box b x y \<Longrightarrow> \<not> in_box c x y"
  by (cases b; cases c) auto

lemma pairwise_disjointD:
  "pairwise_disjoint bs \<Longrightarrow> i < j \<Longrightarrow> j < length bs \<Longrightarrow> disjoint_boxes (bs ! i) (bs ! j)"
proof (induction bs arbitrary: i j)
  case (Cons b bs)
  then show ?case by (cases i; cases j) (auto simp: list_all_length)
qed simp

lemma one_box:
  assumes "pairwise_disjoint bs" and "i < length bs" "j < length bs"
    and "in_box (bs ! i) x y" "in_box (bs ! j) x y"
  shows "i = j"
  using pairwise_disjointD [of bs i j] pairwise_disjointD [of bs j i] assms
    disjoint_boxesD [of "bs ! i" "bs ! j" x y] disjoint_boxesD [of "bs ! j" "bs ! i" x y]
  by (cases i j rule: linorder_cases) auto

text \<open>The two layouts, evaluated.\<close>

lemma pc104_ok: "list_all spec_ok pc104"
  by code_simp

lemma pc105_ok: "list_all spec_ok pc105"
  by code_simp

lemma pc104_disjoint: "pairwise_disjoint (map key_box pc104)"
  by code_simp

lemma pc105_disjoint: "pairwise_disjoint (map key_box pc105)"
  by code_simp

fun on_panel :: "int \<times> int \<times> int \<times> int \<Rightarrow> bool" where
  "on_panel (x1, x2, y1, y2) \<longleftrightarrow> 0 \<le> x1 \<and> x2 \<le> 1200 \<and> 0 \<le> y1 \<and> y2 \<le> 1920"

lemma pc104_on_panel: "list_all on_panel (map key_box pc104)"
  by code_simp

lemma pc105_on_panel: "list_all on_panel (map key_box pc105)"
  by code_simp

lemmas shipped_layouts = pc104_ok pc105_ok pc104_disjoint pc105_disjoint pc104_on_panel pc105_on_panel

lemma shipped_layout_loads:
  assumes l: "l \<in> {pc104, pc105}" and rs: "list_all2 reads_as l rs"
  shows "\<exists>ks. keyboard_LoadLayout shipped_hardware (map Inr rs) = Inr (True, ks) \<and> list_all2 key_of_spec l ks"
proof -
  have "list_all spec_ok l" using l shipped_layouts by auto
  from loaded_rows [OF this rs, of "[]"] obtain ks where
    ks: "load_rows shipped_hardware (map Inr rs) [] = Inr (ks \<noteq> [], ks)" "list_all2 key_of_spec l ks"
    by auto
  moreover have "l \<noteq> []" using l by (auto simp: pc104_def pc105_def)
  ultimately show ?thesis by (auto simp: keyboard_LoadLayout_def)
qed

lemma find_the_only_key:
  assumes "\<And>i j. i < length ks \<Longrightarrow> j < length ks \<Longrightarrow> Key_Contains (ks ! i) x y \<Longrightarrow>
      Key_Contains (ks ! j) x y \<Longrightarrow> i = j"
  shows "find_key ks 0 x y = Some m \<longleftrightarrow> m < length ks \<and> Key_Contains (ks ! m) x y"
proof (cases "find_key ks 0 x y")
  case None
  then have "\<forall>k \<in> set ks. \<not> Key_Contains k x y" by (simp only: find_key_None)
  with None show ?thesis by auto
next
  case (Some i)
  with find_key_Some [OF Some] assms [of i m] show ?thesis by auto
qed

lemma list_all2_partner:
  "list_all2 P xs ys \<Longrightarrow> x \<in> set xs \<Longrightarrow> \<exists>y \<in> set ys. P x y"
  "list_all2 P xs ys \<Longrightarrow> y \<in> set ys \<Longrightarrow> \<exists>x \<in> set xs. P x y"
  by (induction xs ys rule: list_all2_induct) auto

text \<open>
  C24: with the hardware description and either of the layouts that the package installs, the
  layout loads, whatever the rounding of the reader within the tolerance; there is one key per
  row, with the row's codes and its bounds in units of the panel to within one; every key lies on the panel; and no point lies in two keys, so that
  the first key that the search finds for a finger is the only one.
\<close>

theorem shipped_layouts_have_disjoint_keys:
  assumes "l \<in> {pc104, pc105}" and "list_all2 reads_as l rs"
  shows "\<exists>ks. keyboard_LoadLayout shipped_hardware (map Inr rs) = Inr (True, ks) \<and>
    list_all2 key_of_spec l ks \<and>
    (\<forall>k \<in> set ks. 0 \<le> key_xmin k \<and> key_xmax k \<le> res_x shipped_hardware \<and>
                  0 \<le> key_ymin k \<and> key_ymax k \<le> res_y shipped_hardware) \<and>
    (\<forall>x y m. find_key ks 0 x y = Some m \<longleftrightarrow> m < length ks \<and> Key_Contains (ks ! m) x y)"
proof -
  from shipped_layout_loads [OF assms] obtain ks where
    ks: "keyboard_LoadLayout shipped_hardware (map Inr rs) = Inr (True, ks)" "list_all2 key_of_spec l ks"
    by blast
  have len: "length ks = length l" using list_all2_lengthD [OF ks(2)] by simp
  have nth: "key_of_spec (l ! i) (ks ! i)" if "i < length ks" for i
    using list_all2_nthD2 [OF ks(2) that] .
  have boxes: "pairwise_disjoint (map key_box l)" "list_all on_panel (map key_box l)"
    using assms(1) shipped_layouts by auto
  have "0 \<le> key_xmin k \<and> key_xmax k \<le> 1200 \<and> 0 \<le> key_ymin k \<and> key_ymax k \<le> 1920"
    if "k \<in> set ks" for k
  proof -
    from that obtain i where i: "i < length ks" "k = ks ! i" by (auto simp: in_set_conv_nth)
    with boxes(2) len have "on_panel (key_box (l ! i))" by (auto simp: list_all_length)
    with nth [OF i(1)] show ?thesis by (cases "l ! i") (auto simp: i(2))
  qed
  moreover have "find_key ks 0 x y = Some m \<longleftrightarrow> m < length ks \<and> Key_Contains (ks ! m) x y" for x y m
  proof (rule find_the_only_key)
    fix i j
    assume ij: "i < length ks" "j < length ks" "Key_Contains (ks ! i) x y" "Key_Contains (ks ! j) x y"
    then show "i = j"
      using one_box [OF boxes(1), of i j x y] key_in_box [OF nth] by (simp add: len)
  qed
  ultimately show ?thesis using ks by (auto simp: shipped_hardware_def)
qed

text \<open>A reading without any error.\<close>

fun exact_row :: "key_spec \<Rightarrow> layout_row" where
  "exact_row (y, h, x, w, code, fn) =
     \<lparr>row_x = Some (Fin (of_int x / 100)), row_y = Some (Fin (of_int y / 100)),
      row_w = Some (Fin (of_int w / 100)), row_h = Some (Fin (of_int h / 100)), row_name = ''key'',
      row_code = Some code, row_code_fn = Some fn\<rparr>"

lemma exact_rows_read: "list_all2 reads_as l (map exact_row l)"
proof -
  have "reads_as s (exact_row s)" for s
    by (cases s) (simp add: tolerances the_or_def)
  then show ?thesis by (simp add: list_all2_conv_all_nth)
qed

text \<open>The escape key, in the corner, is found at (1100, 50).\<close>

theorem shipped_layouts_have_disjoint_keys_witness:
  "\<exists>ks. keyboard_LoadLayout shipped_hardware (map Inr (map exact_row pc105)) = Inr (True, ks) \<and>
     length ks = 84 \<and> find_key ks 0 1100 50 = Some 0 \<and> key_event_code (ks ! 0) = 1"
proof -
  from shipped_layouts_have_disjoint_keys [of pc105 "map exact_row pc105"] exact_rows_read
  obtain ks where
    ks: "keyboard_LoadLayout shipped_hardware (map Inr (map exact_row pc105)) = Inr (True, ks)"
    and two: "list_all2 key_of_spec pc105 ks"
    and one: "find_key ks 0 x y = Some m \<longleftrightarrow> m < length ks \<and> Key_Contains (ks ! m) x y" for x y m
    by auto
  have len: "length pc105 = 84" "pc105 ! 0 = (0, 800, 0, 1800, 1, 0)" by (simp_all add: pc105_def)
  then have lk: "length ks = 84" using list_all2_lengthD [OF two] by simp
  with list_all2_nthD2 [OF two, of 0] have k0: "key_of_spec (0, 800, 0, 1800, 1, 0) (ks ! 0)"
    by (simp add: len)
  then have "Key_Contains (ks ! 0) 1100 50" "key_event_code (ks ! 0) = 1"
    by (simp_all add: quotient_below_def Key_Contains_def)
  with one lk have "find_key ks 0 1100 50 = Some 0" by simp
  with ks lk \<open>key_event_code (ks ! 0) = 1\<close> show ?thesis by blast
qed

section \<open>The touchpad between the keys\<close>

definition right_button :: key_spec where
  "right_button = (9850, 3450, 14500, 1000, 273, 0)"

lemma pc104_touchpad:
  "list_all (\<lambda>s. s = right_button \<or>
     (\<lambda>(y, h, x, w, code, fn). code \<noteq> 273) s \<and> disjoint_boxes (17, 311, 618, 1151) (key_box s)) pc104"
  by code_simp

lemma pc105_touchpad:
  "list_all (\<lambda>s. s = right_button \<or>
     (\<lambda>(y, h, x, w, code, fn). code \<noteq> 273) s \<and> disjoint_boxes (17, 311, 618, 1151) (key_box s)) pc105"
  by code_simp

text \<open>A whole number of millimetres, at most 242, is scaled as if the pitch were exact.\<close>

lemma scaled_exactly:
  assumes v: "trunc_rat v = n" and b: "near eps (of_int p / of_int q) b"
    and n: "0 \<le> n" "n \<le> 242" and p: "0 \<le> p" "of_int p / of_int q \<le> (9 :: rat)"
    and q: "0 < q" "q \<le> 605" and inexact: "n * p mod q \<noteq> 0"
  shows "scaled (Fin v) b = Inr (n * p div q)"
proof -
  have i: "int32 n" using n by (simp add: int32_def)
  have nn: "near (3 / 10 ^ 6) (of_int n) (dint n)" using i by (simp add: fp_of_int_exact)
  have "(of_int n :: rat) \<le> of_int 242" using n(2) by (simp only: of_int_le_iff)
  then have "near (1 / 1000) (of_int n * (of_int p / of_int q)) (dmul (dint n) b)"
    using near_scaled [OF nn b] n p q by simp
  then have "near (1 / 1000) (of_int (n * p) / of_int q) (dmul (dint n) b)" by simp
  from trunc_bounds [OF this] obtain r where
    r: "dmul (dint n) b = Fin r" "quotient_below (n * p) q \<le> trunc_rat r" "trunc_rat r \<le> n * p div q"
    using n p q by auto
  then have t: "trunc_rat r = n * p div q" using inexact by (simp add: quotient_below_def)
  have "n * p \<le> 242 * p" using n p by (intro mult_right_mono) simp_all
  moreover have "p \<le> 9 * 605"
  proof -
    have "(of_int p :: rat) \<le> 9 * of_int q" using p(2) q by (simp add: pos_divide_le_eq)
    then have "p \<le> 9 * q" by (metis of_int_le_iff of_int_mult of_int_numeral)
    with q(2) show ?thesis by linarith
  qed
  moreover have "0 \<le> n * p div q" "n * p div q \<le> n * p"
    using n p q zdiv_mono2 [of "n * p" 1 q] by (simp_all add: pos_imp_zdiv_nonneg_iff)
  ultimately have "int32 (n * p div q)" by (simp add: int32_def)
  with r(1) t v i show ?thesis by (simp add: scaled_def fp_to_int_def)
qed

lemma shipped_touchpad_loads:
  "touchpad_LoadLayout shipped_hardware shipped_touchpad =
     Inr (Some (tp_initial 17 310 618 1150 270, Fin (135 / 2), Fin (69 / 2)))"
proof -
  let ?px = "ddiv (dint 1200) (Fin 139)" and ?py = "ddiv (dint 1920) (Fin 242)"
  have p: "near eps (of_int 1200 / of_int 139) ?px" "near eps (of_int 960 / of_int 121) ?py"
    using pitches by (simp_all add: shipped_hardware_def)
  have half: "fp_of_rat double_format (n / 2) = Fin (n / 2)" if "n \<in> {69, 73, 135, 197, 205, 291}" for n
    using that fp_of_rat_dyadic [of 69 1] fp_of_rat_dyadic [of 73 1] fp_of_rat_dyadic [of 135 1]
      fp_of_rat_dyadic [of 197 1] fp_of_rat_dyadic [of 205 1] fp_of_rat_dyadic [of 291 1] by auto
  note halves = half [of 69] half [of 73] half [of 135] half [of 197] half [of 205] half [of 291]
  have tr: "trunc_rat (73 / 2) = 36" "trunc_rat (291 / 2) = 145"
    by (simp_all add: trunc_rat_def floor_eq_iff)
  have bounds: "region_bounds shipped_hardware (Fin 78) (Fin (197 / 2)) (Fin (291 / 2)) (Fin 133) =
      Some (Fin 2, Fin (73 / 2), Fin 78, Fin (291 / 2))"
    by (simp add: region_bounds_def shipped_hardware_def fp_sub_def halves [simplified])
  have s: "scaled (Fin 2) ?px = Inr 17" "scaled (Fin (73 / 2)) ?px = Inr 310"
    "scaled (Fin 78) ?py = Inr 618" "scaled (Fin (291 / 2)) ?py = Inr 1150"
    using scaled_exactly [OF _ p(1), of 2 2] scaled_exactly [OF _ p(1), of "73 / 2" 36]
      scaled_exactly [OF _ p(2), of 78 78] scaled_exactly [OF _ p(2), of "291 / 2" 145]
    by (simp_all add: tr)
  have "set_region shipped_hardware (Fin 78) (Fin (197 / 2)) (Fin (291 / 2)) (Fin 133) =
      Inr (tp_initial 17 310 618 1150 270, Fin (135 / 2), Fin (69 / 2))"
    unfolding set_region_def bounds
    using s by (simp add: shipped_hardware_def isfinite_def fp_sub_def halves [simplified])
  then show ?thesis
    by (simp add: touchpad_LoadLayout_def shipped_touchpad_def region_of_def initialised_def)
qed

lemma right_button_listed: "right_button \<in> set pc104" "right_button \<in> set pc105"
  by code_simp+

text \<open>A contact is on the touchpad and on the key.\<close>

definition on_both :: "touchpad \<Rightarrow> key \<Rightarrow> slot \<Rightarrow> bool" where
  "on_both tp k s \<longleftrightarrow> tp_Contains tp s \<and>
     Key_Contains k (FindValueByEvent s EV_ABS ABS_MT_POSITION_X) (FindValueByEvent s EV_ABS ABS_MT_POSITION_Y)"

lemma key_on_touchpad:
  assumes specs: "list_all2 key_of_spec l ks" and l: "l \<in> {pc104, pc105}"
    and k: "k \<in> set ks" "Key_Contains k x y" and xy: "in_box (17, 311, 618, 1151) x y"
  shows "key_of_spec right_button k"
proof -
  from list_all2_partner(2) [OF specs k(1)] obtain s where s: "s \<in> set l" "key_of_spec s k" by blast
  have "s = right_button \<or> disjoint_boxes (17, 311, 618, 1151) (key_box s)"
    using l s(1) pc104_touchpad pc105_touchpad by (auto simp: list_all_iff)
  then have "s = right_button"
    using disjoint_boxesD [OF _ xy] key_in_box [OF s(2) k(2)] by blast
  with s(2) show ?thesis by simp
qed

lemma right_button_bounds:
  assumes "key_of_spec right_button k"
  shows "key_event_code k = 273" "Key_Contains k x y \<longleftrightarrow> 17 \<le> x \<and> x < 315 \<and> 1150 \<le> y \<and> y < 1229"
  using assms by (auto simp: right_button_def quotient_below_def Key_Contains_def)

text \<open>
  C37: with the files that the package installs the touchpad region loads, and it shares exactly
  one line of units with the keyboard: the test of the touchpad includes its right and lower
  bounds, where the test of a key excludes them, so a finger at \<open>y = 1150\<close>, the upper edge of the
  right button (code 273), is on the touchpad and on the button at once. Everywhere else a finger
  is on the touchpad or on a key, never on both.
\<close>

theorem touchpad_shares_one_line_with_the_right_button:
  assumes "l \<in> {pc104, pc105}" and "list_all2 reads_as l rs"
  shows "\<exists>ks tp w h. keyboard_LoadLayout shipped_hardware (map Inr rs) = Inr (True, ks) \<and>
    touchpad_LoadLayout shipped_hardware shipped_touchpad = Inr (Some (tp, w, h)) \<and>
    (\<forall>s. (\<exists>k \<in> set ks. on_both tp k s) \<longleftrightarrow>
         17 \<le> FindValueByEvent s EV_ABS ABS_MT_POSITION_X \<and>
         FindValueByEvent s EV_ABS ABS_MT_POSITION_X \<le> 310 \<and>
         FindValueByEvent s EV_ABS ABS_MT_POSITION_Y = 1150) \<and>
    (\<forall>s. \<forall>k \<in> set ks. on_both tp k s \<longrightarrow> key_event_code k = 273)"
proof -
  let ?tp = "tp_initial 17 310 618 1150 270"
  from shipped_layout_loads [OF assms] obtain ks where
    ks: "keyboard_LoadLayout shipped_hardware (map Inr rs) = Inr (True, ks)" "list_all2 key_of_spec l ks"
    by blast
  have "right_button \<in> set l" using assms(1) right_button_listed by blast
  then obtain b where b: "b \<in> set ks" "key_of_spec right_button b"
    using list_all2_partner(1) [OF ks(2)] by blast
  have tp: "on_both ?tp k s \<longleftrightarrow> in_box (17, 311, 618, 1151)
        (FindValueByEvent s EV_ABS ABS_MT_POSITION_X) (FindValueByEvent s EV_ABS ABS_MT_POSITION_Y) \<and>
      Key_Contains k (FindValueByEvent s EV_ABS ABS_MT_POSITION_X)
        (FindValueByEvent s EV_ABS ABS_MT_POSITION_Y)" for k s
    by (auto simp: on_both_def tp_Contains_def tp_initial_def Let_def)
  have right: "key_of_spec right_button k" if "k \<in> set ks" "on_both ?tp k s" for k s
    using key_on_touchpad [OF ks(2) assms(1) that(1)] that(2) unfolding tp by blast
  have "(\<exists>k \<in> set ks. on_both ?tp k s) \<longleftrightarrow>
      17 \<le> FindValueByEvent s EV_ABS ABS_MT_POSITION_X \<and>
      FindValueByEvent s EV_ABS ABS_MT_POSITION_X \<le> 310 \<and>
      FindValueByEvent s EV_ABS ABS_MT_POSITION_Y = 1150" (is "?both \<longleftrightarrow> ?line") for s
  proof
    assume ?both
    then obtain k where k: "k \<in> set ks" "on_both ?tp k s" by blast
    from right_button_bounds(2) [OF right [OF k]] k(2) show ?line unfolding tp by simp
  next
    assume ?line
    with right_button_bounds(2) [OF b(2)] have "on_both ?tp b s" unfolding tp by simp
    with b(1) show ?both by blast
  qed
  moreover have "key_event_code k = 273" if "k \<in> set ks" "on_both ?tp k s" for k s
    by (rule right_button_bounds(1) [OF right [OF that]])
  ultimately show ?thesis using ks(1) shipped_touchpad_loads by blast
qed

theorem touchpad_shares_one_line_with_the_right_button_witness:
  "\<exists>ks tp w h. keyboard_LoadLayout shipped_hardware (map Inr (map exact_row pc104)) = Inr (True, ks) \<and>
     touchpad_LoadLayout shipped_hardware shipped_touchpad = Inr (Some (tp, w, h)) \<and>
     (\<exists>s k. k \<in> set ks \<and> on_both tp k s \<and> key_event_code k = 273)"
proof -
  define s :: slot where
    "s = [EventKey EV_ABS ABS_MT_POSITION_X \<mapsto> 100, EventKey EV_ABS ABS_MT_POSITION_Y \<mapsto> 1150]"
  have s: "FindValueByEvent s EV_ABS ABS_MT_POSITION_X = 100"
    "FindValueByEvent s EV_ABS ABS_MT_POSITION_Y = 1150"
    by (simp_all add: s_def FindValueByEvent_def)
  obtain ks tp w h where
    "keyboard_LoadLayout shipped_hardware (map Inr (map exact_row pc104)) = Inr (True, ks)"
    "touchpad_LoadLayout shipped_hardware shipped_touchpad = Inr (Some (tp, w, h))"
    "\<exists>k \<in> set ks. on_both tp k s" "\<forall>k \<in> set ks. on_both tp k s \<longrightarrow> key_event_code k = 273"
    using touchpad_shares_one_line_with_the_right_button [of pc104 "map exact_row pc104"]
      exact_rows_read [of pc104] s by fastforce
  then show ?thesis by blast
qed

end
