(* ===== verification/Device_Lifecycle.thy ===== *)
theory Device_Lifecycle
  imports Workers
begin

text \<open>
  The life of the virtual devices: whatever a worker creates it destroys, and it destroys a device
  before it closes the descriptor, on every path on which the worker ends.
\<close>

section \<open>Devices in the trace\<close>

text \<open>
  The descriptors of the devices that exist, and of those whose descriptor was closed while they
  existed, after the calls made so far.
\<close>

fun device_step :: "int set \<times> int set \<Rightarrow> syscall \<times> sysret \<Rightarrow> int set \<times> int set" where
  "device_step (A, L) (SysIoctl fd UI_DEV_CREATE, r) = (if ret r = 0 then insert fd A else A, L)"
| "device_step (A, L) (SysIoctl fd UI_DEV_DESTROY, r) = (A - {fd}, L)"
| "device_step (A, L) (SysClose fd, r) = (if fd \<in> A then (A - {fd}, insert fd L) else (A, L))"
| "device_step D (c, r) = D"

definition devices :: "trace \<Rightarrow> int set \<times> int set" where
  "devices tr = foldl device_step ({}, {}) tr"

lemma devices_simps [simp]:
  "devices [] = ({}, {})"
  "devices (tr @ ext) = foldl device_step (devices tr) ext"
  by (simp_all add: devices_def)

lemma device_step_open [simp]: "device_step D (SysOpen p f, r) = D"
  by (cases D) simp

lemma devices_neutral: "list_all neutral ext \<Longrightarrow> foldl device_step D ext = D"
proof (induction ext)
  case (Cons x ext)
  have "device_step D x = D" if "neutral x"
    using that by (cases "(D, x)" rule: device_step.cases) simp_all
  with Cons show ?case by simp
qed simp

section \<open>What the kernel does\<close>

text \<open>\<^verbatim>\<open>open\<close> returns a descriptor that is not open, and \<^verbatim>\<open>ioctl\<close> on a negative descriptor fails.\<close>

definition descriptors_work :: "kernel \<Rightarrow> bool" where
  "descriptors_work K \<longleftrightarrow> open_works K \<and>
     (\<forall>tr p f. 0 \<le> ret (K tr (SysOpen p f)) \<longrightarrow> ret (K tr (SysOpen p f)) \<notin># opened tr - closed_all tr) \<and>
     (\<forall>tr fd q. fd < 0 \<longrightarrow> ret (K tr (SysIoctl fd q)) < 0)"

section \<open>The invariant\<close>

definition lifecycle :: "proc \<Rightarrow> bool" where
  "lifecycle w \<longleftrightarrow> balanced w \<and> devices (trace w) = (if device_created w then {uinput_fd w} else {}, {}) \<and>
     (device_created w \<longrightarrow> 0 \<le> uinput_fd w) \<and> (0 \<le> source_fd w \<longrightarrow> source_fd w \<noteq> uinput_fd w)"

lemma fresh_descriptor:
  assumes "descriptors_work K" and "balanced w" and "0 \<le> ret (K (trace w) (SysOpen p f))"
  shows "ret (K (trace w) (SysOpen p f)) \<noteq> uinput_fd w" "ret (K (trace w) (SysOpen p f)) \<noteq> source_fd w"
    "ret (K (trace w) (SysOpen p f)) \<noteq> left_fd w" "ret (K (trace w) (SysOpen p f)) \<noteq> right_fd w"
proof -
  have "opened (trace w) - closed_all (trace w) =
      held (uinput_fd w) + held (source_fd w) + held (left_fd w) + held (right_fd w)"
    using assms(2) by (simp add: balanced_def add.assoc)
  moreover have "ret (K (trace w) (SysOpen p f)) \<notin># opened (trace w) - closed_all (trace w)"
    using assms(1,3) by (auto simp: descriptors_work_def)
  ultimately show "ret (K (trace w) (SysOpen p f)) \<noteq> uinput_fd w" "ret (K (trace w) (SysOpen p f)) \<noteq> source_fd w"
    "ret (K (trace w) (SysOpen p f)) \<noteq> left_fd w" "ret (K (trace w) (SysOpen p f)) \<noteq> right_fd w"
    using assms(3) by (auto simp: held_def split: if_splits)
qed

interpretation lives: device_invariant K "\<lambda>w. descriptors_work K \<longrightarrow> lifecycle w" for K
proof (unfold_locales, goal_cases)
  case (1 ext w)
  then show ?case by (auto simp: lifecycle_def devices_neutral)
next
  case (2 w r)
  show ?case
  proof
    assume K: "descriptors_work K"
    with 2(2) have "0 \<le> uinput_fd w \<or> ret r < 0"
      by (cases "uinput_fd w < 0") (simp_all add: descriptors_work_def)
    with 2(1) K show "lifecycle (w\<lparr>trace := trace w @ [(SysIoctl (uinput_fd w) UI_DEV_CREATE, r)],
        device_created := device_created w \<or> ret r = 0\<rparr>)"
      using ledger.created [of w r K] 2(2) by (auto simp: lifecycle_def)
  qed
next
  case (3 w r p f)
  show ?case
  proof
    assume K: "descriptors_work K"
    with 3(1) have l: "lifecycle w" by simp
    with fresh_descriptor [OF K, of w p f] ledger.opened_source [of w r K p f] 3(2,3)
    show "lifecycle (w\<lparr>trace := trace w @ [(SysOpen p f, r)], source_fd := ret r\<rparr>)"
      by (auto simp: lifecycle_def)
  qed
next
  case (4 w r p f)
  show ?case
  proof
    assume K: "descriptors_work K"
    with 4(1) have l: "lifecycle w" by simp
    with fresh_descriptor [OF K, of w p f] ledger.opened_uinput [of w r K p f] 4(2,3)
    show "lifecycle (w\<lparr>trace := trace w @ [(SysOpen p f, r)], uinput_fd := ret r\<rparr>)"
      by (auto simp: lifecycle_def)
  qed
qed

section \<open>Before and after\<close>

text \<open>Starting the haptics only opens and closes motors, before there is a device.\<close>

lemma manager_no_devices:
  "preserves (\<lambda>w. devices (trace w) = ({}, {}) \<and> \<not> device_created w)
     (TouchFFManager_new K max_x max_y r mag ms)"
proof -
  let ?I = "\<lambda>w. devices (trace w) = ({}, {}) \<and> \<not> device_created w"
  have set [simp]: "trace (set_motor_fd m fd w) = trace w" "device_created (set_motor_fd m fd w) = device_created w"
    for m fd w by (cases m; simp add: set_motor_fd_def)+
  have close: "preserves ?I (CloseFDIfValid K m)" for m
    by (rule preservesI) (simp add: CloseFDIfValid_def)
  have init: "preserves ?I (FFDriver_Init K m path)" for m path
    unfolding FFDriver_Init_def
    by (rule preserves_bind, rule close, rule preservesI) (simp add: set_gain_def Let_def)
  have "preserves ?I (UploadEffect K m v time_ms)" for m v time_ms
    by (rule preservesI) (simp add: UploadEffect_def split: sum.split)
  with init show ?thesis
    by (auto simp: TouchFFManager_new_def RegisterFF_def Let_def intro!: preserves_bind split: option.split)
qed

text \<open>The destructor of the device leaves none, and the motors' descriptors are not devices.\<close>

lemma destructor_destroys:
  assumes "lifecycle w" and "FakeDevice_destructor K w = (r, w')"
  shows "devices (trace w') = ({}, {})"
  using assms
  by (cases "0 \<le> source_fd w"; cases "0 \<le> uinput_fd w"; cases "device_created w";
      auto simp: lifecycle_def FakeDevice_destructor_def EvdevSource_destructor_def UinputDevice_destructor_def
        io_bind_def [of "EvdevSource_destructor K"])

lemma motors_no_devices:
  assumes "devices (trace w) = ({}, {})" and "TouchFFManager_destructor K w = (r, w')"
  shows "devices (trace w') = ({}, {})"
  using assms
  by (cases "left_fd w = -1"; cases "right_fd w = -1";
      auto simp: TouchFFManager_destructor_def CloseFDIfValid_def motor_fd_def set_motor_fd_def
        io_bind_def [of "CloseFDIfValid K RightMotor"])

lemma device_life_destroys:
  assumes m: "preserves (\<lambda>w. descriptors_work K \<longrightarrow> lifecycle w) m" and K: "descriptors_work K"
    and w: "lifecycle w" and run: "io_finally m (FakeDevice_destructor K) w = (r, w')"
  shows "devices (trace w') = ({}, {})"
proof -
  obtain r1 w1 where m1: "m w = (r1, w1)" by fastforce
  obtain r2 w2 where d: "FakeDevice_destructor K w1 = (r2, w2)" by fastforce
  have "lifecycle w1" using preservesD [OF m m1] K w by simp
  moreover have "w' = w2" using run m1 d by (simp add: io_finally_def)
  ultimately show ?thesis using destructor_destroys [OF _ d] by simp
qed

lemma initial_lifecycle: "lifecycle proc_initial"
  using initial_balanced by (simp add: lifecycle_def) (simp add: proc_initial_def)

section \<open>The two workers\<close>

lemma keyboard_worker_destroys:
  assumes K: "descriptors_work K"
    and worker: "keyboard_worker K hw opts layout_path rows orders proc_initial = (r, w')"
  shows "devices (trace w') = ({}, {})"
  using worker
proof (cases rule: keyboard_worker_stages)
  case early
  then show ?thesis by (simp add: proc_initial_def)
next
  case (run haptics w1 w2 r3)
  have none: "devices (trace w1) = ({}, {})"
    using preservesD [OF manager_no_devices run(1)] by (simp add: proc_initial_def)
  have "open_works K" using K by (simp add: descriptors_work_def)
  from preservesD [OF manager_keeps [OF this] run(1) initial_balanced] have "balanced w1" .
  moreover have "no_device w1"
    by (rule preservesD [OF manager_no_device run(1)]) (simp add: no_device_def proc_initial_def)
  ultimately have "lifecycle (w1\<lparr>uinput_fd := -1, device_created := False, source_fd := -1\<rparr>)"
    using none by (simp add: lifecycle_def balanced_def no_device_def held_def)
  from device_life_destroys [OF lives.keyboard_part_op K this run(2)] have "devices (trace w2) = ({}, {})" .
  from motors_no_devices [OF this run(3)] show ?thesis .
qed

lemma touchpad_worker_destroys:
  assumes K: "descriptors_work K"
    and run: "touchpad_worker K hw region_path row all_orders proc_initial = (r, w')"
  shows "devices (trace w') = ({}, {})"
proof -
  have "io_finally (io_bind (io_lift (FakeTouchpad_new hw region_path row)) (\<lambda>(tp, width_mm, height_mm).
      touchpad_Run K kTouchSensorDevicePath ''Halo Keyboard Touchpad'' all_orders tp width_mm height_mm))
      (FakeDevice_destructor K) proc_initial = (r, w')"
    using run by (simp add: touchpad_worker_def device_initial)
  from device_life_destroys [OF lives.touchpad_part_op K initial_lifecycle this] show ?thesis .
qed

text \<open>
  C16: if \<^verbatim>\<open>open\<close> returns fresh descriptors and \<^verbatim>\<open>ioctl\<close> on a negative one fails, then whatever else
  the kernel answers, whatever the configuration files hold and however a worker ends, every
  virtual device that was created has been destroyed, and its descriptor was not closed before.
\<close>

theorem virtual_devices_are_destroyed:
  assumes "descriptors_work K"
  shows "devices (trace (snd (keyboard_worker K hw opts layout_path rows orders proc_initial))) = ({}, {}) \<and>
    devices (trace (snd (touchpad_worker K hw region_path row all_orders proc_initial))) = ({}, {})"
  using keyboard_worker_destroys [OF assms] touchpad_worker_destroys [OF assms] by (metis prod.collapse)

text \<open>A kernel that accepts everything, with descriptors above all results so far.\<close>

definition fresh_kernel :: kernel where
  "fresh_kernel tr c =
     \<lparr>ret = (case c of SysOpen _ _ \<Rightarrow> 1 + foldr max (map (ret \<circ> snd) tr) 2
                     | SysIoctl fd _ \<Rightarrow> if fd < 0 then -1 else 0
                     | SysWrite _ _ \<Rightarrow> sizeof_input_event | SysRead _ \<Rightarrow> sizeof_input_event | _ \<Rightarrow> 0),
      err = 0, payload = NoData\<rparr>"

lemma fresh_kernel_works: "descriptors_work fresh_kernel"
proof -
  have top: "2 \<le> foldr max xs (2 :: int) \<and> (\<forall>x \<in> set xs. x \<le> foldr max xs 2)" for xs
    by (induction xs) auto
  have fds: "fd \<in># opened tr \<Longrightarrow> fd \<in> set (map (ret \<circ> snd) tr)" for fd tr
  proof (induction tr)
    case (Cons x tr)
    then show ?case by (cases x rule: opened_fds.cases) (auto split: if_splits)
  qed simp
  have "1 + foldr max (map (ret \<circ> snd) tr) 2 \<notin># opened tr - closed_all tr" for tr :: trace
    using fds [of "1 + foldr max (map (ret \<circ> snd) tr) 2" tr] top [of "map (ret \<circ> snd) tr"]
    by (fastforce dest: in_diffD)
  moreover have "-1 \<le> 1 + foldr max (map (ret \<circ> snd) tr) 2" for tr :: trace
    using top [of "map (ret \<circ> snd) tr"] by linarith
  ultimately show ?thesis by (simp add: descriptors_work_def open_works_def fresh_kernel_def)
qed

theorem virtual_devices_are_destroyed_witness:
  "devices (trace (snd (keyboard_worker fresh_kernel (sample_hw 0) default_options ''layout.csv''
     [Inr sample_row] [([], [])] proc_initial))) = ({}, {})"
  using virtual_devices_are_destroyed [OF fresh_kernel_works] by blast

end
