(* ===== verification/Installed.thy ===== *)
theory Installed
  imports Shipped_Config Device_Lifecycle Keyboard_Process Touchpad_Process Supervisor
begin

text \<open>
  The program as the package installs it: with the shipped configuration and an accepted command
  line neither worker runs into undefined behaviour, so each ends, if it ends, with an exit status
  that the supervisor understands. This composes the loading of the configuration, the haptics,
  the two devices, their loops and the exit of the worker.
\<close>

section \<open>Exceptions with an exit status\<close>

definition reported :: "exn \<Rightarrow> bool" where
  "reported e \<longleftrightarrow> (\<forall>what. e \<noteq> UndefinedBehaviour what)"

lemma reported_errors:
  "setup_error e \<Longrightarrow> reported e" "kernel_error e \<Longrightarrow> reported e"
  "reported (SystemError n msg)" "reported (RuntimeError msg)"
  by (auto simp: reported_def setup_error_def kernel_error_def)

lemma reported_exit: "(\<And>e. r = Inl e \<Longrightarrow> reported e) \<Longrightarrow> worker_exit r \<noteq> None"
  by (auto simp: worker_exit_def reported_def split: sum.splits exn.splits)

section \<open>The descriptors of the keyboard worker\<close>

text \<open>The virtual keyboard has a descriptor of its own, other than the motors'.\<close>

definition motors_apart :: "proc \<Rightarrow> bool" where
  "motors_apart w \<longleftrightarrow> balanced w \<and>
     (0 \<le> uinput_fd w \<longrightarrow> uinput_fd w \<noteq> left_fd w \<and> uinput_fd w \<noteq> right_fd w)"

interpretation apart: device_invariant K "\<lambda>w. descriptors_work K \<longrightarrow> motors_apart w" for K
proof (unfold_locales, goal_cases)
  case (2 w r)
  then show ?case using ledger.created [of w r K] by (auto simp: motors_apart_def)
next
  case (4 w r p f)
  show ?case
  proof
    assume K: "descriptors_work K"
    with 4(1) have m: "motors_apart w" by simp
    with fresh_descriptor [OF K, of w p f] ledger.opened_uinput [of w r K p f] 4(2,3)
    show "motors_apart (w\<lparr>trace := trace w @ [(SysOpen p f, r)], uinput_fd := ret r\<rparr>)"
      by (auto simp: motors_apart_def)
  qed
next
  case (3 w r p f)
  then show ?case using ledger.opened_source [of w r K p f] by (auto simp: motors_apart_def)
qed (auto simp: motors_apart_def)

lemma setup_apart:
  assumes K: "descriptors_work K" and w: "motors_apart w"
    and set: "keyboard_setup K path name ks w = (Inr (), w')"
  shows "motors_apart w'"
proof -
  have "kb_Run K mgr path name [] (kb_initial ks) w = (Inr (kb_initial ks), w')" for mgr
    using set by (simp add: kb_Run_def kb_initial_def)
  from preservesD [OF apart.kb_Run_op this] K w show ?thesis by simp
qed

section \<open>The keyboard worker\<close>

text \<open>
  The surroundings of the keyboard worker, once its devices are set up: a panel descriptor that
  fits an \<^verbatim>\<open>fd_set\<close>, and along the run what \<open>kb_environment\<close> says of the clock and the panel.
\<close>

definition keyboard_surroundings ::
  "kernel \<Rightarrow> hardware_config \<Rightarrow> options \<Rightarrow> key list \<Rightarrow> (int list \<times> int list) list \<Rightarrow> bool" where
  "keyboard_surroundings K hw opts ks orders \<longleftrightarrow> (\<exists>t. normal_ts t \<and>
     (\<forall>mgr w1 w2.
        TouchFFManager_new K (res_x hw) (res_y hw) (rotation hw) (haptic_magnitude opts)
          (haptic_duration_ms opts) proc_initial = (Inr mgr, w1) \<and>
        keyboard_setup K kTouchSensorDevicePath ''Halo Keyboard'' ks
          (w1\<lparr>uinput_fd := -1, device_created := False, source_fd := -1\<rparr>) = (Inr (), w2) \<longrightarrow>
        source_fd w2 < FD_SETSIZE \<and> kb_environment K mgr orders t (kb_initial ks) w2))"

lemma keyboard_worker_reported:
  assumes K: "descriptors_work K" "clock_works K"
    and layout: "keyboard_LoadLayout hw rows = Inr (True, ks)"
    and env: "keyboard_surroundings K hw opts ks orders"
    and start: "returns Q (TouchFFManager_new K (res_x hw) (res_y hw) (rotation hw)
      (haptic_magnitude opts) (haptic_duration_ms opts))"
    and worker: "keyboard_worker K hw opts path rows orders proc_initial = (r, w')"
    and r: "r = Inl e"
  shows "reported e"
  using worker
proof (cases rule: keyboard_worker_stages)
  case (early x)
  with returnsD [OF start, of proc_initial] show ?thesis by simp
next
  case (run mgr w1 w2 r3)
  let ?w = "w1\<lparr>uinput_fd := -1, device_created := False, source_fd := -1\<rparr>"
  have "open_works K" using K(1) by (simp add: descriptors_work_def)
  from preservesD [OF manager_keeps [OF this] run(1) initial_balanced] have "balanced w1" .
  moreover have "no_device w1"
    by (rule preservesD [OF manager_no_device run(1)]) (simp add: no_device_def proc_initial_def)
  ultimately have apart: "motors_apart ?w" by (simp add: motors_apart_def balanced_def no_device_def held_def)
  have "FakeKeyboard_new hw path rows = Inr (kb_initial ks)" using layout by (simp add: FakeKeyboard_new_def)
  with run(2) obtain w3 where
    loop: "kb_Run K mgr kTouchSensorDevicePath ''Halo Keyboard'' orders (kb_initial ks) ?w = (r, w3)"
    by (auto simp: io_finally_def io_lift_def split: prod.splits)
  from env obtain t where t: "normal_ts t" and around:
    "keyboard_setup K kTouchSensorDevicePath ''Halo Keyboard'' ks ?w = (Inr (), v) \<Longrightarrow>
       source_fd v < FD_SETSIZE \<and> kb_environment K mgr orders t (kb_initial ks) v" for v
    unfolding keyboard_surroundings_def using run(1) by blast
  show ?thesis
  proof (rule kb_Run_run [OF _ _ K(2) _ refl _ loop])
    fix v
    assume set: "keyboard_setup K kTouchSensorDevicePath ''Halo Keyboard'' ks ?w = (Inr (), v)"
    have "0 \<le> uinput_fd v" "0 \<le> source_fd v" using keyboard_setup_run [OF _ _ set] by auto
    with setup_apart [OF K(1) apart set] around [OF set] t
    show "fds_ok v \<and> normal_ts t \<and> kb_environment K mgr orders t (kb_initial ks) v"
      by (simp add: fds_ok_def motors_apart_def)
  qed (use r reported_errors in \<open>auto simp: kb_initial_def\<close>)
qed

section \<open>The touchpad worker\<close>

lemma setup_reported:
  assumes "checked_size tp = Inr (w, h)" and "axis_resolution w w_mm = Inr xres" "axis_resolution h h_mm = Inr yres"
  shows "throws reported (touchpad_setup K path name tp w_mm h_mm)"
proof -
  have "throws reported (OpenSourceDevice K path)"
    by (rule throwsI) (auto simp: OpenSourceDevice_def io_bind_eq sys_def Let_def reported_errors split: if_splits)
  moreover have "throws reported (\<lambda>s. check (CopyABSOutputEvents K (source_fd s) w h xres yres) msg s)" for msg
    by (rule throws_state [where g = source_fd and m = "\<lambda>x. check (CopyABSOutputEvents K x w h xres yres) msg"])
      (intro throws_check CopyABS_never_throws reported_errors)
  ultimately show ?thesis
    unfolding touchpad_setup_def
    by (simp only: assms io_lift_def sum.case io_simps prod.case)
      (intro throws_bind throws_check never_throw buttons_never_throw reported_errors)
qed

lemma touchpad_worker_reported:
  assumes made: "FakeTouchpad_new hw path row = Inr (tp, w_mm, h_mm)"
    and size: "checked_size tp = Inr (sw, sh)" "axis_resolution sw w_mm = Inr xres" "axis_resolution sh h_mm = Inr yres"
    and worker: "touchpad_worker K hw path row all_orders proc_initial = (r, w')" and r: "r = Inl e"
  shows "reported e"
proof -
  have fresh: "uinput_fd proc_initial < 0" "source_fd proc_initial < 0" by (simp_all add: proc_initial_def)
  from worker obtain w1 where
    run: "touchpad_Run K kTouchSensorDevicePath ''Halo Keyboard Touchpad'' all_orders tp w_mm h_mm proc_initial = (r, w1)"
    by (auto simp: touchpad_worker_def device_initial io_finally_def made io_lift_def split: prod.splits)
  obtain r1 w2 where set: "touchpad_setup K kTouchSensorDevicePath ''Halo Keyboard Touchpad'' tp w_mm h_mm proc_initial = (r1, w2)"
    by fastforce
  show ?thesis
  proof (cases r1)
    case (Inl x)
    with run set r have "x = e" by (simp add: touchpad_Run_def)
    with throwsD [OF setup_reported [OF size]] set Inl show ?thesis by blast
  next
    case (Inr u)
    with set have set': "touchpad_setup K kTouchSensorDevicePath ''Halo Keyboard Touchpad'' tp w_mm h_mm proc_initial = (Inr (), w2)"
      by simp
    then have loop: "touchpad_Consume K all_orders tp w2 = (r, w1)" using run by (simp add: touchpad_Run_def)
    have src: "0 \<le> source_fd w2" using touchpad_setup_Inr [OF fresh set'] by blast
    have "wf_tp tp \<and> same_region tp tp \<and> tp_rotation tp \<in> {0, 90, 180, 270}"
      using FakeTouchpad_new_region [OF made] by (simp add: same_region_def)
    from touchpad_loop.loop_run [OF this src loop] r have "kernel_error e" by auto
    then show ?thesis by (rule reported_errors)
  qed
qed

text \<open>The size and resolution of the installed touchpad: 67.5 by 34.5 mm on 532 by 293 units.\<close>

lemma resolution_defined:
  assumes "near eps v (fp_div double_format (fp_of_int double_format n) mm)" and "\<bar>v\<bar> \<le> 1000"
  shows "\<exists>res. axis_resolution n mm = Inr res"
proof -
  from assms(1) obtain x where x: "fp_div double_format (fp_of_int double_format n) mm = Fin x" "\<bar>x - v\<bar> \<le> eps"
    by (auto simp: near_def)
  have "eps \<le> 1" by (simp add: eps_def)
  with x(2) assms(2) have "\<bar>x\<bar> \<le> 1001" by linarith
  then have "- 1002 \<le> lround x \<and> lround x \<le> 1002" unfolding lround_def by (simp split: if_split) linarith
  then show ?thesis by (simp add: axis_resolution_def x(1))
qed

lemma shipped_resolution:
  "\<exists>res. axis_resolution 532 (Fin (135 / 2)) = Inr res" "\<exists>res. axis_resolution 293 (Fin (69 / 2)) = Inr res"
proof -
  have "near eps (1064 / 135) (ddiv (dint 532) (Fin (135 / 2)))"
    using near_fp_of_rat [of "1064 / 135" "1064 / 135" 0] by (simp add: dint_numeral)
  then show "\<exists>res. axis_resolution 532 (Fin (135 / 2)) = Inr res" by (rule resolution_defined) simp
  have "near eps (586 / 69) (ddiv (dint 293) (Fin (69 / 2)))"
    using near_fp_of_rat [of "586 / 69" "586 / 69" 0] by (simp add: dint_numeral)
  then show "\<exists>res. axis_resolution 293 (Fin (69 / 2)) = Inr res" by (rule resolution_defined) simp
qed

section \<open>The installed program\<close>

text \<open>
  C4: the installed program has no undefined behaviour. With the hardware description, either
  layout and the touchpad region that the package installs, with any accepted command line, and
  on a kernel whose clock works and that returns fresh descriptors: however the run of a worker
  ends, with whatever failures, it ends with an exit status: no uninitialised value is read
  and no conversion, subtraction or index of the model is undefined.
\<close>

theorem installed_workers_have_an_exit_status:
  assumes "l \<in> {pc104, pc105}" and "list_all2 reads_as l rs"
    and "ParseOptions arguments (Some default_options) (Some message) = (kSuccess, Some opts, message')"
    and "descriptors_work K" and "clock_works K"
    and "\<And>ks. keyboard_LoadLayout shipped_hardware (map Inr rs) = Inr (True, ks) \<Longrightarrow>
      keyboard_surroundings K shipped_hardware opts ks orders"
  shows "worker_exit (fst (keyboard_worker K shipped_hardware opts layout_path (map Inr rs) orders proc_initial)) \<noteq> None \<and>
    worker_exit (fst (touchpad_worker K shipped_hardware region_path shipped_touchpad all_orders proc_initial)) \<noteq> None"
proof
  from shipped_layout_loads [OF assms(1,2)] obtain ks where
    ks: "keyboard_LoadLayout shipped_hardware (map Inr rs) = Inr (True, ks)" by blast
  have "options_in_range opts"
    using assms(3) parse_arguments_in_range [OF _ default_in_range]
    by (auto simp: ParseOptions_def split: prod.splits)
  then have start: "returns (\<lambda>mgr. wf_manager mgr \<and> touch_max_x mgr = 1920 \<and> touch_rotation mgr = 270)
      (TouchFFManager_new K (res_x shipped_hardware) (res_y shipped_hardware) (rotation shipped_hardware)
        (haptic_magnitude opts) (haptic_duration_ms opts))"
    using TouchFFManager_new_returns [of 1200 1920 "haptic_magnitude opts" "haptic_duration_ms opts" 270 1920 K]
    by (simp add: options_in_range_def shipped_hardware_def upright_width_def)
  show "worker_exit (fst (keyboard_worker K shipped_hardware opts layout_path (map Inr rs) orders proc_initial)) \<noteq> None"
    by (rule reported_exit, rule keyboard_worker_reported [OF assms(4,5) ks assms(6) [OF ks] start])
      (simp_all add: prod_eq_iff)
  have made: "FakeTouchpad_new shipped_hardware region_path shipped_touchpad =
      Inr (tp_initial 17 310 618 1150 270, Fin (135 / 2), Fin (69 / 2))"
    by (simp add: FakeTouchpad_new_def shipped_touchpad_loads)
  have size: "checked_size (tp_initial 17 310 618 1150 270) = Inr (532, 293)"
    by (simp add: checked_size_def tp_size_def tp_initial_def int32_def)
  obtain xres yres where "axis_resolution 532 (Fin (135 / 2)) = Inr xres" "axis_resolution 293 (Fin (69 / 2)) = Inr yres"
    using shipped_resolution by blast
  from touchpad_worker_reported [OF made size this]
  show "worker_exit (fst (touchpad_worker K shipped_hardware region_path shipped_touchpad all_orders proc_initial)) \<noteq> None"
    by (intro reported_exit) (metis prod.collapse)
qed

text \<open>
  A kernel on which everything is attached and works: each device has a descriptor of its own
  while it is not open already, every request succeeds, the clock stands at one second, and the
  panel reports a tracking id whenever it is read.
\<close>

definition attached_fd :: "string \<Rightarrow> int" where
  "attached_fd p = (if p = kTouchSensorDevicePath then 3 else if p = kUinputControlFilename then 4
     else if p = kLeftVibratorPath then 5 else 6)"

definition attached_kernel :: kernel where
  "attached_kernel tr c =
     \<lparr>ret = (case c of
         SysOpen p _ \<Rightarrow> if attached_fd p \<in># opened tr - closed_all tr then -1 else attached_fd p
       | SysIoctl fd _ \<Rightarrow> if fd < 0 then -1 else 0
       | SysWrite _ _ \<Rightarrow> sizeof_input_event | SysRead _ \<Rightarrow> sizeof_input_event | SysSelect _ _ _ \<Rightarrow> 1 | _ \<Rightarrow> 0),
      err = 0,
      payload = (case c of SysClock \<Rightarrow> Clock (Timespec 1 0)
         | SysRead _ \<Rightarrow> InputEvent (input_ev EV_ABS ABS_MT_TRACKING_ID 5) | _ \<Rightarrow> NoData)\<rparr>"

lemma attached_kernel_works: "descriptors_work attached_kernel" "clock_works attached_kernel"
  by (simp_all add: descriptors_work_def open_works_def attached_kernel_def attached_fd_def clock_works_def)

lemma attached_open: "ret (attached_kernel tr (SysOpen p f)) \<le> 6"
  by (simp add: attached_kernel_def attached_fd_def)

interpretation low: device_invariant attached_kernel "\<lambda>w. source_fd w \<le> 6"
  by unfold_locales (simp_all add: attached_open)

lemma attached_wait:
  assumes "kb_wait attached_kernel kb w = (Inr (now, ready), w')"
  shows "now = Timespec 1 0 \<and> completed_frame ready (kb_sm kb) = None"
proof -
  have clock: "read_clock attached_kernel w = (Inr (Timespec 1 0), w\<lparr>trace := trace w @
      [(SysClock, attached_kernel (trace w) SysClock)]\<rparr>)" for w
    by (simp add: read_clock_def attached_kernel_def)
  from assms obtain w1 w2 where got: "GetNextEvent attached_kernel (consume_timeout (Timespec 1 0) (pending_events kb)) False w1 =
      (Inr ready, w2)" and "now = Timespec 1 0"
    by (auto simp: kb_wait_def io_bind_eq clock)
  moreover have "ready = None \<or> ready = Some (input_ev EV_ABS ABS_MT_TRACKING_ID 5)"
    using got by (auto simp: GetNextEvent_def read_event_run Let_def attached_kernel_def fill_event_def split: if_splits)
  then have "completed_frame ready (kb_sm kb) = None"
    using completed_frame_not_report [of "input_ev EV_ABS ABS_MT_TRACKING_ID 5" "kb_sm kb"]
    by (auto simp: completed_frame_def [of None] is_report_def)
  ultimately show ?thesis by simp
qed

lemma attached_iteration:
  assumes rest: "\<And>kb w. kb_environment attached_kernel mgr orders (Timespec 1 0) kb w"
  shows "kb_environment attached_kernel mgr (([], []) # orders) (Timespec 1 0) kb w"
proof -
  obtain r w1 where wait: "kb_wait attached_kernel kb w = (r, w1)" by fastforce
  show ?thesis
  proof (cases r)
    case (Inr x)
    obtain now ready where x: "x = (now, ready)" by fastforce
    obtain r2 w2 where "kb_react attached_kernel mgr now ready [] [] kb w1 = (r2, w2)" by fastforce
    with wait Inr x attached_wait [of kb w now ready w1] show ?thesis
      by (cases r2) (simp_all add: rest iteration_ok_def normal_ts_def)
  qed (use wait in simp)
qed

lemma attached_environment:
  "kb_environment attached_kernel mgr (replicate n ([], [])) (Timespec 1 0) kb w"
  by (induction n arbitrary: kb w) (simp, unfold replicate_Suc, rule attached_iteration)

lemma attached_surroundings:
  "keyboard_surroundings attached_kernel hw opts ks (replicate n ([], []))"
proof -
  have "source_fd w2 < FD_SETSIZE"
    if "keyboard_setup attached_kernel p name ks w = (Inr (), w2)" "source_fd w < 0" for p name w w2
  proof -
    have "kb_Run attached_kernel mgr p name [] (kb_initial ks) w = (Inr (kb_initial ks), w2)" for mgr
      using that(1) by (simp add: kb_Run_def kb_initial_def)
    from preservesD [OF low.kb_Run_op this] that(2) show ?thesis by (simp add: FD_SETSIZE_def)
  qed
  then show ?thesis
    unfolding keyboard_surroundings_def
    by (intro exI [of _ "Timespec 1 0"]) (auto simp: normal_ts_def attached_environment)
qed

text \<open>On this kernel the worker gets past its set-up and into its loop.\<close>

lemma attached_key: "uinput_fd w = 4 \<Longrightarrow>
    \<exists>tr. EnableKeyEvent attached_kernel c w = (Inr True, w\<lparr>trace := tr\<rparr>)"
  by (auto simp: EnableKeyEvent_def io_bind_eq sys_def attached_kernel_def)

lemma attached_keys: "uinput_fd w = 4 \<Longrightarrow>
    \<exists>tr. enable_keys attached_kernel ks w = (Inr True, w\<lparr>trace := tr\<rparr>)"
proof (induction ks arbitrary: w)
  case Nil
  then show ?case by (intro exI [of _ "trace w"]) simp
next
  case (Cons k ks)
  from attached_key [OF Cons.prems, of "key_event_code k"] obtain tr where
    one: "EnableKeyEvent attached_kernel (key_event_code k) w = (Inr True, w\<lparr>trace := tr\<rparr>)" by blast
  obtain tr2 where two: "EnableKeyEvent attached_kernel (key_event_code_fn k) (w\<lparr>trace := tr\<rparr>) =
      (Inr True, w\<lparr>trace := tr2\<rparr>)"
    using attached_key [of "w\<lparr>trace := tr\<rparr>" "key_event_code_fn k"] Cons.prems by auto
  from one two Cons.IH [of "w\<lparr>trace := tr\<rparr>"] Cons.IH [of "w\<lparr>trace := tr2\<rparr>"] Cons.prems
  show ?case by (auto simp: io_bind_eq)
qed

lemma attached_setup:
  assumes "uinput_fd w < 0" and "source_fd w < 0" and "3 \<notin># opened (trace w) - closed_all (trace w)"
    and "4 \<notin># opened (trace w) - closed_all (trace w)"
  shows "\<exists>w'. keyboard_setup attached_kernel kTouchSensorDevicePath name ks w = (Inr (), w') \<and> source_fd w' = 3"
proof -
  let ?call = "SysOpen kTouchSensorDevicePath (O_RDONLY + O_CLOEXEC)"
  have r: "ret (attached_kernel (trace w) ?call) = 3"
    using assms(3) by (simp add: attached_kernel_def attached_fd_def)
  define w1 where "w1 = w\<lparr>trace := trace w @ [(?call, attached_kernel (trace w) ?call)], source_fd := 3\<rparr>"
  have one: "OpenSourceDevice attached_kernel kTouchSensorDevicePath w = (Inr True, w1)"
    using assms(2) r by (simp add: OpenSourceDevice_def io_bind_eq sys_def Let_def w1_def)
  have "4 \<notin># opened (trace w1) - closed_all (trace w1)"
    using assms(4) r by (simp add: w1_def in_diff_count)
  then obtain tr where two: "CreateUinputFD attached_kernel w1 = (Inr True, w1\<lparr>trace := tr, uinput_fd := 4\<rparr>)"
    using assms(1) by (auto simp: CreateUinputFD_def io_bind_eq sys_def attached_kernel_def attached_fd_def w1_def
        kTouchSensorDevicePath_def kUinputControlFilename_def)
  define w2 where "w2 = w1\<lparr>trace := tr, uinput_fd := 4\<rparr>"
  have fd: "uinput_fd w2 = 4" "source_fd w2 = 3" by (simp_all add: w2_def w1_def)
  obtain tr3 where three: "EnableKeyboardEvents attached_kernel ks w2 = (Inr True, w2\<lparr>trace := tr3\<rparr>)"
    using attached_keys [of "w2\<lparr>trace := tr'\<rparr>" ks for tr'] fd
    by (fastforce simp: EnableKeyboardEvents_def EnableEventType_def io_bind_eq sys_def attached_kernel_def)
  obtain w4 where four: "FinalizeUinputCreation attached_kernel name (w2\<lparr>trace := tr3\<rparr>) = (Inr True, w4)"
    "source_fd w4 = 3"
    using fd by (simp add: FinalizeUinputCreation_def io_bind_eq sys_def attached_kernel_def)
  show ?thesis
    using one two [folded w2_def] three four
    by (auto simp: keyboard_setup_def and_then_def io_bind_eq)
qed

lemma attached_haptics:
  "case TouchFFManager_new attached_kernel 1200 1920 270 (haptic_magnitude default_options)
      (haptic_duration_ms default_options) proc_initial of
     (r, w1) \<Rightarrow> \<not> isl r \<and> 3 \<notin># opened (trace w1) - closed_all (trace w1) \<and>
       4 \<notin># opened (trace w1) - closed_all (trace w1)"
  by code_simp

theorem installed_workers_have_an_exit_status_witness:
  "worker_exit (fst (keyboard_worker attached_kernel shipped_hardware default_options ''layout.csv''
      (map Inr (map exact_row pc105)) (replicate 100 ([], [])) proc_initial)) \<noteq> None \<and>
   (\<exists>ks mgr w1 w2.
      keyboard_LoadLayout shipped_hardware (map Inr (map exact_row pc105)) = Inr (True, ks) \<and>
      TouchFFManager_new attached_kernel (res_x shipped_hardware) (res_y shipped_hardware)
        (rotation shipped_hardware) (haptic_magnitude default_options) (haptic_duration_ms default_options)
        proc_initial = (Inr mgr, w1) \<and>
      keyboard_setup attached_kernel kTouchSensorDevicePath ''Halo Keyboard'' ks
        (w1\<lparr>uinput_fd := -1, device_created := False, source_fd := -1\<rparr>) = (Inr (), w2))"
proof
  show "worker_exit (fst (keyboard_worker attached_kernel shipped_hardware default_options ''layout.csv''
      (map Inr (map exact_row pc105)) (replicate 100 ([], [])) proc_initial)) \<noteq> None"
    using installed_workers_have_an_exit_status [of pc105 "map exact_row pc105", OF _ exact_rows_read
        haptics_start_conditions(2) attached_kernel_works attached_surroundings] by blast
  obtain ks where ks: "keyboard_LoadLayout shipped_hardware (map Inr (map exact_row pc105)) = Inr (True, ks)"
    using shipped_layout_loads [OF _ exact_rows_read, of pc105] by blast
  obtain r w1 where ff: "TouchFFManager_new attached_kernel 1200 1920 270 (haptic_magnitude default_options)
      (haptic_duration_ms default_options) proc_initial = (r, w1)" by fastforce
  with attached_haptics obtain mgr where "r = Inr mgr" "3 \<notin># opened (trace w1) - closed_all (trace w1)"
    "4 \<notin># opened (trace w1) - closed_all (trace w1)" by (cases r) auto
  with ks ff attached_setup [of "w1\<lparr>uinput_fd := -1, device_created := False, source_fd := -1\<rparr>"
      "''Halo Keyboard''" ks]
  show "\<exists>ks mgr w1 w2.
      keyboard_LoadLayout shipped_hardware (map Inr (map exact_row pc105)) = Inr (True, ks) \<and>
      TouchFFManager_new attached_kernel (res_x shipped_hardware) (res_y shipped_hardware)
        (rotation shipped_hardware) (haptic_magnitude default_options) (haptic_duration_ms default_options)
        proc_initial = (Inr mgr, w1) \<and>
      keyboard_setup attached_kernel kTouchSensorDevicePath ''Halo Keyboard'' ks
        (w1\<lparr>uinput_fd := -1, device_created := False, source_fd := -1\<rparr>) = (Inr (), w2)"
    by (auto simp: shipped_hardware_def)
qed

end
