(* ===== verification/Blame.thy ===== *)
theory Blame
  imports Workers Touchpad_Process
begin

text \<open>
  Where the system errors of a worker come from: an exception with an error code of the system is
  thrown only for a call that has failed with this code, and this is a call on the panel or on the
  virtual device, never one on a motor. So the exit status of a worker, which depends on the code, tells what the kernel
  answered.
\<close>

section \<open>Failed calls\<close>

text \<open>Only the motors are written events of force feedback.\<close>

fun device_call :: "string \<Rightarrow> syscall \<Rightarrow> bool" where
  "device_call path (SysOpen p flags) \<longleftrightarrow> p = path"
| "device_call path (SysRead fd) \<longleftrightarrow> True"
| "device_call path (SysSelect fd sec usec) \<longleftrightarrow> True"
| "device_call path (SysWrite fd e) \<longleftrightarrow> ev_type e \<noteq> EV_FF"
| "device_call path c \<longleftrightarrow> False"

definition failed_call :: "string \<Rightarrow> int \<Rightarrow> syscall \<times> sysret \<Rightarrow> bool" where
  "failed_call path code x \<longleftrightarrow> device_call path (fst x) \<and> ret (snd x) < 0 \<and> err (snd x) = code"

text \<open>\<open>blamed path m\<close>: whenever \<open>m\<close> throws a system error, a call has failed with its code.\<close>

definition blamed :: "string \<Rightarrow> 'a io \<Rightarrow> bool" where
  "blamed path m \<longleftrightarrow> (\<forall>w code what w'. m w = (Inl (SystemError code what), w') \<longrightarrow>
     (\<exists>x \<in> set (trace w'). failed_call path code x))"

lemma blamedI:
  "(\<And>w code what w'. m w = (Inl (SystemError code what), w') \<Longrightarrow>
      \<exists>x \<in> set (trace w'). failed_call path code x) \<Longrightarrow> blamed path m"
  by (simp add: blamed_def)

lemma blamedD: "blamed path m \<Longrightarrow> m w = (Inl (SystemError code what), w') \<Longrightarrow>
    \<exists>x \<in> set (trace w'). failed_call path code x"
  unfolding blamed_def by blast

text \<open>Errors that are not the system's.\<close>

definition own_error :: "exn \<Rightarrow> bool" where
  "own_error e \<longleftrightarrow> (\<forall>code what. e \<noteq> SystemError code what)"

definition own_errors :: "exn + 'a \<Rightarrow> bool" where
  "own_errors r \<longleftrightarrow> (\<forall>e. r = Inl e \<longrightarrow> own_error e)"

lemma own_simps [simp]:
  "own_error (RuntimeError msg)" "own_error (InvalidArgument msg)" "own_error (OutOfRange msg)"
  "own_error (UndefinedBehaviour msg)" "own_errors (Inr x)" "own_errors (Inl e) \<longleftrightarrow> own_error e"
  by (simp_all add: own_error_def own_errors_def)

lemma own_bind: "own_errors r \<Longrightarrow> (\<And>x. own_errors (f x)) \<Longrightarrow> own_errors (res_bind r f)"
  by (cases r) simp_all

lemma blamed_own: "throws own_error m \<Longrightarrow> blamed path m"
  by (rule blamedI) (auto simp: own_error_def dest: throwsD)

lemma blamed_simps [simp]:
  "blamed path (io_return x)" "blamed path (Pair (Inr x))" "blamed path (sys K c)"
  "own_error e \<Longrightarrow> blamed path (io_throw e)"
  by (auto simp: blamed_def sys_def own_error_def)

lemma blamed_bind: "blamed path m \<Longrightarrow> (\<And>x. blamed path (f x)) \<Longrightarrow> blamed path (io_bind m f)"
  unfolding blamed_def by (auto simp: io_bind_eq)

lemma blamed_lift: "own_errors r \<Longrightarrow> blamed path (io_lift r)"
  by (cases r) (simp_all add: io_lift_def)

lemma blamed_check: "blamed path m \<Longrightarrow> blamed path (check m msg)"
  by (auto simp: check_def intro!: blamed_bind)

lemma blamed_state: "(\<And>x. blamed path (m x)) \<Longrightarrow> blamed path (\<lambda>s. m (g s) s)"
  unfolding blamed_def by blast

lemma blamed_finally:
  assumes "blamed path m" and "calls (\<lambda>_. True) d"
  shows "blamed path (io_finally m d)"
proof (rule blamedI)
  fix w code what w'
  assume run: "io_finally m d w = (Inl (SystemError code what), w')"
  then obtain w1 r where m: "m w = (Inl (SystemError code what), w1)" and d: "d w1 = (r, w')"
    by (auto simp: io_finally_def split: prod.splits)
  from blamedD [OF assms(1) m] obtain x where x: "x \<in> set (trace w1)" "failed_call path code x" by blast
  from callsE [OF assms(2) d] obtain ext where "trace w' = trace w1 @ ext" by blast
  with x show "\<exists>x \<in> set (trace w'). failed_call path code x" by auto
qed

section \<open>The computations\<close>

text \<open>What the two workers compute by themselves never ends in a system error.\<close>

lemma known_finger_own: "own_errors (known_finger now tid finger data kb)"
  by (simp add: known_finger_def StillOnFirstKey_def Let_def split: bool.split)

definition plain :: "kb_output \<Rightarrow> bool" where
  "plain out \<longleftrightarrow> (\<forall>t c v. out = Emit t c v \<longrightarrow> t \<in> {EV_KEY, EV_SYN})"

lemma plain_simps [simp]: "plain (Haptic x y)" "plain (Emit t c v) \<longleftrightarrow> t \<in> {EV_KEY, EV_SYN}"
  by (simp_all add: plain_def)

text \<open>A computation that fails by itself, or asks for outputs of the right kind.\<close>

definition sober :: "('e \<Rightarrow> bool) \<Rightarrow> exn + 'e list \<times> 'a \<Rightarrow> bool" where
  "sober Q r \<longleftrightarrow> (case r of Inl e \<Rightarrow> own_error e | Inr (outs, x) \<Rightarrow> list_all Q outs)"

lemma sober_simps [simp]:
  "sober Q (Inl e) \<longleftrightarrow> own_error e" "sober Q (Inr (outs, x)) \<longleftrightarrow> list_all Q outs"
  by (simp_all add: sober_def)

lemma process_fingers_sober: "sober plain (process_fingers now snap order kb)"
proof (induction order arbitrary: kb)
  case (Cons tid order)
  have "sober plain (process_finger now tid finger kb)" for finger
    using known_finger_own [of now tid finger _ kb]
    by (auto simp: process_finger_def arriving_finger_def own_errors_def Let_def
        split: option.split sum.split prod.split)
  note one = this
  show ?case
  proof (cases "snap tid")
    case None
    then show ?thesis using Cons by simp
  next
    case (Some finger)
    then show ?thesis using one [of finger] Cons
      by (auto split: sum.split) (metis sober_simps)+
  qed
qed simp

lemma fire_event_sober: "sober plain (fire_event e kb)"
proof -
  have "own_errors (tap_rejection k d)" for k d
    by (auto simp: tap_rejection_def layout_code_def intro!: own_bind)
  then show ?thesis
    by (auto simp: fire_event_def key_output_def own_errors_def split: option.split sum.split)
qed

lemma fire_loop_sober: "sober plain (fire_loop now kb)"
proof (induction now kb rule: fire_loop.induct)
  case (1 now kb)
  show ?case
  proof (cases "pending_events kb")
    case Nil
    then show ?thesis by (subst fire_loop.simps) simp
  next
    case (Cons e rest)
    let ?one = "fire_event e (kb\<lparr>pending_events := rest\<rparr>)"
    show ?thesis
    proof (cases "TimespecIsLater (pe_deadline e) now")
      case True
      with Cons show ?thesis by (subst fire_loop.simps) simp
    next
      case False
      show ?thesis
      proof (cases ?one)
        case (Inl x)
        with fire_event_sober [of e "kb\<lparr>pending_events := rest\<rparr>"] have "own_error x" by simp
        with Cons False Inl show ?thesis by (subst fire_loop.simps) simp
      next
        case (Inr y)
        obtain outs kb1 where y: "y = (outs, kb1)" by fastforce
        with Inr fire_event_sober [of e "kb\<lparr>pending_events := rest\<rparr>"] have "list_all plain outs" by simp
        moreover have "sober plain (fire_loop now kb1)" by (rule "1.IH" [OF Cons False Inr y [symmetric]])
        ultimately show ?thesis using Cons False Inr y
          by (subst fire_loop.simps) (auto simp: sober_def split: sum.splits)
      qed
    qed
  qed
qed

lemma consume_event_sober: "sober plain (consume_event now ready order tids kb)"
proof -
  have fire: "sober plain (fire_pending now k)" for k
    using fire_loop_sober [of now k] by (auto simp: fire_pending_def sober_def split: sum.splits)
  have snap: "sober plain (ProcessIncomingSnapshot now snap order tids k)" for snap k
    using process_fingers_sober [of now snap order k]
    by (auto simp: ProcessIncomingSnapshot_def sober_def split: sum.splits)
  show ?thesis
  proof (cases "ready")
    case None
    with fire show ?thesis by (simp add: consume_event_def)
  next
    case (Some ev)
    obtain r out sm' where a: "AddEvent ev (Some Map.empty) (kb_sm kb) = (r, out, sm')"
      by (cases "AddEvent ev (Some Map.empty) (kb_sm kb)") blast
    show ?thesis
    proof (cases "r \<and> out \<noteq> None")
      case False
      with Some a show ?thesis by (cases out) (auto simp: consume_event_def split: bool.splits)
    next
      case True
      then obtain snapshot where "r" "out = Some snapshot" by blast
      with Some a snap [of snapshot "kb\<lparr>kb_sm := sm'\<rparr>"] fire show ?thesis
        by (auto simp: consume_event_def sober_def split: sum.splits prod.splits) (metis sum.simps(5) sum.simps(6) case_prod_conv)+
    qed
  qed
qed

definition ordinary :: "input_event \<Rightarrow> bool" where
  "ordinary e \<longleftrightarrow> ev_type e \<in> {EV_ABS, EV_KEY, EV_SYN}"

lemma PassEventsThrough_ordinary: "list_all ordinary (fst (PassEventsThrough tp s order))"
proof (induction order)
  case (Cons k order)
  have "ordinary (transform tp k v)" if "IsSupportedForTouchpads k" for v
    using that by (auto simp: ordinary_def transform_def IsSupportedForTouchpads_def Let_def split: if_splits)
  with Cons show ?case by (auto simp: split_beta split: option.split)
qed simp

lemma sync_slots_sober: "sober ordinary (sync_slots orders is tp)"
proof (induction "is" arbitrary: tp)
  case (Cons i "is")
  show ?case
  proof (cases "slot_at (tp_sm tp) i")
    case (Inl e)
    then have "own_error e" by (auto simp: slot_at_def split: if_splits)
    with Inl show ?thesis by simp
  next
    case (Inr s)
    obtain outs member cnt where one: "sync_slot tp (orders i) i (slot_memberships tp ! i) s = (outs, member, cnt)"
      by (cases "sync_slot tp (orders i) i (slot_memberships tp ! i) s") blast
    have "list_all ordinary (fst (sync_slot tp (orders i) i (slot_memberships tp ! i) s))"
      using PassEventsThrough_ordinary [of tp s "orders i"]
      by (simp add: sync_slot_def Let_def ordinary_def split_beta)
    with one Inr Cons [of "tp\<lparr>slot_memberships := (slot_memberships tp)[i := member]\<rparr>"]
    show ?thesis by (auto simp: sober_def split: sum.splits prod.splits)
  qed
qed simp

lemma tp_consume_sober: "sober ordinary (tp_consume ev orders tp)"
proof -
  obtain frame out sm' where a: "AddEvent ev None (tp_sm tp) = (frame, out, sm')"
    by (cases "AddEvent ev None (tp_sm tp)") blast
  have "list_all ordinary (SendTouchpadBtnEvents n)" for n by (simp add: SendTouchpadBtnEvents_def ordinary_def)
  moreover have "ordinary (input_ev EV_SYN SYN_REPORT 0)" by (simp add: ordinary_def)
  moreover have "sober ordinary (SyncTouchEvents orders (tp\<lparr>tp_sm := sm'\<rparr>))"
    unfolding SyncTouchEvents_def by (rule sync_slots_sober)
  ultimately show ?thesis
    by (cases "SyncTouchEvents orders (tp\<lparr>tp_sm := sm'\<rparr>)") (auto simp: tp_consume_def a Let_def)
qed

section \<open>The configuration\<close>

lemma initialised_own: "own_errors (initialised v)"
  by (simp add: initialised_def uninitialised_def split: option.split)

lemma fp_to_int_own: "own_errors (fp_to_int v)"
  by (auto simp: fp_to_int_def split: fp.split)

lemma load_key_own: "own_errors (load_key hw row)"
  by (auto simp: load_key_def Let_def intro!: own_bind initialised_own fp_to_int_own split: option.split)

text \<open>The reader of the files throws exceptions of its own.\<close>

lemma FakeKeyboard_new_own:
  assumes "\<And>r. r \<in> set rows \<Longrightarrow> own_errors r"
  shows "own_errors (FakeKeyboard_new hw path rows)"
proof -
  have "own_errors (load_rows hw rows acc)" for acc
    using assms
    by (induction rows arbitrary: acc) (auto intro!: own_bind load_key_own split: option.split)
  then show ?thesis by (auto simp: FakeKeyboard_new_def keyboard_LoadLayout_def intro!: own_bind)
qed

lemma FakeTouchpad_new_own:
  assumes "own_errors row"
  shows "own_errors (FakeTouchpad_new hw path row)"
proof -
  have "own_errors (set_region hw a b c d)" for a b c d
    by (auto simp: set_region_def scaled_def Let_def intro!: own_bind fp_to_int_own split: option.split)
  with assms show ?thesis
    by (auto simp: FakeTouchpad_new_def touchpad_LoadLayout_def intro!: own_bind initialised_own split: option.split)
qed

section \<open>The devices\<close>

lemma open_blamed: "blamed path (OpenSourceDevice K path)"
  by (rule blamedI)
    (auto simp: OpenSourceDevice_def failed_call_def sys_def io_bind_def Let_def split: if_splits)

lemma read_blamed: "blamed path (read_event K)"
  by (rule blamedI) (auto simp: read_event_run Let_def failed_call_def split: if_splits)

lemma GetNextEvent_blamed: "blamed path (GetNextEvent K t n)"
proof (rule blamedI)
  fix w code what w'
  assume run: "GetNextEvent K t n w = (Inl (SystemError code what), w')"
  then consider v where "read_event K v = (Inl (SystemError code what), w')"
    | "\<exists>x \<in> set (trace w'). failed_call path code x"
    by (auto simp: GetNextEvent_def failed_call_def split: if_splits)
  then show "\<exists>x \<in> set (trace w'). failed_call path code x"
    by cases (auto dest: blamedD [OF read_blamed])
qed

lemma SendEvent_blamed: "t \<in> {EV_ABS, EV_KEY, EV_SYN} \<Longrightarrow> blamed path (SendEvent K t c v)"
  by (rule blamedI) (auto simp: SendEvent_run Let_def failed_call_def to_u16_id split: if_splits)

lemma quiet_ops:
  "blamed path (CreateUinputFD K)" "blamed path (EnableEventType K t)" "blamed path (EnableKeyEvent K c)"
  "blamed path (FinalizeUinputCreation K name)" "blamed path (PlayEffect K m i)"
  by (rule blamedI; auto simp: CreateUinputFD_def EnableEventType_def EnableKeyEvent_def
      FinalizeUinputCreation_def PlayEffect_def io_bind_def sys_def split: if_splits)+

lemmas device_blamed [simp] = open_blamed GetNextEvent_blamed quiet_ops

lemma EventTriggered_blamed: "blamed path (EventTriggered K mgr ev x y)"
  by (auto simp: EventTriggered_def PlayEffectOfEvent_def intro!: blamed_bind split: option.split)

lemma perform_all_blamed: "list_all plain outs \<Longrightarrow> blamed path (perform_all K mgr outs)"
proof (induction outs)
  case (Cons out outs)
  then show ?case by (cases out) (auto intro!: blamed_bind EventTriggered_blamed SendEvent_blamed)
qed simp

lemma SendEvents_blamed: "list_all ordinary es \<Longrightarrow> blamed path (SendEvents K es)"
  by (induction es) (auto simp: ordinary_def intro!: blamed_bind SendEvent_blamed)

lemma kb_Run_blamed: "blamed path (kb_Run K mgr path name orders kb)"
proof -
  have "blamed path (enable_keys K ks)" for ks by (induction ks) (auto intro!: blamed_bind)
  then have set: "blamed path (keyboard_setup K path name ks)" for ks
    by (auto simp: keyboard_setup_def and_then_def EnableKeyboardEvents_def intro!: blamed_bind)
  have clock: "blamed path (read_clock K)"
    by (auto simp: read_clock_def intro!: blamed_bind split: payload.split)
  have react: "blamed path (kb_react K mgr now ready order tids kb)" for now ready order tids kb
    using consume_event_sober [of now ready order tids kb]
    by (auto simp: kb_react_def sober_def intro!: blamed_bind perform_all_blamed split: sum.splits)
  have "blamed path (kb_iteration K mgr order tids kb)" for order tids kb
    using react clock by (auto simp: kb_iteration_def kb_wait_def intro!: blamed_bind)
  then have "blamed path (kb_Consume K mgr orders kb)" for orders kb
    by (induction K mgr orders kb rule: kb_Consume.induct) (auto intro!: blamed_bind)
  with set show ?thesis by (auto simp: kb_Run_def intro!: blamed_bind)
qed

lemma touchpad_Run_blamed: "blamed path (touchpad_Run K path name all_orders tp w_mm h_mm)"
proof -
  have buttons: "blamed path (EnableTouchpadButtons K)" by (rule blamed_own, rule buttons_never_throw)
  have axes: "blamed path (\<lambda>s. check (CopyABSOutputEvents K (source_fd s) w h xres yres) msg s)"
    for w h xres yres msg
    by (rule blamed_state [where g = source_fd and m = "\<lambda>x. check (CopyABSOutputEvents K x w h xres yres) msg"])
      (intro blamed_check blamed_own CopyABS_never_throws)
  have pure: "own_errors (checked_size tp)" "own_errors (axis_resolution n mm)" for n mm
    by (auto simp: checked_size_def axis_resolution_def split: fp.split)
  have set: "blamed path (touchpad_setup K path name tp w_mm h_mm)"
    unfolding touchpad_setup_def
    by (auto intro!: blamed_bind blamed_check buttons axes blamed_lift pure split: prod.split)
  have "blamed path (case tp_consume ev orders tp of Inl e \<Rightarrow> io_throw e
      | Inr (outs, tp1) \<Rightarrow> io_bind (SendEvents K outs) (\<lambda>_. io_return tp1))" for ev orders tp
    using tp_consume_sober [of ev orders tp]
    by (auto simp: sober_def intro!: blamed_bind SendEvents_blamed split: sum.splits)
  then have "blamed path (tp_iteration K orders tp)" for orders tp
    by (auto simp: tp_iteration_def intro!: blamed_bind split: option.split)
  then have "blamed path (touchpad_Consume K all_orders tp)" for tp
    by (induction all_orders arbitrary: tp) (auto intro!: blamed_bind)
  with set show ?thesis by (auto simp: touchpad_Run_def intro!: blamed_bind)
qed

end
