(* ===== verification/Daemon.thy ===== *)
theory Daemon
  imports Installed Blame Supervisor_Props
begin

text \<open>
  The daemon as a whole: the supervisor with the two workers that it has forked. The processes
  share nothing but the statuses that \<^verbatim>\<open>waitpid\<close> hands from a worker that has ended to the
  supervisor; each runs on a kernel of its own.
\<close>

section \<open>The three processes\<close>

text \<open>The files in the directory of the configuration.\<close>

definition config_file :: "string \<Rightarrow> options \<Rightarrow> string \<Rightarrow> string" where
  "config_file default_directory opts name =
     path_append (if config_directory opts = [] then default_directory else config_directory opts) name"

text \<open>
  What the two children of \<^verbatim>\<open>main\<close> run, from the state in which \<^verbatim>\<open>fork\<close> leaves them;
  \<open>layout_rows\<close> and \<open>region_row\<close> are what the CSV reader delivers for a path.
\<close>

definition keyboard_child ::
  "kernel \<Rightarrow> string \<Rightarrow> hardware_config \<Rightarrow> options \<Rightarrow> (string \<Rightarrow> (exn + layout_row) list) \<Rightarrow>
     (int list \<times> int list) list \<Rightarrow> (exn + keyboard) \<times> proc" where
  "keyboard_child K default_directory hw opts layout_rows orders =
     (let path = config_file default_directory opts ''layout.csv'' in
      keyboard_worker K hw opts path (layout_rows path) orders proc_initial)"

definition touchpad_child ::
  "kernel \<Rightarrow> string \<Rightarrow> hardware_config \<Rightarrow> options \<Rightarrow> (string \<Rightarrow> exn + region_row option) \<Rightarrow>
     (nat \<Rightarrow> event_key list) list \<Rightarrow> (exn + touchpad) \<times> proc" where
  "touchpad_child K default_directory hw opts region_row all_orders =
     (let path = config_file default_directory opts ''touchpad.csv'' in
      touchpad_worker K hw path (region_row path) all_orders proc_initial)"

text \<open>
  A status that a child can end with: one of a signal, or the exit status of one of its runs.
\<close>

definition ends_with :: "('o \<Rightarrow> (exn + 'a) \<times> proc) \<Rightarrow> int \<Rightarrow> bool" where
  "ends_with child status \<longleftrightarrow>
     (WIFEXITED status \<longrightarrow> (\<exists>orders. isl (fst (child orders)) \<and>
        worker_exit (fst (child orders)) = Some (WEXITSTATUS status)))"

text \<open>
  What \<^verbatim>\<open>waitpid\<close> reports to the supervisor: one of the two children it has forked has ended, with
  a status that this child can end with.
\<close>

definition keyboard_pid :: "kernel \<Rightarrow> int" where
  "keyboard_pid K = ret (K [] SysFork)"

definition touchpad_pid :: "kernel \<Rightarrow> int" where
  "touchpad_pid K = ret (K [(SysFork, K [] SysFork)] SysFork)"

definition waits_report :: "kernel \<Rightarrow> (int \<Rightarrow> bool) \<Rightarrow> (int \<Rightarrow> bool) \<Rightarrow> bool" where
  "waits_report K keyboard_status touchpad_status \<longleftrightarrow>
     (\<forall>tr. let r = K tr (SysWaitpid (-1)) in 0 \<le> ret r \<longrightarrow>
        (\<exists>status. payload r = WaitStatus status \<and>
           (ret r = keyboard_pid K \<and> keyboard_status status \<or>
            ret r = touchpad_pid K \<and> touchpad_status status)))"

section \<open>Success\<close>

lemma worker_exit_success:
  "worker_exit (Inl e :: exn + 'a) = Some EXIT_SUCCESS \<longleftrightarrow>
     (\<exists>code what. e = SystemError code what \<and> code \<in> {ENOENT, ENODEV})"
  by (auto simp: worker_exit_def IsExpectedSourceDeviceError_def EXIT_SUCCESS_def EXIT_FAILURE_def
      split: exn.splits if_splits)

text \<open>A child that has ended successfully has ended with one of the two errors of pen mode.\<close>

lemma ends_with_success:
  assumes "ends_with child status" and "WIFEXITED status" and "WEXITSTATUS status = EXIT_SUCCESS"
  obtains orders code what w where "child orders = (Inl (SystemError code what), w)"
    and "code \<in> {ENOENT, ENODEV}"
proof -
  from assms obtain orders where left: "isl (fst (child orders))"
    and status: "worker_exit (fst (child orders)) = Some EXIT_SUCCESS"
    by (auto simp: ends_with_def)
  from left obtain e where e: "fst (child orders) = Inl e" by (auto simp: isl_def)
  with status obtain code what where "e = SystemError code what" "code \<in> {ENOENT, ENODEV}"
    by (auto simp: worker_exit_success)
  with e show thesis by (intro that [of orders code what "snd (child orders)"]) (simp_all add: prod_eq_iff)
qed

lemma Supervise_success:
  assumes "Supervise K kb tp tr = Some (EXIT_SUCCESS, tr')"
  obtains v where "expected_stop (K v (SysWaitpid (-1)))"
proof -
  from assms obtain r tr1 where w: "WaitForWorker K tr = Some (r, tr1)" and "expected_stop r"
    by (auto simp: Supervise_def Let_def expected_stop_def EXIT_SUCCESS_def EXIT_FAILURE_def
        split: option.splits if_splits)
  moreover from wait_result [OF w [unfolded WaitForWorker_def]] obtain v where "r = K v (SysWaitpid (-1))"
    by (auto simp: waited_def)
  ultimately show thesis using that by blast
qed

lemma main_starts:
  assumes "main K default_directory hardware_row arguments = Some (EXIT_SUCCESS, tr)" and "tr \<noteq> []"
  obtains opts message hw
  where "ParseOptions arguments (Some default_options) (Some []) = (kSuccess, Some opts, message)"
    and "LoadHardwareConfig (config_file default_directory opts ''hardware.csv'')
      (hardware_row (config_file default_directory opts ''hardware.csv'')) = Inr hw"
    and "start_workers K [] = Some (EXIT_SUCCESS, tr)"
  using assms
  by (auto simp: main_def Let_def EXIT_SUCCESS_def EXIT_FAILURE_def config_path_def config_file_def
      dest: fail_run split: prod.splits ParseResult.splits option.splits sum.splits)

lemma start_workers_success:
  assumes "start_workers K [] = Some (EXIT_SUCCESS, tr)"
  obtains v where "expected_stop (K v (SysWaitpid (-1)))"
proof -
  from assms obtain kb tp tr1 where "Supervise K kb tp tr1 = Some (EXIT_SUCCESS, tr)"
    by (auto simp: start_workers_def EXIT_SUCCESS_def EXIT_FAILURE_def dest: fail_run
        split: prod.splits sum.splits)
  then show thesis using that by (rule Supervise_success)
qed

section \<open>The workers\<close>

text \<open>What a worker leaves behind that ended with an error of the system.\<close>

definition gone :: "int \<Rightarrow> trace \<Rightarrow> bool" where
  "gone code tr \<longleftrightarrow> (\<exists>x \<in> set tr. failed_call kTouchSensorDevicePath code x) \<and>
     devices tr = ({}, {}) \<and> opened tr = closed_all tr"

lemma destructors_call: "calls (\<lambda>_. True) (FakeDevice_destructor K)" "calls (\<lambda>_. True) (TouchFFManager_destructor K)"
proof -
  have motor: "calls (\<lambda>_. True) (CloseFDIfValid K m)" for m
    by (rule callsI) (cases m; auto simp: CloseFDIfValid_def set_motor_fd_def split: if_splits)
  then show "calls (\<lambda>_. True) (TouchFFManager_destructor K)"
    by (auto simp: TouchFFManager_destructor_def intro!: calls_bind)
  have "calls (\<lambda>_. True) (EvdevSource_destructor K)" "calls (\<lambda>_. True) (UinputDevice_destructor K)"
    by (rule callsI; auto simp: EvdevSource_destructor_def UinputDevice_destructor_def split: if_splits)+
  then show "calls (\<lambda>_. True) (FakeDevice_destructor K)"
    by (auto simp: FakeDevice_destructor_def intro!: calls_bind)
qed

lemma keyboard_child_gone:
  assumes rows: "\<And>path r. r \<in> set (layout_rows path) \<Longrightarrow> own_errors r" and K: "descriptors_work K"
    and run: "keyboard_child K dir hw opts layout_rows orders = (Inl (SystemError code what), w)"
  shows "gone code (trace w)"
proof -
  let ?path = "config_file dir opts ''layout.csv''"
  have worker: "keyboard_worker K hw opts ?path (layout_rows ?path) orders proc_initial = (Inl (SystemError code what), w)"
    using run by (simp add: keyboard_child_def Let_def)
  have upload: "blamed p (UploadEffect K m v ms)" for p m v ms
    by (rule blamedI) (auto simp: UploadEffect_def strong_magnitude_def float_to_u16_def split: if_splits fp.splits)
  have init: "blamed p (FFDriver_Init K m d)" for p m d
    by (rule blamed_own, rule throws_returns, rule FFDriver_Init_returns)
  have "blamed kTouchSensorDevicePath (TouchFFManager_new K a b c v ms)" for a b c v ms
    by (auto simp: TouchFFManager_new_def RegisterFF_def Let_def intro!: blamed_bind upload init split: option.split)
  moreover have "blamed kTouchSensorDevicePath FakeDevice_new"
    by (rule blamedI) (simp add: FakeDevice_new_run)
  ultimately have "blamed kTouchSensorDevicePath (keyboard_worker K hw opts ?path (layout_rows ?path) orders)"
    unfolding keyboard_worker_def
    by (intro blamed_bind blamed_finally destructors_call blamed_lift FakeKeyboard_new_own kb_Run_blamed)
      (auto simp: FFDriver_new_def blamed_def rows)
  from blamedD [OF this worker] keyboard_worker_destroys [OF K worker] keyboard_worker_closes [OF _ worker] K
  show ?thesis by (simp add: gone_def descriptors_work_def)
qed

lemma touchpad_child_gone:
  assumes row: "\<And>path. own_errors (region_row path)" and K: "descriptors_work K"
    and run: "touchpad_child K dir hw opts region_row all_orders = (Inl (SystemError code what), w)"
  shows "gone code (trace w)"
proof -
  let ?path = "config_file dir opts ''touchpad.csv''"
  have worker: "touchpad_worker K hw ?path (region_row ?path) all_orders proc_initial = (Inl (SystemError code what), w)"
    using run by (simp add: touchpad_child_def Let_def)
  have "blamed kTouchSensorDevicePath FakeDevice_new"
    by (rule blamedI) (simp add: FakeDevice_new_run)
  then have "blamed kTouchSensorDevicePath (touchpad_worker K hw ?path (region_row ?path) all_orders)"
    unfolding touchpad_worker_def
    by (auto intro!: blamed_bind blamed_finally destructors_call blamed_lift FakeTouchpad_new_own row
        touchpad_Run_blamed split: prod.split)
  from blamedD [OF this worker] touchpad_worker_destroys [OF K worker] touchpad_worker_closes [OF worker]
  show ?thesis by (simp add: gone_def)
qed

section \<open>The daemon\<close>

text \<open>
  The surroundings of the daemon: whatever the command line and the hardware description give, the
  supervisor's kernel hands over the statuses of the two children, and the reader of the other two
  files throws no error code of the system.
\<close>

definition children_reported ::
  "kernel \<Rightarrow> string \<Rightarrow> (string \<Rightarrow> exn + hardware_config option) \<Rightarrow> string list \<Rightarrow> kernel \<Rightarrow>
     (string \<Rightarrow> (exn + layout_row) list) \<Rightarrow> kernel \<Rightarrow> (string \<Rightarrow> exn + region_row option) \<Rightarrow> bool" where
  "children_reported K default_directory hardware_row arguments K1 layout_rows K2 region_row \<longleftrightarrow>
     (\<forall>opts message hw.
        ParseOptions arguments (Some default_options) (Some []) = (kSuccess, Some opts, message) \<longrightarrow>
        LoadHardwareConfig (config_file default_directory opts ''hardware.csv'')
          (hardware_row (config_file default_directory opts ''hardware.csv'')) = Inr hw \<longrightarrow>
        waits_report K (ends_with (keyboard_child K1 default_directory hw opts layout_rows))
          (ends_with (touchpad_child K2 default_directory hw opts region_row)))"

definition reader_errors ::
  "(string \<Rightarrow> (exn + layout_row) list) \<Rightarrow> (string \<Rightarrow> exn + region_row option) \<Rightarrow> bool" where
  "reader_errors layout_rows region_row \<longleftrightarrow>
     (\<forall>path. (\<forall>r \<in> set (layout_rows path). own_errors r) \<and> own_errors (region_row path))"

text \<open>
  C5: the daemon as a whole. If it exits with success after it has started its workers, then one
  of the workers has ended with the error of a missing file or device; this error is what the
  kernel has answered to a call of that worker on the panel or on its virtual device, and not one
  on a motor; the worker has destroyed its virtual device and closed whatever it had opened; and
  no worker is left running. The supervisor's kernel hands over the statuses of its children, and
  the reader of the configuration files throws no error code of the system.
\<close>

theorem daemon_succeeds_only_in_pen_mode:
  assumes "main K default_directory hardware_row arguments = Some (EXIT_SUCCESS, tr)" and "tr \<noteq> []"
    and "children_reported K default_directory hardware_row arguments K1 layout_rows K2 region_row"
    and "reader_errors layout_rows region_row" and "descriptors_work K1" and "descriptors_work K2"
  shows "(\<exists>opts hw code what w.
      LoadHardwareConfig (config_file default_directory opts ''hardware.csv'')
        (hardware_row (config_file default_directory opts ''hardware.csv'')) = Inr hw \<and>
      code \<in> {ENOENT, ENODEV} \<and> gone code (trace w) \<and>
      ((\<exists>orders. keyboard_child K1 default_directory hw opts layout_rows orders = (Inl (SystemError code what), w)) \<or>
       (\<exists>orders. touchpad_child K2 default_directory hw opts region_row orders = (Inl (SystemError code what), w)))) \<and>
    (\<forall>p. forked p tr \<and> 0 < p \<longrightarrow> stopped p tr \<or> reaped_first p tr)"
proof
  from assms(1,2) obtain opts message hw where
    parse: "ParseOptions arguments (Some default_options) (Some []) = (kSuccess, Some opts, message)"
    and load: "LoadHardwareConfig (config_file default_directory opts ''hardware.csv'')
      (hardware_row (config_file default_directory opts ''hardware.csv'')) = Inr hw"
    and start: "start_workers K [] = Some (EXIT_SUCCESS, tr)" by (rule main_starts)
  show "\<forall>p. forked p tr \<and> 0 < p \<longrightarrow> stopped p tr \<or> reaped_first p tr"
    using start_workers_run [OF start] by blast
  let ?kb = "keyboard_child K1 default_directory hw opts layout_rows"
  let ?tp = "touchpad_child K2 default_directory hw opts region_row"
  from start obtain v where stop: "expected_stop (K v (SysWaitpid (-1)))" by (rule start_workers_success)
  then obtain status where "WIFEXITED status" "WEXITSTATUS status = EXIT_SUCCESS"
    and "ends_with ?kb status \<or> ends_with ?tp status"
    using assms(3) parse load
    by (fastforce simp: children_reported_def waits_report_def Let_def expected_stop_def stored_status_def EXIT_SUCCESS_def)
  then consider (kb) orders code what w where "?kb orders = (Inl (SystemError code what), w)" "code \<in> {ENOENT, ENODEV}"
    | (tp) orders code what w where "?tp orders = (Inl (SystemError code what), w)" "code \<in> {ENOENT, ENODEV}"
    by (metis ends_with_success)
  then show "\<exists>opts hw code what w.
      LoadHardwareConfig (config_file default_directory opts ''hardware.csv'')
        (hardware_row (config_file default_directory opts ''hardware.csv'')) = Inr hw \<and>
      code \<in> {ENOENT, ENODEV} \<and> gone code (trace w) \<and>
      ((\<exists>orders. keyboard_child K1 default_directory hw opts layout_rows orders = (Inl (SystemError code what), w)) \<or>
       (\<exists>orders. touchpad_child K2 default_directory hw opts region_row orders = (Inl (SystemError code what), w)))"
  proof cases
    case kb
    have "gone code (trace w)" by (rule keyboard_child_gone [OF _ assms(5) kb(1)]) (use assms(4) in \<open>auto simp: reader_errors_def\<close>)
    with load kb show ?thesis
      by (intro exI [of _ opts] exI [of _ hw] exI [of _ code] exI [of _ what] exI [of _ w]) auto
  next
    case tp
    have "gone code (trace w)" by (rule touchpad_child_gone [OF _ assms(6) tp(1)]) (use assms(4) in \<open>auto simp: reader_errors_def\<close>)
    with load tp show ?thesis
      by (intro exI [of _ opts] exI [of _ hw] exI [of _ code] exI [of _ what] exI [of _ w]) auto
  qed
qed

text \<open>Two workers that find the panel unplugged, and a supervisor that is told of the first one.\<close>

definition unplugged_kernel :: kernel where
  "unplugged_kernel tr c =
    (if c = SysClock then \<lparr>ret = 0, err = 0, payload = Clock (Timespec 1 0)\<rparr>
     else if c = SysOpen kTouchSensorDevicePath (O_RDONLY + O_CLOEXEC) then \<lparr>ret = -1, err = ENODEV, payload = NoData\<rparr>
     else fresh_kernel tr c)"

lemma unplugged_kernel_works: "descriptors_work unplugged_kernel"
  using fresh_kernel_works by (simp add: descriptors_work_def open_works_def unplugged_kernel_def)

lemma sample_loads: "LoadHardwareConfig path (Inr (Some (sample_hw 0))) = Inr (sample_hw 0)"
  by (simp add: LoadHardwareConfig_def Validate_def sample_hw_def isfinite_def IsSupportedRotation_def)

lemma unplugged_keyboard:
  "\<exists>what w. keyboard_child unplugged_kernel ''/etc'' (sample_hw 0) default_options (\<lambda>_. [Inr sample_row]) [] =
     (Inl (SystemError ENODEV what), w)"
proof -
  let ?path = "config_file ''/etc'' default_options ''layout.csv''"
  obtain r w' where worker: "keyboard_worker unplugged_kernel (sample_hw 0) default_options ?path
      [Inr sample_row] [] proc_initial = (r, w')" by fastforce
  obtain ks where ks: "keyboard_LoadLayout (sample_hw 0) [Inr sample_row] = Inr (True, ks)"
    using sample_key_loads by (auto simp: keyboard_LoadLayout_def)
  from worker have "\<exists>what. r = Inl (SystemError ENODEV what)"
  proof (cases rule: keyboard_worker_stages)
    case (early e)
    with haptics_start [OF sample_loads haptics_start_conditions(2), of unplugged_kernel proc_initial]
    show ?thesis by simp
  next
    case (run haptics w1 w2 r3)
    then show ?thesis
      by (auto simp: io_finally_def FakeKeyboard_new_def ks io_lift_def kb_Run_def keyboard_setup_def
          OpenSourceDevice_def unplugged_kernel_def io_bind_def sys_def split: prod.splits)
  qed
  with worker show ?thesis by (auto simp: keyboard_child_def Let_def)
qed

theorem daemon_succeeds_only_in_pen_mode_witness:
  "\<exists>tr code (w :: proc). forking_main 0 = Some (EXIT_SUCCESS, tr) \<and> code \<in> {ENOENT, ENODEV} \<and>
     gone code (trace w) \<and> forked 101 tr \<and> (stopped 101 tr \<or> reaped_first 101 tr)"
proof -
  from forking_main_run obtain tr where run: "forking_main 0 = Some (EXIT_SUCCESS, tr)"
    and tr: "map (\<lambda>x. (fst x, ret (snd x))) tr = [(SysFork, 100), (SysFork, 101), (SysWaitpid (-1), -1),
      (SysWaitpid (-1), 100), (SysKill 101 SIGTERM, 0), (SysWaitpid 101, 101)]" by auto
  then have forked: "forked 101 tr" and "tr \<noteq> []" by (auto simp: forked_def map_eq_Cons_conv)
  let ?kb = "keyboard_child unplugged_kernel ''/etc'' (sample_hw 0) default_options (\<lambda>_. [Inr sample_row])"
  from unplugged_keyboard obtain what w where kb: "?kb [] = (Inl (SystemError ENODEV what), w)" by blast
  have "ends_with ?kb 0"
    unfolding ends_with_def
    by (intro impI exI [of _ "[]"])
      (simp add: kb worker_exit_def IsExpectedSourceDeviceError_def WEXITSTATUS_def EXIT_SUCCESS_def)
  then have report: "waits_report (forking_kernel 0) (ends_with ?kb) P" for P
    by (auto simp: waits_report_def forking_kernel_def keyboard_pid_def Let_def)
  have reported: "children_reported (forking_kernel 0) ''/etc'' (\<lambda>_. Inr (Some (sample_hw 0))) [] unplugged_kernel
      (\<lambda>_. [Inr sample_row]) unplugged_kernel (\<lambda>_. Inr None)"
    using report by (simp add: children_reported_def haptics_start_conditions(2) sample_loads)
  have reader: "reader_errors (\<lambda>_. [Inr sample_row]) (\<lambda>_. Inr None)" by (simp add: reader_errors_def)
  note daemon = daemon_succeeds_only_in_pen_mode [OF run [unfolded forking_main_def] \<open>tr \<noteq> []\<close> reported reader
      unplugged_kernel_works unplugged_kernel_works]
  from conjunct1 [OF daemon] obtain code and v :: proc
    where "code \<in> {ENOENT, ENODEV}" "gone code (trace v)" by blast
  moreover from conjunct2 [OF daemon] forked have "stopped 101 tr \<or> reaped_first 101 tr" by simp
  ultimately show ?thesis using run forked by blast
qed

end
