(* ===== verification/Spec2Isabelle.thy ===== *)
theory Spec2Isabelle
  imports Multitouch_Spec Keyboard_Fn Keyboard_Process Touchpad_Process Haptics_Props Options_Props
    Config_Props Supervisor_Props Keyboard_Report Keyboard_Direct Touchpad_Stream Touchpad_Direct
    Conformance Diagnostics Daemon
begin

text \<open>
  A verification of the Halo keyboard daemon (\<^verbatim>\<open>halo-keyboard-handler\<close>), which turns the touch panel
  of a tablet into a keyboard and a touchpad.

  \<^bold>\<open>The program.\<close> \<^verbatim>\<open>src/main.cc\<close> parses the command line (\<^verbatim>\<open>options.cc\<close>), loads the description of the
  panel (\<^verbatim>\<open>hardware_config.cc\<close>), forks two workers and supervises them. Each worker reads the events
  of the panel (\<^verbatim>\<open>evdev_source.cc\<close>), gathers them into frames of fingers with the multi-touch state
  machine (\<^verbatim>\<open>src/multitouch\<close>) and sends events to a virtual device (\<^verbatim>\<open>uinput_device.cc\<close>): the
  keyboard worker (\<^verbatim>\<open>fake_keyboard.cc\<close>) key presses, with vibrations of two motors
  (\<^verbatim>\<open>src/haptics\<close>), the touchpad worker (\<^verbatim>\<open>fake_touchpad.cc\<close>) the fingers of a region of the panel.

  \<^bold>\<open>Theories and code.\<close>
  \<^item> Prelude, Linux_Input, Floats: C++ exceptions and undefined behaviour as values of a sum type,
    the narrowing conversions of C integers, the input ABI, IEEE \<^verbatim>\<open>double\<close> and \<^verbatim>\<open>float\<close>.
  \<^item> Syscalls: \<^verbatim>\<open>syscall_handler.cc\<close>. The kernel is a parameter, a function from the calls made so
    far and the next call to its result. An action of a process is a function of its state (the
    descriptors its objects hold, and the trace of its calls) with an exception or a result. The
    predicates \<open>calls\<close>, \<open>returns\<close>, \<open>throws\<close> and \<open>preserves\<close> carry the proofs about actions.
    Emission: an action that computes its outputs first and writes them afterwards.
  \<^item> Timespec, Key_Queue: \<^verbatim>\<open>AddMsToTimespec\<close>, \<^verbatim>\<open>TimespecIsLater\<close> and the queue of pending key events.
  \<^item> Multitouch: \<open>EventKey\<close>, \<open>Slot\<close>, \<open>MtStateMachine\<close>. Multitouch_Spec: what the machine promises, over
    the history of events.
  \<^item> Keyboard: the layout, the data of each finger and one iteration of \<^verbatim>\<open>FakeKeyboard::Consume\<close> as a
    function. Keyboard_Inv, Keyboard_Steps, Keyboard_Fire: the invariant and its preservation.
    Keyboard_System: the loop as a transition system. Keyboard_Safety, Keyboard_Press,
    Keyboard_Taps, Keyboard_Fn: the properties of its runs.
  \<^item> Keyboard_Worker: \<^verbatim>\<open>FakeKeyboard::Run\<close> and \<open>Consume\<close> with their system calls. Device_Trace,
    Keyboard_Worker_Props, Keyboard_Process: the process from end to end, from the calls it makes.
    Keyboard_Liveness, Keyboard_Report: the process on a kernel whose clock and \<^verbatim>\<open>select\<close> agree.
    Keyboard_Direct: the loop in the order of the source, with its writes in the middle.
  \<^item> Touchpad: one iteration of \<^verbatim>\<open>FakeTouchpad::Consume\<close>. Touchpad_System, Touchpad_Mirror,
    Touchpad_Props: a reader of the virtual device beside it. Touchpad_Worker, Touchpad_Process:
    \<open>Run\<close> and \<open>Consume\<close> with their system calls. Touchpad_Stream: what the process writes as a
    function of what it reads, and the readers of both. Touchpad_Direct: the loop in the order of
    the source.
  \<^item> Uinput_Device, Uinput_Props, Evdev_Source: the virtual device and its source.
  \<^item> Haptics, Haptics_Props: \<open>FFDriver\<close> and \<open>TouchFFManager\<close>.
  \<^item> Config, Config_Props: \<open>Validate\<close>, \<open>LoadHardwareConfig\<close> and the two \<open>LoadLayout\<close> functions.
  \<^item> Options, Options_Props: \<open>ParseOptions\<close>.
  \<^item> Workers: the functions \<^verbatim>\<open>main\<close> passes to \<open>SpawnWorker\<close>, with the constructors of their objects
    and the destructors that run when the exception that ends them passes. Device_Lifecycle: the
    virtual devices that exist in the kernel. Supervisor, Supervisor_Props: the rest of
    \<^verbatim>\<open>main.cc\<close>. Blame: which call an error of a worker comes from. Daemon: the supervisor with the
    two workers it has forked. Diagnostics: \<^verbatim>\<open>logging.cc\<close> and the usage text.
  \<^item> Float_Error, Shipped_Config: the files of \<^verbatim>\<open>config\<close> that the package installs and what the code
    makes of them, with bounds on the rounding of \<^verbatim>\<open>double\<close> arithmetic. Installed: the workers with
    these files.
  \<^item> Conformance: the unit tests of \<^verbatim>\<open>tests\<close>, restated over the model.

  \<^bold>\<open>What is shown.\<close> Of the keyboard: it never fails, sends only presses and releases of keys of
  the layout, never a release without a press, leaves no key stuck, decides every press at its
  deadline by the range of its pressure or diameter (\<open>press_in_range\<close>), wakes up when a deadline
  has passed, and asks for one tick per touch; but a finger that leaves before its deadline is
  sent whatever its pressure, and one finger that leaves Fn releases it for all. Of the
  touchpad: a reader sees exactly the fingers of the region, rotated, on the advertised axes, as
  long as there is no overrun; an overrun is not passed on to it. Of the state machine: it
  implements the protocol, with the frames it returns, and resynchronises after an overrun. Of the
  configuration and the command line: what is accepted, and what an accepted one guarantees. Of
  the processes, for every kernel and every number of iterations: what their virtual devices
  accept is sound and fits what was enabled, they end only with a failed call or set-up (or, for
  a region too wide for the arithmetic of \<^verbatim>\<open>int\<close>, \<open>size_fits\<close>, with undefined behaviour), they
  close what they have opened, and they destroy the devices they have created before that. The
  keyboard worker never spins: every iteration reads an event or settles a pending one, and a
  finger that rests on a key is reported or rejected. A reader of the virtual touchpad has the
  fingers that a reader of the panel has in the region. With the
  installed files: the layouts load, their keys do not overlap, and neither worker has undefined
  behaviour, whatever fails. Of the supervisor: it leaves no worker running, never signals a
  worker it has reaped, terminates, and its exit status says how the first worker ended: success
  means that a call on the panel or on a virtual device has failed with the error of a missing
  file or device.

  \<^bold>\<open>Interfaces.\<close> Six contracts are locales, each interpreted on the model: \<open>invariant_system\<close> (Prelude)
  for what holds along runs, interpreted for the state machine, the keyboard, its Fn modifier and
  the touchpad; \<open>deadline_queue\<close> (Key_Queue) for the queue of pending events; \<open>emission\<close>
  (Emission) for a channel that writes lists, interpreted for the outputs of the keyboard and,
  through its extension \<open>event_sink\<close> (Uinput_Device), for the writing of events; \<open>device_loop\<close> (Touchpad_Worker) for an endless loop
  whose iterations append to the trace; and \<open>device_invariant\<close> (Workers) for a property of the
  process that survives the operations of a device, interpreted for the balance of descriptors,
  for idle motors, for motors that share no descriptor with the device, and for the life of the
  virtual devices. The severities of messages are an instance of \<open>linorder\<close>.

  \<^bold>\<open>Assumptions.\<close> Iteration orders of \<^verbatim>\<open>std::unordered_map\<close> are arguments, arbitrary where a property
  does not say otherwise. Runs of the keyboard assume that the panel gives a new finger a number
  that no finger on the panel has, and that the clock does not go back; the end-to-end property
  assumes it of what the kernel delivers (\<open>kb_environment\<close>), with a descriptor below 1024 for
  \<^verbatim>\<open>select\<close>. Workers assumes that \<^verbatim>\<open>open\<close> returns a descriptor or -1. Termination of the program
  assumes that no wait is interrupted for ever. Device_Lifecycle assumes that \<^verbatim>\<open>open\<close> returns
  descriptors that are not in use and that \<^verbatim>\<open>ioctl\<close> fails on a negative one
  (\<open>descriptors_work\<close>); Keyboard_Liveness that a \<^verbatim>\<open>select\<close> that times out has slept (\<open>timely\<close>);
  Daemon that \<^verbatim>\<open>waitpid\<close> hands over the statuses of the children (\<open>waits_report\<close>), and that the CSV
  reader throws no error code of the system (\<open>reader_errors\<close>);
  Shipped_Config that the reader delivers a number of a layout to within a millionth of a
  millimetre.

  \<^bold>\<open>Effects.\<close> An iteration of a worker is modelled twice: as a function from the state and what was
  read to the new state and the outputs, which the proofs about the logic use, and in the order of
  the source, with every write where the code makes it. \<open>keyboard_writes_in_source_order\<close> and
  \<open>touchpad_writes_in_source_order\<close> show that the two make the same calls, for every kernel.

  \<^bold>\<open>Loops.\<close> The two endless loops are modelled by their finite unfoldings, one element of a list of
  iteration orders per iteration; every property holds for every such list. The firing loop
  terminates by the length of the queue, the carry of nanoseconds by their number. The retry
  loops around \<^verbatim>\<open>waitpid\<close> are partial functions whose value is \<open>None\<close> if they do not return.

  \<^bold>\<open>Not modelled.\<close> The text of log messages is output only. The CSV reader \<^verbatim>\<open>csv.h\<close> is a vendored
  library: the rows it delivers, with columns that may be missing, are arguments. Signals that end the supervisor itself
  are not modelled. Packaging, its checks and the \<^verbatim>\<open>libexec\<close> scripts are not part of the daemon.
\<close>

end
